(* ===== verification/CorePrelude.thy ===== *)
theory CorePrelude
  imports Main "HOL-Library.Word"
begin

text \<open>
  Shared vocabulary of the development: the machine types of the program's headers
  (include/core_utils.h), the ways a C call can end (\<open>outcome\<close>, \<open>fault\<close>), C strings and
  the functions of \<open>string.h\<close>, \<open>stdio.h\<close> and \<open>stdlib.h\<close> that the sources use, with the
  lemmas about them that every component shares.

  A C string is a HOL \<open>string\<close> without its terminator. A buffer is the list of the bytes
  that may be read from a pointer on, terminator and padding included. Sizes and offsets
  that stay far below \<open>2 ^ 64\<close> are \<open>nat\<close>; identifiers, counters and times are words.
\<close>

section \<open>Machine types\<close>

type_synonym plugin_id = "32 word"
type_synonym event_id = "16 word"
type_synonym c_int = "32 word"
type_synonym u64 = "64 word"
type_synonym byte = "8 word"

definition PLUGIN_ID_INVALID :: plugin_id where
  "PLUGIN_ID_INVALID = 0"

text \<open>
  How a call can end: it returns, it waits on a condition variable (for ever, unless another
  thread moves), it loops for ever, or it does something the C standard leaves undefined.
\<close>

datatype fault =
    NullDeref
  | OutOfBounds
  | UseAfterFree
  | InvalidFree
  | ShiftOverflow
  | UninitRead

datatype 'a outcome = Ret 'a | Blocked | Diverges | Fault fault

fun outcome_bind :: "'a outcome \<Rightarrow> ('a \<Rightarrow> 'b outcome) \<Rightarrow> 'b outcome" where
  "outcome_bind (Ret x) f = f x"
| "outcome_bind Blocked f = Blocked"
| "outcome_bind Diverges f = Diverges"
| "outcome_bind (Fault e) f = Fault e"

lemma outcome_bind_eq_Ret [simp]:
  "outcome_bind m f = Ret y \<longleftrightarrow> (\<exists>x. m = Ret x \<and> f x = Ret y)"
  by (cases m) auto

lemma outcome_bind_assoc:
  "outcome_bind (outcome_bind m f) g = outcome_bind m (\<lambda>x. outcome_bind (f x) g)"
  by (cases m) simp_all

lemma find_Some_mem: "find P xs = Some x \<Longrightarrow> x \<in> set xs \<and> P x"
  by (induction xs) (auto split: if_splits)

lemma find_append:
  "find P (xs @ ys) = (case find P xs of None \<Rightarrow> find P ys | Some x \<Rightarrow> Some x)"
  by (induction xs) auto

lemma sum_fun_upd:
  fixes f :: "'a \<Rightarrow> nat"
  assumes "finite A" "t \<in> A"
  shows "(\<Sum>u\<in>A. f ((q(t := p)) u)) + f (q t) = (\<Sum>u\<in>A. f (q u)) + f p"
proof -
  have "(\<Sum>u\<in>A - {t}. f ((q(t := p)) u)) = (\<Sum>u\<in>A - {t}. f (q u))"
    by (rule sum.cong) auto
  with assms show ?thesis by (simp add: sum.remove [of A t])
qed

named_theorems op_defs \<open>definitions of the operations, to be unfolded in step proofs\<close>
named_theorems inv_intros \<open>preservation of the component invariants\<close>

section \<open>C strings\<close>

abbreviation NUL :: char where "NUL \<equiv> CHR 0x00"
abbreviation NL :: char where "NL \<equiv> CHR 0x0A"
abbreviation CR :: char where "CR \<equiv> CHR 0x0D"
abbreviation TAB :: char where "TAB \<equiv> CHR 0x09"

text \<open>The C string that a run of bytes starts with.\<close>

definition cstr :: "string \<Rightarrow> string" where
  "cstr bs = takeWhile (\<lambda>c. c \<noteq> NUL) bs"

lemma cstr_simps [simp]:
  "cstr [] = []"
  "cstr (c # cs) = (if c = NUL then [] else c # cstr cs)"
  by (simp_all add: cstr_def)

lemma cstr_no_nul [simp]: "NUL \<notin> set (cstr s)"
  by (induction s) auto

lemma cstr_id [simp]: "NUL \<notin> set s \<Longrightarrow> cstr s = s"
  by (induction s) auto

lemma cstr_cstr [simp]: "cstr (cstr s) = cstr s"
  by simp

lemma cstr_append_nul [simp]: "cstr (s @ NUL # t) = cstr s"
  by (induction s) auto

lemma length_cstr [simp]: "length (cstr s) \<le> length s"
  by (induction s) auto

lemma cstr_shorter: "NUL \<in> set s \<Longrightarrow> length (cstr s) < length s"
  by (induction s) auto

lemma set_cstr_subset: "set (cstr s) \<subseteq> set s"
  by (induction s) auto

text \<open>
  \<open>snprintf(buf, n, ...)\<close> of a text \<open>s\<close>: at most \<open>n - 1\<close> characters are kept, and what a
  later call reads back is the C string of the buffer.
\<close>

definition snprintf :: "nat \<Rightarrow> string \<Rightarrow> string" where
  "snprintf n s = cstr (take (n - 1) s)"

lemma length_snprintf_less: "0 < n \<Longrightarrow> length (snprintf n s) < n"
  unfolding snprintf_def by (rule le_less_trans [OF length_cstr]) auto

lemma length_snprintf_le: "length (snprintf n s) \<le> n - 1"
  unfolding snprintf_def by (rule le_trans [OF length_cstr]) simp

lemma snprintf_no_nul [simp]: "NUL \<notin> set (snprintf n s)"
  by (simp add: snprintf_def)

lemma snprintf_fits [simp]:
  assumes "NUL \<notin> set s" and "length s < n"
  shows "snprintf n s = s"
  using assms by (simp add: snprintf_def)

text \<open>\<open>strncat(dst, src, n)\<close>: at most \<open>n\<close> characters of \<open>src\<close> are appended.\<close>

definition strncat :: "string \<Rightarrow> string \<Rightarrow> nat \<Rightarrow> string" where
  "strncat dst src n = dst @ take n src"

text \<open>
  The loop body by which the \<open>get_list\<close> functions append an entry to a buffer of \<open>cap\<close> bytes.
  Over a list of entries it builds the text cut at \<open>cap - 1\<close> characters.
\<close>

definition list_append :: "nat \<Rightarrow> string \<Rightarrow> string \<Rightarrow> string" where
  "list_append cap out temp =
     (let current_len = length out;
          remaining = cap - current_len - 1
      in if remaining > 0 then strncat out temp remaining else out)"

lemma list_append_take:
  "list_append cap (take (cap - 1) x) t = take (cap - 1) (x @ t)"
  by (simp add: list_append_def strncat_def Let_def min_def)

lemma fold_list_append:
  "fold (\<lambda>e out. list_append cap out (f e)) es (take (cap - 1) x)
    = take (cap - 1) (x @ concat (map f es))"
proof (induction es arbitrary: x)
  case (Cons e es)
  show ?case using Cons.IH [of "x @ f e"] by (simp add: list_append_take [unfolded One_nat_def] del: take_append)
qed simp

text \<open>\<open>strcmp\<close> as the difference of the first characters that differ.\<close>

fun strcmp :: "string \<Rightarrow> string \<Rightarrow> int" where
  "strcmp [] [] = 0"
| "strcmp [] (d # ds) = - int (of_char d)"
| "strcmp (c # cs) [] = int (of_char c)"
| "strcmp (c # cs) (d # ds) =
     (if c = d then strcmp cs ds else int (of_char c) - int (of_char d))"

lemma of_char_nat_eq_0_iff [simp]: "(of_char c :: nat) = 0 \<longleftrightarrow> c = NUL"
  by (cases c) (simp add: of_char_def)

lemma strcmp_eq_0_iff [simp]:
  "NUL \<notin> set s \<Longrightarrow> NUL \<notin> set t \<Longrightarrow> strcmp s t = 0 \<longleftrightarrow> s = t"
  by (induction s t rule: strcmp.induct) (auto simp: int_eq_iff)

text \<open>\<open>strcasecmp(s, t) == 0\<close> and \<open>strncmp(s, p, strlen(p)) == 0\<close>.\<close>

definition tolower :: "char \<Rightarrow> char" where
  "tolower c = (if 65 \<le> (of_char c :: nat) \<and> (of_char c :: nat) \<le> 90
                then char_of ((of_char c :: nat) + 32) else c)"

definition strcaseeq :: "string \<Rightarrow> string \<Rightarrow> bool" where
  "strcaseeq s t \<longleftrightarrow> map tolower s = map tolower t"

definition starts_with :: "string \<Rightarrow> string \<Rightarrow> bool" where
  "starts_with p s \<longleftrightarrow> take (length p) s = p"

text \<open>
  A text file as the calls \<open>fgets(line, n, f)\<close> deliver it: up to a newline, but at most \<open>n - 1\<close>
  characters at a time.
\<close>

definition fgets :: "nat \<Rightarrow> string \<Rightarrow> string \<times> string" where
  "fgets n s =
     (let k = min (n - 1) (length (takeWhile (\<lambda>c. c \<noteq> NL) s) + 1) in (take k s, drop k s))"

function fgets_lines :: "nat \<Rightarrow> string \<Rightarrow> string list" where
  "fgets_lines n s =
     (if s = [] \<or> n \<le> 1 then [] else fst (fgets n s) # fgets_lines n (snd (fgets n s)))"
  by pat_completeness auto
termination by (relation "measure (\<lambda>(n, s). length s)") (auto simp: fgets_def Let_def)

declare fgets_lines.simps [simp del]

text \<open>\<open>strchr(s, c)\<close>: what stands before the first \<open>c\<close> and after it, if there is one.\<close>

definition strchr :: "string \<Rightarrow> char \<Rightarrow> (string \<times> string) option" where
  "strchr s c =
     (if c \<in> set s
      then Some (takeWhile (\<lambda>x. x \<noteq> c) s, tl (dropWhile (\<lambda>x. x \<noteq> c) s))
      else None)"

lemma strchr_append [simp]: "c \<notin> set s \<Longrightarrow> strchr (s @ c # t) c = Some (s, t)"
  by (simp add: strchr_def takeWhile_append dropWhile_append)

lemma strchr_None [simp]: "c \<notin> set s \<Longrightarrow> strchr s c = None"
  by (simp add: strchr_def)

text \<open>
  The tokens that a first call \<open>strtok(s, ds)\<close> and the calls \<open>strtok(NULL, ds)\<close> after it
  return: the maximal runs of characters outside \<open>ds\<close>.
\<close>

function strtok :: "char list \<Rightarrow> string \<Rightarrow> string list" where
  "strtok ds s =
     (case dropWhile (\<lambda>c. c \<in> set ds) s of
        [] \<Rightarrow> []
      | c # r \<Rightarrow> (c # takeWhile (\<lambda>x. x \<notin> set ds) r)
                 # strtok ds (dropWhile (\<lambda>x. x \<notin> set ds) r))"
  by pat_completeness auto
termination
proof (relation "measure (\<lambda>(ds, s). length s)", simp)
  fix ds :: "char list" and s c r
  assume eq: "dropWhile (\<lambda>c. c \<in> set ds) s = c # r"
  have "length (dropWhile (\<lambda>x. x \<notin> set ds) r) \<le> length r"
    by (rule length_dropWhile_le)
  also have "\<dots> < length s"
    using length_dropWhile_le [of "\<lambda>c. c \<in> set ds" s] by (simp add: eq)
  finally show "((ds, dropWhile (\<lambda>x. x \<notin> set ds) r), ds, s) \<in> measure (\<lambda>(ds, s). length s)"
    by simp
qed

declare strtok.simps [simp del]

lemma strtok_Nil [simp]: "strtok ds [] = []"
  by (simp add: strtok.simps)

lemma strtok_skip [simp]: "c \<in> set ds \<Longrightarrow> strtok ds (c # s) = strtok ds s"
  by (simp add: strtok.simps [of ds "c # s"] strtok.simps [of ds s])

lemma strtok_token:
  assumes "t \<noteq> []" and "set t \<inter> set ds = {}" and "d \<in> set ds"
  shows "strtok ds (t @ d # s) = t # strtok ds s"
proof -
  obtain c r where t: "t = c # r" using assms(1) by (cases t) auto
  with assms(2) have c: "c \<notin> set ds" and r: "\<forall>x\<in>set r. x \<notin> set ds" by auto
  have "takeWhile (\<lambda>x. x \<notin> set ds) (r @ d # s) = r"
    and "dropWhile (\<lambda>x. x \<notin> set ds) (r @ d # s) = d # s"
    using r assms(3) by (simp_all add: takeWhile_append dropWhile_append)
  with c assms(3) show ?thesis
    by (simp add: t strtok.simps [of ds "c # r @ d # s"])
qed

section \<open>Numbers as text\<close>

definition digit_char :: "nat \<Rightarrow> char" where
  "digit_char d = char_of (48 + d)"

definition is_digit :: "char \<Rightarrow> bool" where
  "is_digit c \<longleftrightarrow> 48 \<le> (of_char c :: nat) \<and> (of_char c :: nat) \<le> 57"

definition digit_val :: "char \<Rightarrow> nat" where
  "digit_val c = of_char c - 48"

lemma digit_val_char [simp]: "d < 10 \<Longrightarrow> digit_val (digit_char d) = d"
  by (simp add: digit_val_def digit_char_def)

lemma is_digit_char [simp]: "d < 10 \<Longrightarrow> is_digit (digit_char d)"
  by (simp add: is_digit_def digit_char_def)

fun show_nat :: "nat \<Rightarrow> string" where
  "show_nat n =
     (if n < 10 then [digit_char n] else show_nat (n div 10) @ [digit_char (n mod 10)])"

declare show_nat.simps [simp del]

definition show_int :: "int \<Rightarrow> string" where
  "show_int i = (if i < 0 then CHR ''-'' # show_nat (nat (- i)) else show_nat (nat i))"

text \<open>\<open>%d\<close> reads its argument as a signed 32-bit value, \<open>%lld\<close> as a signed 64-bit one.\<close>

definition fmt_d :: "32 word \<Rightarrow> string" where
  "fmt_d w = show_int (sint w)"

definition fmt_lld :: "64 word \<Rightarrow> string" where
  "fmt_lld w = show_int (sint w)"

text \<open>\<open>%p\<close> and \<open>%s\<close> as the GNU C library prints them; the latter also takes a NULL pointer.\<close>

fun show_hex :: "nat \<Rightarrow> string" where
  "show_hex n =
     (let d = (if n mod 16 < 10 then digit_char (n mod 16) else char_of (87 + n mod 16))
      in if n < 16 then [d] else show_hex (n div 16) @ [d])"

declare show_hex.simps [simp del]

definition fmt_p :: "64 word \<Rightarrow> string" where
  "fmt_p p = (if p = 0 then ''(nil)'' else ''0x'' @ show_hex (unat p))"

definition fmt_s :: "string option \<Rightarrow> string" where
  "fmt_s s = (case s of None \<Rightarrow> ''(null)'' | Some t \<Rightarrow> t)"

definition digits_val :: "string \<Rightarrow> nat" where
  "digits_val s = foldl (\<lambda>a c. 10 * a + digit_val c) 0 s"

lemma digits_val_snoc [simp]: "digits_val (s @ [c]) = 10 * digits_val s + digit_val c"
  by (simp add: digits_val_def)

lemma digits_val_show_nat [simp]: "digits_val (show_nat n) = n"
proof (induction n rule: show_nat.induct)
  case (1 n)
  show ?case
  proof (cases "n < 10")
    case True
    then show ?thesis by (simp add: show_nat.simps [of n] digits_val_def)
  next
    case False
    with "1" have "digits_val (show_nat (n div 10)) = n div 10" by simp
    with False show ?thesis by (simp add: show_nat.simps [of n])
  qed
qed

lemma show_nat_digits: "\<forall>c\<in>set (show_nat n). is_digit c"
proof (induction n rule: show_nat.induct)
  case (1 n)
  then show ?case by (cases "n < 10") (auto simp: show_nat.simps [of n])
qed

lemma show_nat_not_Nil [simp]: "show_nat n \<noteq> []"
  by (simp add: show_nat.simps)

text \<open>\<open>isspace\<close> in the C locale.\<close>

definition isspace :: "char \<Rightarrow> bool" where
  "isspace c \<longleftrightarrow> c = CHR '' '' \<or> (9 \<le> (of_char c :: nat) \<and> (of_char c :: nat) \<le> 13)"

lemma is_digit_not_space [simp]: "is_digit c \<Longrightarrow> \<not> isspace c"
  by (auto simp: is_digit_def isspace_def)

text \<open>
  \<open>strtol(s, &end, 10)\<close> without the range check: \<open>None\<close> when no digit is found, that is
  when \<open>end == s\<close>. The C value is \<open>clamp_long\<close> of it, with \<open>ERANGE\<close> when they differ.
\<close>

definition strtol :: "string \<Rightarrow> int option" where
  "strtol s =
     (let s1 = dropWhile isspace s;
          neg = (s1 \<noteq> [] \<and> hd s1 = CHR ''-'');
          s2 = (if s1 \<noteq> [] \<and> (hd s1 = CHR ''-'' \<or> hd s1 = CHR ''+'') then tl s1 else s1);
          ds = takeWhile is_digit s2
      in if ds = [] then None
         else Some (if neg then - int (digits_val ds) else int (digits_val ds)))"

definition LONG_MAX :: int where "LONG_MAX = 2 ^ 63 - 1"
definition LONG_MIN :: int where "LONG_MIN = - (2 ^ 63)"

definition clamp_long :: "int \<Rightarrow> int" where
  "clamp_long v = max LONG_MIN (min LONG_MAX v)"

text \<open>\<open>atoi\<close>, as the C library has it: \<open>(int) strtol(s, NULL, 10)\<close>.\<close>

definition atoi :: "string \<Rightarrow> 32 word" where
  "atoi s = (case strtol s of None \<Rightarrow> 0 | Some v \<Rightarrow> word_of_int (clamp_long v))"

lemma show_int_strtol [simp]:
  assumes "s = [] \<or> \<not> is_digit (hd s)"
  shows "strtol (show_int i @ s) = Some i"
proof -
  have tw: "takeWhile is_digit (show_nat n @ s) = show_nat n" for n
    using assms show_nat_digits [of n] by (cases s) (simp_all add: takeWhile_append)
  obtain c r where cr: "show_nat (nat i) = c # r" by (cases "show_nat (nat i)") auto
  then have "is_digit c" using show_nat_digits [of "nat i"] by simp
  then have c: "is_digit c" "c \<noteq> CHR ''-''" "c \<noteq> CHR ''+''"
    by (auto simp: is_digit_def)
  show ?thesis
  proof (cases "i < 0")
    case True
    then show ?thesis
      using tw [of "nat (- i)"] by (simp add: strtol_def show_int_def Let_def isspace_def)
  next
    case False
    have "dropWhile isspace (show_nat (nat i) @ s) = show_nat (nat i) @ s"
      and "hd (show_nat (nat i) @ s) = c"
      using c by (simp_all add: cr)
    with False c tw [of "nat i"] show ?thesis
      by (simp add: strtol_def show_int_def Let_def)
  qed
qed

lemma atoi_fmt_d [simp]: "atoi (fmt_d w) = w"
proof -
  have "- (2 ^ 31) \<le> sint w" "sint w < 2 ^ 31"
    using sint_greater_eq [of w] sint_less [of w] by simp_all
  then have "clamp_long (sint w) = sint w"
    by (simp add: clamp_long_def LONG_MAX_def LONG_MIN_def)
  then show ?thesis
    using show_int_strtol [of "[]" "sint w"] by (simp add: atoi_def fmt_d_def)
qed

section \<open>Systems that come to rest\<close>

text \<open>
  What a system of threads has to promise so that whatever it has begun ends: an invariant, an amount
  of work that every step uses up, and that a state in which nothing can move is a finished one.
  Then every run is bounded, in whatever order the steps are taken, and a finished state is reached.
\<close>

locale draining_system =
  fixes step :: "'s \<Rightarrow> 's \<Rightarrow> bool"
    and inv :: "'s \<Rightarrow> bool"
    and work :: "'s \<Rightarrow> nat"
    and finished :: "'s \<Rightarrow> bool"
  assumes step_inv: "inv s \<Longrightarrow> step s s' \<Longrightarrow> inv s'"
    and step_work: "inv s \<Longrightarrow> step s s' \<Longrightarrow> work s' < work s"
    and stuck_finished: "inv s \<Longrightarrow> \<nexists>s'. step s s' \<Longrightarrow> finished s"
begin

lemma run_bounded:
  assumes "(step ^^ m) s s'" "inv s"
  shows "inv s' \<and> m + work s' \<le> work s"
  using assms(1)
proof (induction m arbitrary: s')
  case (Suc m)
  then obtain u where u: "(step ^^ m) s u" "step u s'" by auto
  with Suc.IH [OF u(1)] step_inv [OF _ u(2)] step_work [OF _ u(2)] show ?case by fastforce
qed (use assms(2) in simp)

lemma run_finishes:
  assumes "inv s"
  shows "\<exists>s'. step\<^sup>*\<^sup>* s s' \<and> (\<nexists>s''. step s' s'') \<and> finished s'"
  using assms
proof (induction "work s" arbitrary: s rule: less_induct)
  case less
  show ?case
  proof (cases "\<exists>u. step s u")
    case True
    then obtain u where u: "step s u" by blast
    from less.hyps [OF step_work [OF less.prems u] step_inv [OF less.prems u]] u show ?thesis
      by (meson converse_rtranclp_into_rtranclp)
  next
    case False
    with stuck_finished [OF less.prems] show ?thesis by blast
  qed
qed

end

end
