(* ===== verification/BusQueue.thy ===== *)
theory BusQueue
  imports CorePrelude
begin

text \<open>
  The bounded queue of src/core/event_bus.c (\<open>task_event_bus_queue_t\<close>): an array of
  \<open>MAX_TASKS\<close> entries used as a ring, with the index arithmetic of \<open>enqueue_task\<close> and of
  \<open>bus_worker_thread\<close>, and its refinement of a first-in first-out list.
\<close>

definition MAX_TASKS :: nat where "MAX_TASKS = 100"

record 't ring =
  slots :: "nat \<Rightarrow> 't"
  head :: nat
  tail :: nat
  count :: nat

text \<open>The body of \<open>enqueue_task\<close> after its guards.\<close>

definition ring_put :: "'t \<Rightarrow> 't ring \<Rightarrow> 't ring" where
  "ring_put t q =
     (let q1 = q\<lparr>slots := (slots q)(tail q := t)\<rparr>;
          q2 = q1\<lparr>tail := (tail q1 + 1) mod MAX_TASKS\<rparr>
      in q2\<lparr>count := count q2 + 1\<rparr>)"

text \<open>What a worker takes, and what it leaves.\<close>

definition ring_front :: "'t ring \<Rightarrow> 't" where
  "ring_front q = slots q (head q)"

definition ring_drop :: "'t ring \<Rightarrow> 't ring" where
  "ring_drop q =
     (let q1 = q\<lparr>head := (head q + 1) mod MAX_TASKS\<rparr> in q1\<lparr>count := count q1 - 1\<rparr>)"

definition ring_reset :: "'t ring \<Rightarrow> 't ring" where
  "ring_reset q = q\<lparr>head := 0, tail := 0, count := 0\<rparr>"

section \<open>Invariant and abstraction\<close>

definition ring_inv :: "'t ring \<Rightarrow> bool" where
  "ring_inv q \<longleftrightarrow>
     head q < MAX_TASKS \<and> count q \<le> MAX_TASKS \<and> tail q = (head q + count q) mod MAX_TASKS"

definition ring_list :: "'t ring \<Rightarrow> 't list" where
  "ring_list q = map (\<lambda>i. slots q ((head q + i) mod MAX_TASKS)) [0..<count q]"

lemma MAX_TASKS_pos [simp]: "0 < MAX_TASKS"
  by (simp add: MAX_TASKS_def)

lemma length_ring_list [simp]: "length (ring_list q) = count q"
  by (simp add: ring_list_def)

lemma ring_list_Nil_iff [simp]: "ring_list q = [] \<longleftrightarrow> count q = 0"
  by (simp add: ring_list_def)

lemma ring_inv_reset [simp]: "ring_inv (ring_reset q)"
  by (simp add: ring_inv_def ring_reset_def)

lemma ring_list_reset [simp]: "ring_list (ring_reset q) = []"
  by (simp add: ring_list_def ring_reset_def)

lemma mod_add_neq:
  assumes "i < c" "c < (n::nat)"
  shows "(h + i) mod n \<noteq> (h + c) mod n"
proof
  assume eq: "(h + i) mod n = (h + c) mod n"
  have "h + i \<le> h + c" using assms by simp
  with eq have "n dvd (h + c) - (h + i)" using mod_eq_dvd_iff_nat [of "h + i" "h + c" n] by simp
  then have "n dvd c - i" by simp
  with assms show False by (auto dest: dvd_imp_le)
qed

lemma ring_inv_put: "ring_inv q \<Longrightarrow> count q < MAX_TASKS \<Longrightarrow> ring_inv (ring_put t q)"
  by (auto simp: ring_inv_def ring_put_def Let_def mod_Suc_eq)

lemma ring_list_put:
  assumes "ring_inv q" "count q < MAX_TASKS"
  shows "ring_list (ring_put t q) = ring_list q @ [t]"
proof -
  have "(head q + i) mod MAX_TASKS \<noteq> tail q" if "i < count q" for i
    using assms that mod_add_neq [of i "count q" MAX_TASKS "head q"] by (simp add: ring_inv_def)
  then show ?thesis
    using assms by (auto simp: ring_list_def ring_put_def Let_def ring_inv_def)
qed

lemma ring_inv_drop: "ring_inv q \<Longrightarrow> 0 < count q \<Longrightarrow> ring_inv (ring_drop q)"
  by (cases "count q") (auto simp: ring_inv_def ring_drop_def Let_def mod_simps)

lemma ring_list_drop:
  assumes "ring_inv q" "0 < count q"
  shows "ring_list q = ring_front q # ring_list (ring_drop q)"
proof -
  have "[0..<count q] = 0 # map Suc [0..<count q - 1]"
    using assms(2) by (simp add: map_Suc_upt upt_conv_Cons)
  then show ?thesis
    using assms by (simp add: ring_list_def ring_front_def ring_drop_def Let_def ring_inv_def
        mod_simps)
qed

section \<open>First-in first-out queues of bounded length\<close>

text \<open>
  What the event bus relies on. Inside, a run of puts and takes is related to the list it
  stands for: what was taken, followed by what is still queued, is what was put, in order.
\<close>

datatype 't queue_op = Put 't | Take

fun run_queue ::
    "('t \<Rightarrow> 'q \<Rightarrow> 'q) \<Rightarrow> ('q \<Rightarrow> 't) \<Rightarrow> ('q \<Rightarrow> 'q) \<Rightarrow> ('q \<Rightarrow> bool) \<Rightarrow> ('q \<Rightarrow> bool)
      \<Rightarrow> 't queue_op list \<Rightarrow> 'q \<Rightarrow> 't list \<times> 't list \<times> 'q" where
  "run_queue put front rest is_full is_empty [] q = ([], [], q)"
| "run_queue put front rest is_full is_empty (Put t # ops) q =
     (if is_full q then run_queue put front rest is_full is_empty ops q
      else case run_queue put front rest is_full is_empty ops (put t q) of
             (ins, outs, q') \<Rightarrow> (t # ins, outs, q'))"
| "run_queue put front rest is_full is_empty (Take # ops) q =
     (if is_empty q then run_queue put front rest is_full is_empty ops q
      else case run_queue put front rest is_full is_empty ops (rest q) of
             (ins, outs, q') \<Rightarrow> (ins, front q # outs, q'))"

locale bounded_fifo =
  fixes put :: "'t \<Rightarrow> 'q \<Rightarrow> 'q"
    and front :: "'q \<Rightarrow> 't"
    and rest :: "'q \<Rightarrow> 'q"
    and is_full :: "'q \<Rightarrow> bool"
    and is_empty :: "'q \<Rightarrow> bool"
    and contents :: "'q \<Rightarrow> 't list"
    and inv :: "'q \<Rightarrow> bool"
    and bound :: nat
  assumes put_contents: "inv q \<Longrightarrow> \<not> is_full q \<Longrightarrow> contents (put t q) = contents q @ [t]"
    and put_inv: "inv q \<Longrightarrow> \<not> is_full q \<Longrightarrow> inv (put t q)"
    and rest_contents: "inv q \<Longrightarrow> \<not> is_empty q \<Longrightarrow> contents q = front q # contents (rest q)"
    and rest_inv: "inv q \<Longrightarrow> \<not> is_empty q \<Longrightarrow> inv (rest q)"
    and full_iff: "inv q \<Longrightarrow> is_full q \<longleftrightarrow> length (contents q) = bound"
    and empty_iff: "inv q \<Longrightarrow> is_empty q \<longleftrightarrow> contents q = []"
    and within_bound: "inv q \<Longrightarrow> length (contents q) \<le> bound"
begin

lemma fifo:
  assumes "inv q" "run_queue put front rest is_full is_empty ops q = (ins, outs, q')"
  shows "inv q' \<and> contents q @ ins = outs @ contents q' \<and> length (contents q') \<le> bound"
  using assms
proof (induction ops arbitrary: q ins outs q')
  case Nil
  then show ?case by (simp add: within_bound)
next
  case (Cons x ops)
  show ?case
  proof (cases x)
    case (Put t)
    show ?thesis
    proof (cases "is_full q")
      case False
      obtain ins1 outs1 q1 where r: "run_queue put front rest is_full is_empty ops (put t q)
          = (ins1, outs1, q1)" by (metis prod_cases3)
      with Cons.IH [OF put_inv [OF Cons.prems(1) False] r] Cons.prems(2) Put False
      show ?thesis by (auto simp: put_contents [OF Cons.prems(1) False])
    qed (use Cons Put in simp)
  next
    case Take
    show ?thesis
    proof (cases "is_empty q")
      case False
      obtain ins1 outs1 q1 where r: "run_queue put front rest is_full is_empty ops (rest q)
          = (ins1, outs1, q1)" by (metis prod_cases3)
      note c = rest_contents [OF Cons.prems(1) False]
      from Cons.IH [OF rest_inv [OF Cons.prems(1) False] r] Cons.prems(2) Take False r
      show ?thesis by (auto simp: c simp del: append_assoc)
    qed (use Cons Take in simp)
  qed
qed

end

lemma ring_inv_le: "ring_inv q \<Longrightarrow> count q \<le> MAX_TASKS"
  by (simp add: ring_inv_def)

interpretation bus_ring: bounded_fifo ring_put ring_front ring_drop
  "\<lambda>q. count q = MAX_TASKS" "\<lambda>q. count q = 0" ring_list ring_inv MAX_TASKS
proof (unfold_locales, goal_cases)
  case (1 q t)
  then show ?case using ring_inv_le [of q] by (simp add: ring_list_put)
next
  case (2 q t)
  then show ?case using ring_inv_le [of q] by (simp add: ring_inv_put)
next
  case (3 q)
  then show ?case by (simp add: ring_list_drop)
next
  case (4 q)
  then show ?case by (simp add: ring_inv_drop)
qed (simp_all add: ring_inv_le)

end
