(* ===== verification/StrUtils.thy ===== *)
theory StrUtils
  imports CorePrelude
begin

text \<open>
  src/utils/utils_string.c: \<open>optimized_strcmp\<close> and the vector routines it dispatches to.
  A string argument is the buffer of the bytes readable from the pointer on, terminator and
  padding included, because the vector routines read past the terminator. The compiler
  intrinsics are lane-wise functions on lists; the target the preprocessor selects is an
  argument. The AVX2 branch of \<open>optimized_strcmp\<close> names \<open>simd_strcmp_x86\<close>, which no file
  defines, so it has no target here; \<open>simd_strcmp_u128\<close> itself is modelled.
\<close>

section \<open>Library functions on buffers\<close>

fun buf_strcmp :: "string \<Rightarrow> string \<Rightarrow> int outcome" where
  "buf_strcmp (c # cs) (d # ds) =
     (if c \<noteq> d then Ret (int (of_char c) - int (of_char d))
      else if c = NUL then Ret 0 else buf_strcmp cs ds)"
| "buf_strcmp _ _ = Fault OutOfBounds"

definition buf_strlen :: "string \<Rightarrow> nat outcome" where
  "buf_strlen b = (if NUL \<in> set b then Ret (length (cstr b)) else Fault OutOfBounds)"

lemma buf_strcmp_eq_0_iff:
  "NUL \<in> set a \<Longrightarrow> NUL \<in> set b \<Longrightarrow> buf_strcmp a b = Ret 0 \<longleftrightarrow> cstr a = cstr b"
  by (induction a b rule: buf_strcmp.induct) (auto simp: int_eq_iff)

lemma buf_strcmp_returns:
  "NUL \<in> set a \<Longrightarrow> NUL \<in> set b \<Longrightarrow> \<exists>r. buf_strcmp a b = Ret r"
  by (induction a b rule: buf_strcmp.induct) auto

section \<open>Vector intrinsics\<close>

type_synonym lanes = "8 word list"

text \<open>AArch64 NEON, 16 lanes of 8 bits.\<close>

definition vld1q_u8 :: "string \<Rightarrow> lanes" where
  "vld1q_u8 b = map of_char (take 16 b)"

definition vdupq_n_u8 :: "8 word \<Rightarrow> lanes" where
  "vdupq_n_u8 x = replicate 16 x"

definition vceqq_u8 :: "lanes \<Rightarrow> lanes \<Rightarrow> lanes" where
  "vceqq_u8 xs ys = map2 (\<lambda>x y. if x = y then 0xFF else 0) xs ys"

definition vminvq_u8 :: "lanes \<Rightarrow> 8 word" where
  "vminvq_u8 xs = foldr min xs 0xFF"

definition vmaxvq_u8 :: "lanes \<Rightarrow> 8 word" where
  "vmaxvq_u8 xs = foldr max xs 0"

text \<open>x86 AVX2, 32 lanes of 8 bits.\<close>

definition loadu_si256 :: "string \<Rightarrow> lanes" where
  "loadu_si256 b = map of_char (take 32 b)"

definition setzero_si256 :: lanes where
  "setzero_si256 = replicate 32 0"

definition cmpeq_epi8 :: "lanes \<Rightarrow> lanes \<Rightarrow> lanes" where
  "cmpeq_epi8 xs ys = map2 (\<lambda>x y. if x = y then 0xFF else 0) xs ys"

definition movemask_epi8 :: "lanes \<Rightarrow> 32 word" where
  "movemask_epi8 xs = horner_sum of_bool 2 (map (\<lambda>x. bit x 7) xs)"

text \<open>AArch64 SVE: predicates over \<open>vl\<close> lanes, \<open>vl\<close> being \<open>svcntb()\<close>.\<close>

definition svwhilelt_b8 :: "nat \<Rightarrow> nat \<Rightarrow> nat \<Rightarrow> bool list" where
  "svwhilelt_b8 vl i n = map (\<lambda>k. i + k < n) [0..<vl]"

definition svcmpeq_u8 :: "bool list \<Rightarrow> lanes \<Rightarrow> lanes \<Rightarrow> bool list" where
  "svcmpeq_u8 pg xs ys = map2 (\<lambda>g (x, y). g \<and> x = y) pg (zip xs ys)"

definition svptest_last :: "bool list \<Rightarrow> bool list \<Rightarrow> bool" where
  "svptest_last pg p =
     (let act = filter fst (zip pg p) in act \<noteq> [] \<and> snd (last act))"

definition svptest_any :: "bool list \<Rightarrow> bool list \<Rightarrow> bool" where
  "svptest_any pg p = list_ex (\<lambda>(g, x). g \<and> x) (zip pg p)"

text \<open>
  \<open>svld1_u8\<close> reads the active lanes only; inactive lanes are zero. \<open>None\<close>: an active lane
  lies outside the buffer.
\<close>

definition svld1_u8 :: "bool list \<Rightarrow> string \<Rightarrow> lanes option" where
  "svld1_u8 pg b =
     (if list_all (\<lambda>k. pg ! k \<longrightarrow> k < length b) [0..<length pg]
      then Some (map (\<lambda>k. if pg ! k then of_char (b ! k) else 0) [0..<length pg])
      else None)"

text \<open>RISC-V V: masks over the \<open>vl\<close> lanes that \<open>vsetvl\<close> grants.\<close>

definition vsetvl_e8m8 :: "nat \<Rightarrow> nat \<Rightarrow> nat" where
  "vsetvl_e8m8 vlmax avl = min avl vlmax"

fun vfirst_m_b1 :: "bool list \<Rightarrow> int" where
  "vfirst_m_b1 [] = -1"
| "vfirst_m_b1 (m # ms) =
     (if m then 0 else (let r = vfirst_m_b1 ms in if r = -1 then -1 else r + 1))"

section \<open>The comparison routines\<close>

function simd_strcmp_u128 :: "string \<Rightarrow> string \<Rightarrow> int outcome" where
  "simd_strcmp_u128 a b =
     (if length a < 32 \<or> length b < 32 then Fault OutOfBounds
      else
        let a_val = loadu_si256 a;
            b_val = loadu_si256 b;
            mask = movemask_epi8 (cmpeq_epi8 a_val b_val)
        in if mask \<noteq> 0xFFFFFFFF then Ret 1
           else let null_mask = movemask_epi8 (cmpeq_epi8 a_val setzero_si256)
                in if null_mask \<noteq> 0 then Ret 0
                   else simd_strcmp_u128 (drop 32 a) (drop 32 b))"
  by pat_completeness auto
termination by (relation "measure (\<lambda>(a, b). length a)") auto

function simd_strcmp_arm :: "string \<Rightarrow> string \<Rightarrow> int outcome" where
  "simd_strcmp_arm a b =
     (if length a < 16 \<or> length b < 16 then Fault OutOfBounds
      else
        let a_val = vld1q_u8 a;
            b_val = vld1q_u8 b;
            all_equal = vminvq_u8 (vceqq_u8 a_val b_val)
        in if all_equal \<noteq> 0xFF then Ret 1
           else let has_null = vmaxvq_u8 (vceqq_u8 a_val (vdupq_n_u8 0))
                in if has_null = 0xFF then Ret 0
                   else simd_strcmp_arm (drop 16 a) (drop 16 b))"
  by pat_completeness auto
termination by (relation "measure (\<lambda>(a, b). length a)") auto


lemma svptest_last_active: "svptest_last pg p \<Longrightarrow> True \<in> set pg"
proof -
  let ?act = "filter fst (zip pg p)"
  assume "svptest_last pg p"
  then have "last ?act \<in> set ?act"
    by (intro last_in_set) (simp add: svptest_last_def Let_def)
  then have "last ?act \<in> set (zip pg p) \<and> fst (last ?act)" unfolding set_filter by blast
  then have "(True, snd (last ?act)) \<in> set (zip pg p)" by (metis (full_types) prod.collapse)
  then show ?thesis by (rule set_zip_leftD)
qed

text \<open>The loop of \<open>simd_strcmp_arm_sve\<close>, with \<open>i\<close> its offset.\<close>

function simd_strcmp_arm_sve :: "nat \<Rightarrow> string \<Rightarrow> string \<Rightarrow> nat \<Rightarrow> int outcome" where
  "simd_strcmp_arm_sve vl a b i =
     (let pg = svwhilelt_b8 vl i vl
      in case (svld1_u8 pg (drop i a), svld1_u8 pg (drop i b)) of
           (Some a_val, Some b_val) \<Rightarrow>
             (let cmp = svcmpeq_u8 pg a_val b_val
              in if \<not> svptest_last pg cmp then Ret 1
                 else let null_cmp = svcmpeq_u8 pg a_val (replicate vl 0)
                      in if svptest_any pg null_cmp then Ret 0
                         else simd_strcmp_arm_sve vl a b (i + vl))
         | _ \<Rightarrow> Fault OutOfBounds)"
  by pat_completeness auto
termination
proof (relation "measure (\<lambda>(vl, a, b, i). vl - i)", simp)
  fix vl i :: nat and pg cmp :: "bool list"
  assume pg: "pg = svwhilelt_b8 vl i vl" and last: "\<not> \<not> svptest_last pg cmp"
  from last have "True \<in> set pg" by (simp add: svptest_last_active)
  with pg have "i < vl" by (auto simp: svwhilelt_b8_def)
  then show "((vl, a, b, i + vl), vl, a, b, i) \<in> measure (\<lambda>(vl, a, b, i). vl - i)" for a b
    by simp
qed

text \<open>
  The loop of \<open>simd_strcmp_riscv\<close>; \<open>None\<close> is the loop that never ends. \<open>vl\<close> comes from the
  characters left in \<open>a\<close> alone, so the lanes hold no terminator of \<open>a\<close>.
\<close>

partial_function (option) simd_strcmp_riscv ::
    "nat \<Rightarrow> string \<Rightarrow> string \<Rightarrow> int outcome option" where
  "simd_strcmp_riscv vlmax a b =
     (case buf_strlen a of
        Ret avl \<Rightarrow>
          (let vl = vsetvl_e8m8 vlmax avl
           in if length b < vl then Some (Fault OutOfBounds)
              else
                let cmp = map2 (=) (take vl a) (take vl b);
                    all_equal = (vfirst_m_b1 cmp = -1)
                in if \<not> all_equal then Some (Ret 1)
                   else let null_cmp = map (\<lambda>c. c = NUL) (take vl a);
                            has_null = (vfirst_m_b1 null_cmp \<noteq> -1)
                        in if has_null then Some (Ret 0)
                           else simd_strcmp_riscv vlmax (drop vl a) (drop vl b))
      | _ \<Rightarrow> Some (Fault OutOfBounds))"

text \<open>
  The preprocessor's choice: no vector unit the file knows, AArch64 without and with SVE
  (vector length in bytes), RISC-V V (the greatest \<open>vl\<close>).
\<close>

datatype simd_target = T_Generic | T_Neon | T_Sve nat | T_Riscv nat

definition optimized_strcmp :: "simd_target \<Rightarrow> string \<Rightarrow> string \<Rightarrow> int outcome" where
  "optimized_strcmp tgt a b =
     outcome_bind (buf_strlen a) (\<lambda>la.
       if la < 16 then buf_strcmp a b
       else outcome_bind (buf_strlen b) (\<lambda>lb.
         if lb < 16 then buf_strcmp a b
         else case tgt of
                T_Sve vl \<Rightarrow> simd_strcmp_arm_sve vl a b 0
              | T_Neon \<Rightarrow> simd_strcmp_arm a b
              | T_Riscv vlmax \<Rightarrow>
                  (case simd_strcmp_riscv vlmax a b of None \<Rightarrow> Diverges | Some r \<Rightarrow> r)
              | T_Generic \<Rightarrow> buf_strcmp a b))"

declare simd_strcmp_u128.simps [simp del] simd_strcmp_arm.simps [simp del]
  simd_strcmp_arm_sve.simps [simp del]

section \<open>Lanes\<close>

lemma of_char_byte_eq_iff [simp]: "(of_char c :: 8 word) = of_char d \<longleftrightarrow> c = d"
proof
  assume "(of_char c :: 8 word) = of_char d"
  then have "unat (of_nat (of_char c) :: 8 word) = unat (of_nat (of_char d) :: 8 word)"
    by (simp add: of_nat_of_char)
  then have "(of_char c :: nat) = of_char d"
    by (simp add: unat_of_nat)
  then show "c = d" by simp
qed simp

lemma of_char_byte_eq_0_iff [simp]: "(of_char c :: 8 word) = 0 \<longleftrightarrow> c = NUL"
  using of_char_byte_eq_iff [of c NUL] by (simp add: of_char_def)

lemma map_of_char_byte_eq_iff [simp]:
  "map (of_char :: char \<Rightarrow> 8 word) xs = map of_char ys \<longleftrightarrow> xs = ys"
  by (rule inj_map_eq_map) (simp add: inj_def)

lemma vminvq_vceqq:
  "length xs = length ys \<Longrightarrow> vminvq_u8 (vceqq_u8 xs ys) = (if xs = ys then 0xFF else 0)"
  by (induction xs ys rule: list_induct2) (auto simp: vminvq_u8_def vceqq_u8_def min_def)

lemma vmaxvq_vceqq_zero:
  "vmaxvq_u8 (vceqq_u8 xs (replicate n 0)) = (if 0 \<in> set (take n xs) then 0xFF else 0)"
proof (induction xs arbitrary: n)
  case (Cons x xs)
  then show ?case by (cases n) (auto simp: vmaxvq_u8_def vceqq_u8_def max_def)
qed (simp add: vmaxvq_u8_def vceqq_u8_def)

lemma bit_movemask:
  "length xs = 32 \<Longrightarrow> bit (movemask_epi8 xs) n \<longleftrightarrow> n < 32 \<and> bit (xs ! n) 7"
  by (auto simp: movemask_epi8_def bit_horner_sum_bit_word_iff)

lemma word32_all_bits: "(m :: 32 word) = 0xFFFFFFFF \<longleftrightarrow> (\<forall>n<32. bit m n)"
proof -
  have "(0xFFFFFFFF :: 32 word) = - 1"
    by (rule word_uint_eqI) (simp add: unsigned_minus_1_eq_mask mask_eq_exp_minus_1)
  then show ?thesis by (auto simp: bit_eq_iff)
qed

lemma word32_no_bits: "(m :: 32 word) = 0 \<longleftrightarrow> (\<forall>n<32. \<not> bit m n)"
  by (auto simp: bit_eq_iff)

lemma length_cmpeq [simp]: "length (cmpeq_epi8 xs ys) = min (length xs) (length ys)"
  by (simp add: cmpeq_epi8_def)

lemma bit_cmpeq [simp]:
  "n < length xs \<Longrightarrow> n < length ys \<Longrightarrow> bit (cmpeq_epi8 xs ys ! n) 7 \<longleftrightarrow> xs ! n = ys ! n"
  by (simp add: cmpeq_epi8_def)

lemma movemask_cmpeq:
  assumes "length xs = 32" "length ys = 32"
  shows "movemask_epi8 (cmpeq_epi8 xs ys) = 0xFFFFFFFF \<longleftrightarrow> xs = ys"
proof -
  have "movemask_epi8 (cmpeq_epi8 xs ys) = 0xFFFFFFFF \<longleftrightarrow> (\<forall>n<32. xs ! n = ys ! n)"
    unfolding word32_all_bits using assms by (simp add: bit_movemask)
  then show ?thesis using assms by (simp add: list_eq_iff_nth_eq)
qed

lemma movemask_cmpeq_zero:
  assumes "length xs = 32"
  shows "movemask_epi8 (cmpeq_epi8 xs setzero_si256) = 0 \<longleftrightarrow> 0 \<notin> set xs"
proof -
  have z: "length setzero_si256 = 32" "n < 32 \<Longrightarrow> setzero_si256 ! n = 0" for n
    by (simp_all add: setzero_si256_def)
  have "movemask_epi8 (cmpeq_epi8 xs setzero_si256) = 0 \<longleftrightarrow> (\<forall>n<32. xs ! n \<noteq> 0)"
    unfolding word32_no_bits using assms by (simp add: bit_movemask z)
  then show ?thesis using assms by (auto simp: in_set_conv_nth)
qed

function block_strcmp :: "nat \<Rightarrow> string \<Rightarrow> string \<Rightarrow> int outcome" where
  "block_strcmp w a b =
     (if w = 0 \<or> length a < w \<or> length b < w then Fault OutOfBounds
      else if take w a \<noteq> take w b then Ret 1
      else if NUL \<in> set (take w a) then Ret 0
      else block_strcmp w (drop w a) (drop w b))"
  by pat_completeness auto
termination by (relation "measure (\<lambda>(w, a, b). length a)") auto
declare block_strcmp.simps [simp del]

lemma zero_in_lanes [simp]: "(0::8 word) \<in> of_char ` A \<longleftrightarrow> NUL \<in> A"
  by (force simp: image_iff)

lemma simd_strcmp_arm_block: "simd_strcmp_arm a b = block_strcmp 16 a b"
proof (induction a b rule: simd_strcmp_arm.induct)
  case (1 a b)
  then show ?case
    by (simp add: simd_strcmp_arm.simps [of a b] block_strcmp.simps [of 16 a b] Let_def
        vld1q_u8_def vdupq_n_u8_def vminvq_vceqq vmaxvq_vceqq_zero)
qed

lemma simd_strcmp_u128_block: "simd_strcmp_u128 a b = block_strcmp 32 a b"
proof (induction a b rule: simd_strcmp_u128.induct)
  case (1 a b)
  then show ?case
    by (simp add: simd_strcmp_u128.simps [of a b] block_strcmp.simps [of 32 a b] Let_def
        loadu_si256_def movemask_cmpeq movemask_cmpeq_zero)
qed

lemma block_strcmp_0_sound: "block_strcmp w a b = Ret 0 \<Longrightarrow> cstr a = cstr b"
proof (induction w a b rule: block_strcmp.induct)
  case (1 w a b)
  note step = "1.prems" [unfolded block_strcmp.simps [of w a b]]
  from step have eq: "take w a = take w b" by (auto split: if_splits)
  have a: "cstr a = cstr (take w a @ drop w a)" and b: "cstr b = cstr (take w a @ drop w b)"
    by (simp, simp add: eq)
  have app: "cstr (u @ v) = (if NUL \<in> set u then cstr u else u @ cstr v)" for u v
    by (induction u) auto
  show ?case
  proof (cases "NUL \<in> set (take w a)")
    case True
    then show ?thesis by (simp add: a b app del: append_take_drop_id)
  next
    case False
    with "1" eq step have "cstr (drop w a) = cstr (drop w b)" by (auto split: if_splits)
    then show ?thesis by (simp only: a b app)
  qed
qed

definition block_span :: "nat \<Rightarrow> string \<Rightarrow> nat" where
  "block_span w a = w * (length (cstr a) div w + 1)"

lemma block_strcmp_span:
  assumes "0 < w" "NUL \<in> set a" "block_span w a \<le> length a" "block_span w a \<le> length b"
  shows "block_strcmp w a b =
    Ret (if take (block_span w a) a = take (block_span w a) b then 0 else 1)"
  using assms
proof (induction w a b rule: block_strcmp.induct)
  case (1 w a b)
  have w: "0 < w" "w \<le> length a" "w \<le> length b"
    using "1.prems" by (auto simp: block_span_def intro: le_trans [rotated])
  have app: "length (cstr (u @ v)) = (if NUL \<in> set u then length (cstr u) else length u + length (cstr v))"
    for u v by (induction u) auto
  show ?case
  proof (cases "NUL \<in> set (take w a)")
    case True
    have "length (cstr (take w a)) < length (take w a)"
      using True by (rule cstr_shorter)
    moreover have "length (cstr a) = length (cstr (take w a))"
      using app [of "take w a" "drop w a"] True by simp
    ultimately have "block_span w a = w" using w by (simp add: block_span_def)
    with True w show ?thesis
      by (cases "take w a = take w b") (simp_all add: block_strcmp.simps [of w a b])
  next
    case False
    have len: "length (cstr a) = w + length (cstr (drop w a))"
      using app [of "take w a" "drop w a"] False w by simp
    have span: "block_span w a = w + block_span w (drop w a)"
      using w by (simp add: block_span_def len algebra_simps div_add_self1)
    have split: "take (w + k) x = take w x @ take k (drop w x)" for k and x :: string
      by (rule take_add)
    have "NUL \<in> set (drop w a)"
      using False "1.prems"(2) by (metis Un_iff append_take_drop_id set_append)
    then have "take w a = take w b \<Longrightarrow> block_strcmp w (drop w a) (drop w b) =
      Ret (if take (block_span w (drop w a)) (drop w a)
              = take (block_span w (drop w a)) (drop w b) then 0 else 1)"
      using "1.IH" "1.prems" w False span by auto
    with w False show ?thesis
      by (auto simp: block_strcmp.simps [of w a b] span split)
  qed
qed

section \<open>The routines at large\<close>

lemma vfirst_eq_minus_1_iff: "vfirst_m_b1 ms = -1 \<longleftrightarrow> True \<notin> set ms"
proof -
  have "vfirst_m_b1 ms \<ge> -1 \<and> (vfirst_m_b1 ms = -1 \<longleftrightarrow> True \<notin> set ms)"
    by (induction ms) (auto simp: Let_def)
  then show ?thesis ..
qed

lemma take_cstr: "k \<le> length (cstr a) \<Longrightarrow> take k a = take k (cstr a)"
proof (induction a arbitrary: k)
  case (Cons c a)
  then show ?case by (cases k) (auto split: if_splits)
qed simp

lemma riscv_no_null:
  assumes "buf_strlen a = Ret n" "k \<le> n"
  shows "NUL \<notin> set (take k a)"
proof -
  have "take k a = take k (cstr a)"
    using assms by (intro take_cstr) (auto simp: buf_strlen_def split: if_splits)
  then show ?thesis using cstr_no_nul set_take_subset by (metis subsetD)
qed

lemma simd_strcmp_riscv_never_0:
  assumes "simd_strcmp_riscv vlmax a b = Some r"
  shows "r \<noteq> Ret 0"
proof (rule simd_strcmp_riscv.raw_induct [where P = "\<lambda>vlmax a b r. r \<noteq> Ret 0", OF _ assms])
  fix f :: "nat \<Rightarrow> string \<Rightarrow> string \<Rightarrow> int outcome option" and vlmax a b r
  assume IH: "\<And>vlmax a b r. f vlmax a b = Some r \<Longrightarrow> r \<noteq> Ret 0"
  assume eq: "(case buf_strlen a of
        Ret avl \<Rightarrow>
          (let vl = vsetvl_e8m8 vlmax avl
           in if length b < vl then Some (Fault OutOfBounds)
              else
                let cmp = map2 (=) (take vl a) (take vl b);
                    all_equal = (vfirst_m_b1 cmp = -1)
                in if \<not> all_equal then Some (Ret 1)
                   else let null_cmp = map (\<lambda>c. c = NUL) (take vl a);
                            has_null = (vfirst_m_b1 null_cmp \<noteq> -1)
                        in if has_null then Some (Ret 0)
                           else f vlmax (drop vl a) (drop vl b))
      | _ \<Rightarrow> Some (Fault OutOfBounds)) = Some r"
  show "r \<noteq> Ret 0"
  proof (cases "buf_strlen a")
    case (Ret n)
    have "NUL \<notin> set (take (vsetvl_e8m8 vlmax n) a)"
      using Ret by (rule riscv_no_null) (simp add: vsetvl_e8m8_def)
    with eq Ret show ?thesis
      by (auto simp: Let_def vfirst_eq_minus_1_iff image_iff split: if_splits dest: IH)
  qed (use eq in auto)
qed

lemma svwhilelt_first [simp]: "svwhilelt_b8 vl 0 vl = replicate vl True"
  by (simp add: svwhilelt_b8_def list_eq_iff_nth_eq)

lemma svwhilelt_second [simp]: "svwhilelt_b8 vl vl vl = replicate vl False"
  by (simp add: svwhilelt_b8_def list_eq_iff_nth_eq)

lemma svld1_all [simp]:
  "vl \<le> length b \<Longrightarrow> svld1_u8 (replicate vl True) b = Some (map of_char (take vl b))"
  by (auto simp: svld1_u8_def list_all_iff list_eq_iff_nth_eq)

lemma svld1_none [simp]: "svld1_u8 (replicate vl False) b = Some (replicate vl 0)"
  by (auto simp: svld1_u8_def list_all_iff list_eq_iff_nth_eq)

lemma svcmpeq_all [simp]:
  "length xs = vl \<Longrightarrow> length ys = vl \<Longrightarrow>
    svcmpeq_u8 (replicate vl True) xs ys = map2 (=) xs ys"
  by (auto simp: svcmpeq_u8_def list_eq_iff_nth_eq)

lemma zip_replicate_True: "zip (replicate (length p) True) p = map (Pair True) p"
  by (induction p) auto

lemma svptest_last_all [simp]:
  assumes "length p = vl" "0 < vl"
  shows "svptest_last (replicate vl True) p = last p"
proof -
  have "filter fst (zip (replicate (length p) True) p) = map (Pair True) p"
    unfolding zip_replicate_True by (induction p) auto
  with assms show ?thesis by (auto simp: svptest_last_def Let_def last_map)
qed

lemma svptest_last_none [simp]: "\<not> svptest_last (replicate vl False) p"
  using svptest_last_active [of "replicate vl False" p] by auto

lemma svptest_any_all [simp]:
  assumes "length p = vl"
  shows "svptest_any (replicate vl True) p \<longleftrightarrow> True \<in> set p"
proof -
  have "zip (replicate vl True) p = map (Pair True) p"
    using zip_replicate_True [of p] assms by simp
  then show ?thesis by (auto simp: svptest_any_def list_ex_iff)
qed

lemma lanes_null:
  "map2 (=) (map (of_char :: char \<Rightarrow> 8 word) xs) (replicate (length xs) 0)
    = map (\<lambda>c. c = NUL) xs"
  by (induction xs) auto

lemma simd_strcmp_arm_sve_first:
  assumes "0 < vl" "vl \<le> length a" "vl \<le> length b"
  shows "simd_strcmp_arm_sve vl a b 0 =
    Ret (if a ! (vl - 1) = b ! (vl - 1) \<and> NUL \<in> set (take vl a) then 0 else 1)"
proof -
  have second: "simd_strcmp_arm_sve vl a b vl = Ret 1"
    by (simp add: simd_strcmp_arm_sve.simps [of vl a b vl])
  have "last (map2 (=) (map (of_char :: char \<Rightarrow> 8 word) (take vl a)) (map of_char (take vl b)))
      \<longleftrightarrow> a ! (vl - 1) = b ! (vl - 1)"
    using assms by (subst last_conv_nth) (auto simp: take_eq_Nil)
  moreover have "True \<in> set (map2 (=) (map (of_char :: char \<Rightarrow> 8 word) (take vl a)) (replicate vl 0))
      \<longleftrightarrow> NUL \<in> set (take vl a)"
    using assms lanes_null [of "take vl a"] by auto
  ultimately show ?thesis
    using assms second by (auto simp: simd_strcmp_arm_sve.simps [of vl a b 0] Let_def)
qed

section \<open>Properties\<close>

text \<open>
  C34. In a build without a vector unit the file knows, \<open>optimized_strcmp\<close> returns on any two
  terminated strings, and it returns 0 exactly when they are the same C string, short or long.
\<close>

theorem optimized_strcmp_generic_correct:
  assumes "NUL \<in> set a" "NUL \<in> set b"
  shows "(\<exists>r. optimized_strcmp T_Generic a b = Ret r) \<and>
    (optimized_strcmp T_Generic a b = Ret 0 \<longleftrightarrow> cstr a = cstr b)"
  using assms buf_strcmp_eq_0_iff [of a b] buf_strcmp_returns [of a b]
  by (auto simp: optimized_strcmp_def buf_strlen_def)

theorem optimized_strcmp_generic_correct_witness:
  "optimized_strcmp T_Generic (''tick'' @ [NUL]) (''tick'' @ [NUL]) = Ret 0"
  using optimized_strcmp_generic_correct [of "''tick'' @ [NUL]" "''tick'' @ [NUL]"] by simp

text \<open>
  The NEON and the AVX2 routine compare whole vectors: they return 0 exactly when the two
  buffers agree on every byte up to the end of the vector that holds the terminator of the first
  one, padding included. So a 0 means equal strings, but equal strings whose padding differs are
  reported as different.
\<close>

theorem simd_strcmp_compares_padding:
  assumes "NUL \<in> set a" "block_span 32 a \<le> length a" "block_span 32 a \<le> length b"
  shows "simd_strcmp_arm a b =
           Ret (if take (block_span 16 a) a = take (block_span 16 a) b then 0 else 1)
    \<and> simd_strcmp_u128 a b =
           Ret (if take (block_span 32 a) a = take (block_span 32 a) b then 0 else 1)
    \<and> (simd_strcmp_arm a b = Ret 0 \<longrightarrow> cstr a = cstr b)
    \<and> (simd_strcmp_u128 a b = Ret 0 \<longrightarrow> cstr a = cstr b)"
proof -
  have "length (cstr a) div 16 \<le> 2 * (length (cstr a) div 32) + 1" by linarith
  then have "block_span 16 a \<le> block_span 32 a" by (simp add: block_span_def algebra_simps)
  with assms have le: "block_span 16 a \<le> length a" "block_span 16 a \<le> length b" by auto
  show ?thesis
    unfolding simd_strcmp_arm_block simd_strcmp_u128_block
    by (intro conjI impI block_strcmp_span assms le zero_less_numeral)
      (erule block_strcmp_0_sound)+
qed

theorem simd_strcmp_compares_padding_witness:
  "simd_strcmp_arm (replicate 20 CHR ''e'' @ replicate 12 NUL)
                   (replicate 20 CHR ''e'' @ NUL # replicate 11 CHR ''x'') = Ret 1
   \<and> cstr (replicate 20 CHR ''e'' @ replicate 12 NUL)
     = cstr (replicate 20 CHR ''e'' @ NUL # replicate 11 CHR ''x'')"
proof -
  let ?a = "replicate 20 CHR ''e'' @ replicate 12 NUL"
    and ?b = "replicate 20 CHR ''e'' @ NUL # replicate 11 CHR ''x''"
  have h: "NUL \<in> set ?a" "block_span 32 ?a \<le> length ?a" "block_span 32 ?a \<le> length ?b"
    by code_simp+
  have ne: "take (block_span 16 ?a) ?a \<noteq> take (block_span 16 ?a) ?b" by code_simp
  have "cstr ?a = cstr ?b" by code_simp
  with simd_strcmp_compares_padding [OF h] ne show ?thesis by (simp only: if_False simp_thms)
qed

text \<open>
  On AArch64 with SVE, two strings of at least one vector length are always reported as
  different, the same string included, because the second round runs with no active lane; and when
  the first one ends inside the first vector only the last lane decides. On RISC-V no call ever
  reports equality.
\<close>

theorem simd_strcmp_sve_riscv_results:
  assumes "0 < vl" "vl \<le> length a" "vl \<le> length b"
  shows "simd_strcmp_arm_sve vl a b 0 =
           Ret (if NUL \<in> set (take vl a) \<and> a ! (vl - 1) = b ! (vl - 1) then 0 else 1)
    \<and> simd_strcmp_riscv vlmax a b \<noteq> Some (Ret 0)"
  using simd_strcmp_arm_sve_first [OF assms] simd_strcmp_riscv_never_0 [of vlmax a b] by auto

theorem simd_strcmp_sve_riscv_results_witness:
  "simd_strcmp_arm_sve 16 (replicate 16 CHR ''e'' @ [NUL]) (replicate 16 CHR ''e'' @ [NUL]) 0
     = Ret 1
   \<and> simd_strcmp_arm_sve 32 (replicate 16 CHR ''a'' @ replicate 16 NUL)
       (replicate 16 CHR ''b'' @ replicate 16 NUL) 0 = Ret 0"
proof -
  let ?e = "replicate 16 CHR ''e'' @ [NUL]"
    and ?a = "replicate 16 CHR ''a'' @ replicate 16 NUL"
    and ?b = "replicate 16 CHR ''b'' @ replicate 16 NUL"
  have "(0::nat) < 16" "16 \<le> length ?e" "(0::nat) < 32" "32 \<le> length ?a" "32 \<le> length ?b"
    by code_simp+
  note r = simd_strcmp_sve_riscv_results [OF this(1,2,2)]
    simd_strcmp_sve_riscv_results [OF this(3,4,5)]
  have "NUL \<notin> set (take 16 ?e)" "NUL \<in> set (take 32 ?a)" "?a ! (32 - 1) = ?b ! (32 - 1)"
    by code_simp+
  with r show ?thesis by (simp only: if_False if_True simp_thms)
qed

end
