(* ===== verification/Dispatcher.thy ===== *)
theory Dispatcher
  imports CorePrelude
begin

text \<open>
  src/gateway/gateway_dispatcher.c and \<open>gateway_msg_send\<close> of src/gateway/gateway.c: the arena in
  which the components' messages for the connected gateway are collected, and the thread that
  hands it over every \<open>FLUSH_INTERVAL_MS\<close>.

  \<open>gw\<close> holds the file-scope variables of the two files. \<open>arena_d_instance\<close> is the block of
  \<open>MAX_TOTAL_SIZE\<close> bytes as a function of the index; a pointer to a function of the gateway
  library is the fact that it is not NULL. \<open>gw_trace\<close> records the calls into the library, oldest
  first. \<open>malloc_ok\<close> says whether the call's \<open>malloc\<close> succeeds.
\<close>

section \<open>State\<close>

datatype gw_event = Gw_init | Gw_start | Gw_stop | Gw_close | Gw_on_data string

record gw =
  arena_d_instance :: "(nat \<Rightarrow> char) option"
  current_offset :: nat
  dispatcher_running :: bool
  gateway_on_data_cb :: bool
  g_gateway_connected_flag :: bool
  gateway_is_alive :: bool
  init_fn :: bool
  start_fn :: bool
  stop_fn :: bool
  on_data_fn :: bool
  close_fn :: bool
  gw_trace :: "gw_event list"

definition gw_initial :: gw where
  "gw_initial =
     \<lparr> arena_d_instance = None, current_offset = 0, dispatcher_running = False,
       gateway_on_data_cb = False, g_gateway_connected_flag = False, gateway_is_alive = False,
       init_fn = False, start_fn = False, stop_fn = False, on_data_fn = False,
       close_fn = False, gw_trace = [] \<rparr>"

datatype api_type = EVENT_BUS_API | SCHEDULER_API | HK_API | PM_API | CRASH_API

definition MSG_SIZE :: nat where "MSG_SIZE = 1024"
definition MAX_MSG_COUNT :: nat where "MAX_MSG_COUNT = 64"
definition MAX_TOTAL_SIZE :: nat where "MAX_TOTAL_SIZE = MSG_SIZE * MAX_MSG_COUNT"
definition GATEWAY_DTLS_MSG_LEN :: nat where "GATEWAY_DTLS_MSG_LEN = 512"

lemma MAX_TOTAL_SIZE_val: "MAX_TOTAL_SIZE = 65536"
  by (simp add: MAX_TOTAL_SIZE_def MSG_SIZE_def MAX_MSG_COUNT_def)

section \<open>Operations\<close>

definition gw_call :: "gw_event \<Rightarrow> gw \<Rightarrow> gw" where
  "gw_call e s = s\<lparr>gw_trace := gw_trace s @ [e]\<rparr>"

text \<open>\<open>memcpy(arena + off, m, length m)\<close>.\<close>

definition arena_write :: "(nat \<Rightarrow> char) \<Rightarrow> nat \<Rightarrow> string \<Rightarrow> (nat \<Rightarrow> char)" where
  "arena_write a off m = (\<lambda>i. if off \<le> i \<and> i < off + length m then m ! (i - off) else a i)"

definition gateway_dispatcher_init :: "bool \<Rightarrow> gw \<Rightarrow> gw" where
  "gateway_dispatcher_init malloc_ok s =
     s\<lparr>arena_d_instance := (if malloc_ok then Some (\<lambda>_. NUL) else None),
       current_offset := 0,
       gateway_on_data_cb := on_data_fn s,
       dispatcher_running := True\<rparr>"

text \<open>The argument is the \<open>msg_len\<close> bytes at \<open>msg\<close>, or \<open>None\<close> for a NULL \<open>msg\<close>.\<close>

definition gateway_d_msg_add :: "string option \<Rightarrow> gw \<Rightarrow> gw" where
  "gateway_d_msg_add msg s =
     (case (arena_d_instance s, msg) of
        (Some arena, Some m) \<Rightarrow>
          if m = [] then s
          else if current_offset s + length m + 1 \<ge> MAX_TOTAL_SIZE then s
          else
            let arena1 = arena_write arena (current_offset s) m;
                off1 = current_offset s + length m;
                arena2 = arena1(off1 := NL)
            in s\<lparr>arena_d_instance := Some arena2, current_offset := off1 + 1\<rparr>
      | _ \<Rightarrow> s)"

definition gateway_d_flush :: "gw \<Rightarrow> gw outcome" where
  "gateway_d_flush s =
     (case arena_d_instance s of
        None \<Rightarrow> Ret s
      | Some arena \<Rightarrow>
          if current_offset s = 0 then Ret s
          else if \<not> gateway_on_data_cb s then Fault NullDeref
          else
            let msg_buf = map arena [0..<current_offset s];
                s1 = gw_call (Gw_on_data msg_buf) s
            in Ret (s1\<lparr>current_offset := 0\<rparr>))"

text \<open>One round of the thread, after its \<open>usleep\<close>.\<close>

definition dispatcher_round :: "gw \<Rightarrow> gw outcome" where
  "dispatcher_round s =
     (let has_data = (current_offset s > 0) in if has_data then gateway_d_flush s else Ret s)"

text \<open>
  \<open>gateway_dispatcher_close\<close> joins the thread: if that was in its \<open>usleep\<close> (\<open>asleep\<close>) it makes one
  more round before it sees the cleared flag.
\<close>

definition gateway_dispatcher_close :: "bool \<Rightarrow> gw \<Rightarrow> gw outcome" where
  "gateway_dispatcher_close asleep s =
     outcome_bind
       (if asleep then dispatcher_round (s\<lparr>dispatcher_running := False\<rparr>)
        else Ret (s\<lparr>dispatcher_running := False\<rparr>))
       (\<lambda>s1. Ret (s1\<lparr>arena_d_instance := None, current_offset := 0,
                     gateway_on_data_cb := False\<rparr>))"

definition api_name :: "api_type \<Rightarrow> string" where
  "api_name t =
     (case t of
        EVENT_BUS_API \<Rightarrow> ''event_bus''
      | SCHEDULER_API \<Rightarrow> ''scheduler''
      | HK_API \<Rightarrow> ''hk''
      | PM_API \<Rightarrow> ''pm''
      | CRASH_API \<Rightarrow> ''crash'')"

definition safe_buf :: "api_type \<Rightarrow> string \<Rightarrow> string" where
  "safe_buf t linestr =
     snprintf 1024 (''[on_data] ['' @ api_name t @ '']'' @ [NL] @ linestr @ [NL])"

text \<open>\<open>gateway_msg_send\<close> always returns 0, which no caller looks at.\<close>

definition gateway_msg_send :: "api_type \<Rightarrow> string \<Rightarrow> gw \<Rightarrow> gw" where
  "gateway_msg_send t linestr s = gateway_d_msg_add (Some (safe_buf t linestr)) s"

text \<open>The guard around every message of a component.\<close>

definition gateway_report :: "api_type \<Rightarrow> string \<Rightarrow> gw \<Rightarrow> gw" where
  "gateway_report t text s =
     (if g_gateway_connected_flag s
      then gateway_msg_send t (snprintf GATEWAY_DTLS_MSG_LEN text) s else s)"

section \<open>Invariant and abstraction\<close>

definition gw_inv :: "gw \<Rightarrow> bool" where
  "gw_inv s \<longleftrightarrow>
     current_offset s < MAX_TOTAL_SIZE
   \<and> (arena_d_instance s = None \<longrightarrow> current_offset s = 0)
   \<and> (arena_d_instance s \<noteq> None \<longrightarrow> gateway_on_data_cb s)"

definition pending :: "gw \<Rightarrow> string" where
  "pending s =
     (case arena_d_instance s of
        None \<Rightarrow> [] | Some arena \<Rightarrow> map arena [0..<current_offset s])"

fun event_data :: "gw_event \<Rightarrow> string" where
  "event_data (Gw_on_data m) = m"
| "event_data _ = []"

definition delivered :: "gw \<Rightarrow> string" where
  "delivered s = concat (map event_data (gw_trace s))"

definition accepts :: "string \<Rightarrow> gw \<Rightarrow> bool" where
  "accepts m s \<longleftrightarrow>
     arena_d_instance s \<noteq> None \<and> m \<noteq> []
   \<and> length (pending s) + length m + 1 < MAX_TOTAL_SIZE"

lemma gw_inv_initial: "gw_inv gw_initial"
  by (simp add: gw_inv_def gw_initial_def MAX_TOTAL_SIZE_val)

lemma length_pending: "gw_inv s \<Longrightarrow> length (pending s) = current_offset s"
  by (auto simp: pending_def gw_inv_def split: option.splits)

lemma map_arena_write:
  "map (arena_write a off m) [0..<off + length m] = map a [0..<off] @ m"
  by (rule nth_equalityI) (auto simp: arena_write_def nth_append)

lemma pending_msg_add:
  assumes "gw_inv s"
  shows "pending (gateway_d_msg_add (Some m) s) =
    (if accepts m s then pending s @ m @ [NL] else pending s)"
proof (cases "arena_d_instance s")
  case (Some arena)
  let ?off = "current_offset s"
  have "map ((arena_write arena ?off m)(?off + length m := NL)) [0..<?off + length m]
      = map (arena_write arena ?off m) [0..<?off + length m]"
    by simp
  then show ?thesis
    using Some length_pending [OF assms] map_arena_write [of arena ?off m]
    by (auto simp: gateway_d_msg_add_def pending_def accepts_def Let_def)
qed (simp add: gateway_d_msg_add_def pending_def accepts_def)

lemma gw_inv_msg_add [inv_intros]: "gw_inv s \<Longrightarrow> gw_inv (gateway_d_msg_add msg s)"
  by (auto simp: gateway_d_msg_add_def gw_inv_def Let_def split: option.splits)

lemma gw_inv_msg_send [inv_intros]: "gw_inv s \<Longrightarrow> gw_inv (gateway_msg_send t l s)"
  by (simp add: gateway_msg_send_def inv_intros)

lemma gw_inv_report [inv_intros]: "gw_inv s \<Longrightarrow> gw_inv (gateway_report t l s)"
  by (simp add: gateway_report_def inv_intros)

lemma delivered_msg_add [simp]: "delivered (gateway_d_msg_add msg s) = delivered s"
  by (auto simp: gateway_d_msg_add_def delivered_def Let_def split: option.splits)


lemma flush_ok:
  assumes "gw_inv s"
  shows "\<exists>s'. dispatcher_round s = Ret s' \<and> gw_inv s'
    \<and> delivered s' = delivered s @ pending s \<and> pending s' = []"
proof (cases "arena_d_instance s")
  case None
  with assms show ?thesis
    by (simp add: dispatcher_round_def Let_def pending_def gw_inv_def)
next
  case (Some arena)
  with assms show ?thesis
    by (auto simp: dispatcher_round_def gateway_d_flush_def gw_call_def Let_def pending_def
        gw_inv_def delivered_def)
qed

section \<open>Channels that collect messages and hand them over\<close>

text \<open>
  The contract a component relies on when it reports through the gateway: what is sent is either
  refused or appended, and a round hands over everything that is queued, in order.
\<close>

fun run_channel ::
    "('m \<Rightarrow> 's \<Rightarrow> 's) \<Rightarrow> ('s \<Rightarrow> 's outcome) \<Rightarrow> 'm option list \<Rightarrow> 's \<Rightarrow> 's outcome" where
  "run_channel send drain [] s = Ret s"
| "run_channel send drain (Some m # ops) s = run_channel send drain ops (send m s)"
| "run_channel send drain (None # ops) s =
     outcome_bind (drain s) (run_channel send drain ops)"

fun accepted_by ::
    "('m \<Rightarrow> 's \<Rightarrow> 's) \<Rightarrow> ('s \<Rightarrow> 's outcome) \<Rightarrow> ('m \<Rightarrow> 's \<Rightarrow> bool) \<Rightarrow> 'm option list \<Rightarrow> 's \<Rightarrow> 'm list"
where
  "accepted_by send drain ok [] s = []"
| "accepted_by send drain ok (Some m # ops) s =
     (if ok m s then [m] else []) @ accepted_by send drain ok ops (send m s)"
| "accepted_by send drain ok (None # ops) s =
     (case drain s of Ret s' \<Rightarrow> accepted_by send drain ok ops s' | _ \<Rightarrow> [])"

locale message_channel =
  fixes send :: "'m \<Rightarrow> 's \<Rightarrow> 's"
    and drain :: "'s \<Rightarrow> 's outcome"
    and ok :: "'m \<Rightarrow> 's \<Rightarrow> bool"
    and enc :: "'m \<Rightarrow> string"
    and queued :: "'s \<Rightarrow> string"
    and handed :: "'s \<Rightarrow> string"
    and inv :: "'s \<Rightarrow> bool"
  assumes send_inv: "inv s \<Longrightarrow> inv (send m s)"
    and send_queued: "inv s \<Longrightarrow> queued (send m s) = queued s @ (if ok m s then enc m else [])"
    and send_handed: "handed (send m s) = handed s"
    and drain_all: "inv s \<Longrightarrow> \<exists>s'. drain s = Ret s' \<and> inv s'
          \<and> handed s' = handed s @ queued s \<and> queued s' = []"
begin

lemma nothing_lost:
  assumes "inv s"
  shows "\<exists>s'. run_channel send drain ops s = Ret s' \<and> inv s' \<and>
    handed s' @ queued s' =
      handed s @ queued s @ concat (map enc (accepted_by send drain ok ops s))"
  using assms
proof (induction ops arbitrary: s)
  case (Cons x ops)
  show ?case
  proof (cases x)
    case None
    from drain_all [OF Cons.prems] obtain s1 where
      "drain s = Ret s1" "inv s1" "handed s1 = handed s @ queued s" "queued s1 = []" by blast
    with Cons.IH [of s1] None show ?thesis by fastforce
  next
    case (Some m)
    have "inv (send m s)" using Cons.prems by (rule send_inv)
    with Cons.IH [of "send m s"] Some show ?thesis
      using send_queued [OF Cons.prems, of m] send_handed [of m s] by fastforce
  qed
qed simp

end

definition send_text :: "api_type \<times> string \<Rightarrow> gw \<Rightarrow> gw" where
  "send_text = (\<lambda>(t, l). gateway_msg_send t l)"

definition text_line :: "api_type \<times> string \<Rightarrow> string" where
  "text_line = (\<lambda>(t, l). safe_buf t l @ [NL])"

definition takes_text :: "api_type \<times> string \<Rightarrow> gw \<Rightarrow> bool" where
  "takes_text = (\<lambda>(t, l). accepts (safe_buf t l))"

interpretation arena: message_channel send_text dispatcher_round takes_text text_line
  pending delivered gw_inv
proof (unfold_locales, goal_cases)
  case (1 s m)
  then show ?case by (simp add: send_text_def inv_intros split: prod.splits)
next
  case (2 s m)
  then show ?case
    by (simp add: send_text_def takes_text_def text_line_def gateway_msg_send_def
        pending_msg_add split: prod.splits)
next
  case (3 m s)
  then show ?case by (simp add: send_text_def gateway_msg_send_def split: prod.splits)
next
  case (4 s)
  then show ?case by (rule flush_ok)
qed

section \<open>Capacity\<close>

lemma length_safe_buf: "length (safe_buf t l) \<le> 1023"
  using length_snprintf_le [of 1024] by (simp add: safe_buf_def)

lemma safe_buf_not_Nil [simp]: "safe_buf t l \<noteq> []"
  by (simp add: safe_buf_def snprintf_def)

lemma safe_buf_no_nul [simp]: "NUL \<notin> set (safe_buf t l)"
  by (simp add: safe_buf_def)

lemma arena_msg_send [simp]:
  "(arena_d_instance (gateway_msg_send t l s) = None) = (arena_d_instance s = None)"
  by (auto simp: gateway_msg_send_def gateway_d_msg_add_def Let_def split: option.splits)

lemma send_appends:
  assumes "gw_inv s" "arena_d_instance s \<noteq> None" "length (pending s) + 1024 < MAX_TOTAL_SIZE"
  shows "pending (gateway_msg_send t l s) = pending s @ safe_buf t l @ [NL]"
  using assms length_safe_buf [of t l]
  by (simp add: gateway_msg_send_def pending_msg_add accepts_def)

lemma send_all_appends:
  assumes "gw_inv s" "arena_d_instance s \<noteq> None"
    and "length (pending s) + 1024 * length ls < MAX_TOTAL_SIZE"
  shows "pending (fold (gateway_msg_send t) ls s)
    = pending s @ concat (map (\<lambda>l. safe_buf t l @ [NL]) ls)
    \<and> gw_inv (fold (gateway_msg_send t) ls s)
    \<and> arena_d_instance (fold (gateway_msg_send t) ls s) \<noteq> None"
  using assms
proof (induction ls arbitrary: s)
  case (Cons l ls)
  have p: "pending (gateway_msg_send t l s) = pending s @ safe_buf t l @ [NL]"
    using Cons.prems by (intro send_appends) auto
  then have "length (pending (gateway_msg_send t l s)) \<le> length (pending s) + 1024"
    using length_safe_buf [of t l] by simp
  then have "length (pending (gateway_msg_send t l s)) + 1024 * length ls < MAX_TOTAL_SIZE"
    using Cons.prems(3) by simp
  with Cons.IH [of "gateway_msg_send t l s"] Cons.prems p show ?case
    by (simp add: inv_intros)
qed simp

section \<open>Properties\<close>

text \<open>
  C9. Whatever is sent and however the dispatcher thread runs in between, no call faults, and what
  the gateway library has received followed by what waits in the arena is exactly the sequence of
  the accepted messages, each followed by a newline: nothing is lost, repeated or reordered.
\<close>

theorem dispatcher_conserves_messages:
  assumes "gw_inv s"
  shows "\<exists>s'. run_channel send_text dispatcher_round ops s = Ret s' \<and> gw_inv s' \<and>
    delivered s' @ pending s' = delivered s @ pending s
      @ concat (map text_line (accepted_by send_text dispatcher_round takes_text ops s))"
  using assms by (rule arena.nothing_lost)

theorem dispatcher_conserves_messages_witness:
  "\<exists>s'. run_channel send_text dispatcher_round [Some (HK_API, ''x''), None]
      (gateway_dispatcher_init True (gw_initial\<lparr>on_data_fn := True\<rparr>)) = Ret s'
     \<and> delivered s' @ pending s' = ''[on_data] [hk]'' @ [NL] @ ''x'' @ [NL, NL]"
proof -
  let ?s = "gateway_dispatcher_init True (gw_initial\<lparr>on_data_fn := True\<rparr>)"
  have inv: "gw_inv ?s"
    by (simp add: gateway_dispatcher_init_def gw_inv_def MAX_TOTAL_SIZE_val gw_initial_def)
  have empty: "pending ?s = []" "delivered ?s = []" "arena_d_instance ?s \<noteq> None"
    by (simp_all add: gateway_dispatcher_init_def gw_initial_def pending_def delivered_def)
  have line: "safe_buf HK_API ''x'' = ''[on_data] [hk]'' @ [NL] @ ''x'' @ [NL]"
    by (simp add: safe_buf_def api_name_def)
  have acc: "accepted_by send_text dispatcher_round takes_text [Some (HK_API, ''x''), None] ?s
      = [(HK_API, ''x'')]"
    using empty line flush_ok [OF gw_inv_msg_send [OF inv, of HK_API "''x''"]]
    by (auto simp: takes_text_def accepts_def send_text_def MAX_TOTAL_SIZE_val)
  show ?thesis
    using dispatcher_conserves_messages [OF inv, of "[Some (HK_API, ''x''), None]"]
    unfolding acc by (auto simp: empty text_line_def line)
qed

text \<open>
  Between two flushes the arena takes any 63 messages, but not \<open>MAX_MSG_COUNT\<close> = 64 of full
  length: the 64th is dropped, because its newline would be the arena's last byte.
\<close>

theorem arena_capacity:
  assumes "gw_inv s" "arena_d_instance s \<noteq> None" "current_offset s = 0" "length ls = 63"
  shows "pending (fold (gateway_msg_send t) ls s) = concat (map (\<lambda>l. safe_buf t l @ [NL]) ls)
    \<and> ((\<forall>l\<in>set (l' # ls). length (safe_buf t l) = 1023) \<longrightarrow>
        pending (gateway_msg_send t l' (fold (gateway_msg_send t) ls s))
          = pending (fold (gateway_msg_send t) ls s))"
proof -
  let ?s = "fold (gateway_msg_send t) ls s"
  have p0: "pending s = []" using assms by (auto simp: pending_def split: option.splits)
  have all: "pending ?s = concat (map (\<lambda>l. safe_buf t l @ [NL]) ls)" "gw_inv ?s"
    using send_all_appends [of s ls t] assms p0 by (simp_all add: MAX_TOTAL_SIZE_val)
  have len: "\<forall>l\<in>set xs. length (safe_buf t l) = 1023 \<Longrightarrow>
      length (concat (map (\<lambda>l. safe_buf t l @ [NL]) xs)) = 1024 * length xs" for xs
    by (induction xs) auto
  show ?thesis
    using all len [of ls] assms(4)
    by (auto simp: gateway_msg_send_def pending_msg_add accepts_def MAX_TOTAL_SIZE_val)
qed

theorem arena_capacity_witness:
  "pending (fold (gateway_msg_send PM_API) (replicate 63 ''m'')
      (gateway_dispatcher_init True (gw_initial\<lparr>on_data_fn := True\<rparr>)))
    = concat (map (\<lambda>l. safe_buf PM_API l @ [NL]) (replicate 63 ''m''))"
proof -
  let ?s = "gateway_dispatcher_init True (gw_initial\<lparr>on_data_fn := True\<rparr>)"
  have "gw_inv ?s" "arena_d_instance ?s \<noteq> None" "current_offset ?s = 0"
    by (simp_all add: gateway_dispatcher_init_def gw_inv_def MAX_TOTAL_SIZE_val gw_initial_def)
  from arena_capacity [OF this, of "replicate 63 ''m''"] show ?thesis by simp
qed

end
