(* ===== verification/CrashLog.thy ===== *)
theory CrashLog
  imports Dispatcher
begin

unbundle bit_operations_syntax

text \<open>
  src/core/log.c: the log levels and where a record of each goes, and the queue of critical
  errors, which crashed callbacks fill (\<open>add_event_bus_critical_error\<close>,
  \<open>add_scheduler_critical_error\<close>) and a thread empties into a file
  (\<open>critical_error_consumer_thread\<close>).

  The queue has 63 slots and a 32-bit bitmap of the slots in use, tested with \<open>1U << i\<close>. For
  \<open>i\<close> of 32 and more the C standard leaves that shift undefined, and the processors the program
  supports shift by \<open>i mod 32\<close>; the meaning is an argument (\<open>shift_sem\<close>), and both are covered.
  The clock's text \<open>ts\<close>, the plugin's name and the outcome of \<open>strdup\<close> are arguments too.
\<close>

section \<open>Log records\<close>

definition DEBUG :: nat where "DEBUG = 0"
definition INFO :: nat where "INFO = 1"
definition WARN :: nat where "WARN = 2"
definition ERROR :: nat where "ERROR = 3"

lemmas log_levels = DEBUG_def INFO_def WARN_def ERROR_def

abbreviation ESC :: char where "ESC \<equiv> CHR 0x1B"

definition colored :: "string \<Rightarrow> string \<Rightarrow> string" where
  "colored code text = [ESC] @ ''['' @ code @ ''m'' @ text @ [ESC] @ ''[0m''"

definition DEFAULT_TEXT :: string where "DEFAULT_TEXT = colored ''37;104'' ''  LOG    ''"
definition CORE_TEXT :: string where "CORE_TEXT = colored ''1;97;44'' ''   CORE   ''"

definition LEVEL_TAGS :: "string list" where
  "LEVEL_TAGS =
     [colored ''1;97;45'' ''  DEBUG  '', colored ''1;97;42'' ''  INFO   '',
      colored ''1;97;43'' ''  WARN   '', colored ''1;97;41'' ''  ERROR  '', DEFAULT_TEXT]"

text \<open>\<open>level\<close> is a \<open>size_t\<close> and may be anything.\<close>

definition log_tag :: "nat \<Rightarrow> string" where
  "log_tag level = (if DEBUG \<le> level \<and> level \<le> ERROR then LEVEL_TAGS ! level else DEFAULT_TEXT)"

text \<open>The compile-time switches \<open>CORE_LOG_DEBUG\<close>, \<open>CORE_LOG_INFO\<close> and \<open>CORE_LOG_WARN\<close>.\<close>

record log_config =
  CORE_LOG_DEBUG :: bool
  CORE_LOG_INFO :: bool
  CORE_LOG_WARN :: bool

text \<open>What the two loggers produce: the text on stderr and the text of each file of logs/.\<close>

record log_out =
  log_stderr :: string
  log_files :: "string \<Rightarrow> string"

text \<open>\<open>text\<close> is what \<open>vfprintf\<close> makes of the format and its arguments.\<close>

definition log_to_file :: "bool \<Rightarrow> string \<Rightarrow> string \<Rightarrow> string \<Rightarrow> log_out \<Rightarrow> log_out" where
  "log_to_file fopen_ok level ts text s =
     (if \<not> fopen_ok then s
      else s\<lparr>log_files := (log_files s)(level :=
               log_files s level @ ''['' @ ts @ ''] '' @ text @ [NL])\<rparr>)"

definition stamp :: "string \<Rightarrow> string" where
  "stamp ts = [NL] @ ''['' @ colored ''90'' ts @ '']'' @ [NL, NL]"

definition plugin_log_internal ::
    "log_config \<Rightarrow> bool \<Rightarrow> nat \<Rightarrow> string \<Rightarrow> string \<Rightarrow> string \<Rightarrow> log_out \<Rightarrow> log_out" where
  "plugin_log_internal cfg fopen_ok level plugin_name ts text s =
     (let plugin_label = snprintf 150
            ([ESC] @ ''[1;97m'' @ [ESC] @ ''[45m'' @ ''  '' @ plugin_name @ ''  '' @ [ESC] @ ''[0m'');
          s1 = s\<lparr>log_stderr := log_stderr s @ plugin_label @ log_tag level @ [NL] @ text @ stamp ts\<rparr>
      in if level = ERROR then log_to_file fopen_ok ''error'' ts text s1
         else if level = WARN then log_to_file fopen_ok ''warn'' ts text s1
         else if level = INFO then log_to_file fopen_ok ''info'' ts text s1
         else if CORE_LOG_DEBUG cfg \<and> level = DEBUG then log_to_file fopen_ok ''debug'' ts text s1
         else s1)"

definition core_log_internal ::
    "log_config \<Rightarrow> bool \<Rightarrow> nat \<Rightarrow> string \<Rightarrow> string \<Rightarrow> log_out \<Rightarrow> log_out" where
  "core_log_internal cfg fopen_ok level ts text s =
     (let s1 = s\<lparr>log_stderr := log_stderr s @ CORE_TEXT @ log_tag level @ [NL] @ text @ stamp ts\<rparr>
      in if level = ERROR then log_to_file fopen_ok ''error'' ts text s1
         else if CORE_LOG_WARN cfg \<and> level = WARN then log_to_file fopen_ok ''warn'' ts text s1
         else if CORE_LOG_INFO cfg \<and> level = INFO then log_to_file fopen_ok ''info'' ts text s1
         else if CORE_LOG_DEBUG cfg \<and> level = DEBUG then log_to_file fopen_ok ''debug'' ts text s1
         else s1)"

text \<open>
  public_headers/plugin/include/CoreCDTL/plugin_api.h: the levels a plugin logs with, and the
  macros \<open>p_log_info\<close>, \<open>p_log_warn\<close> and \<open>p_log_error\<close> over the core's \<open>plugin_log_internal\<close>.
\<close>

datatype plugin_log_level = PLUGIN_LOG_INFO | PLUGIN_LOG_WARN | PLUGIN_LOG_ERROR

definition plugin_log_level_value :: "plugin_log_level \<Rightarrow> nat" where
  "plugin_log_level_value l =
     (case l of PLUGIN_LOG_INFO \<Rightarrow> 0 | PLUGIN_LOG_WARN \<Rightarrow> 1 | PLUGIN_LOG_ERROR \<Rightarrow> 2)"

definition p_log ::
    "log_config \<Rightarrow> bool \<Rightarrow> plugin_log_level \<Rightarrow> string \<Rightarrow> string \<Rightarrow> string \<Rightarrow> log_out \<Rightarrow> log_out" where
  "p_log cfg fopen_ok l plugin_name ts text s =
     plugin_log_internal cfg fopen_ok (plugin_log_level_value l) plugin_name ts text s"

section \<open>The queue of critical errors\<close>

definition MAX_CRITICAL_ERROR_QUEUE_SIZE :: nat where "MAX_CRITICAL_ERROR_QUEUE_SIZE = 63"

datatype critical_source = SOURCE_SCHEDULER | SOURCE_EVENT_BUS

definition source_value :: "critical_source \<Rightarrow> 32 word" where
  "source_value src = (case src of SOURCE_SCHEDULER \<Rightarrow> 0 | SOURCE_EVENT_BUS \<Rightarrow> 1)"

text \<open>\<open>error_context_t\<close> of src/core/crash_recovery.h.\<close>

record error_context =
  marker :: "64 word"
  signal :: c_int
  signal_code :: c_int
  fault_address :: "64 word"

record crash_log =
  g_critical_error_queues :: "nat \<Rightarrow> string option"
  g_critical_error_bitmap :: "32 word"
  critical_file :: "string list"

definition crash_log_initial :: crash_log where
  "crash_log_initial =
     \<lparr> g_critical_error_queues = (\<lambda>_. None), g_critical_error_bitmap = 0, critical_file = [] \<rparr>"

datatype shift_sem = Shift_ISO | Shift_Mod

text \<open>\<open>1U << i\<close>.\<close>

definition bit_mask :: "shift_sem \<Rightarrow> nat \<Rightarrow> 32 word outcome" where
  "bit_mask sem i =
     (if i < 32 then Ret (push_bit i 1)
      else case sem of Shift_ISO \<Rightarrow> Fault ShiftOverflow | Shift_Mod \<Rightarrow> Ret (push_bit (i mod 32) 1))"

text \<open>The search for a free slot, from \<open>i\<close> on.\<close>

function find_slot :: "shift_sem \<Rightarrow> 32 word \<Rightarrow> nat \<Rightarrow> nat option outcome" where
  "find_slot sem bitmap i =
     (if i \<ge> MAX_CRITICAL_ERROR_QUEUE_SIZE then Ret None
      else outcome_bind (bit_mask sem i) (\<lambda>m.
        if bitmap AND m = 0 then Ret (Some i) else find_slot sem bitmap (i + 1)))"
  by pat_completeness auto
termination
  by (relation "measure (\<lambda>(sem, bitmap, i). MAX_CRITICAL_ERROR_QUEUE_SIZE - i)") auto

declare find_slot.simps [simp del]

definition mark_slot_used :: "shift_sem \<Rightarrow> nat \<Rightarrow> crash_log \<Rightarrow> crash_log outcome" where
  "mark_slot_used sem index s =
     outcome_bind (bit_mask sem index) (\<lambda>m.
       Ret (s\<lparr>g_critical_error_bitmap := g_critical_error_bitmap s OR m\<rparr>))"

definition context_text :: "error_context \<Rightarrow> string" where
  "context_text ctx =
     fmt_d (signal ctx) @ '' '' @ fmt_d (signal_code ctx) @ '' '' @ fmt_p (fault_address ctx)"

definition event_bus_error_text ::
    "string \<Rightarrow> string option \<Rightarrow> critical_source \<Rightarrow> string \<Rightarrow> error_context \<Rightarrow> string" where
  "event_bus_error_text ts plugin_name src name ctx =
     snprintf 255 (''['' @ ts @ ''] ['' @ fmt_s plugin_name @ ''] '' @ fmt_d (source_value src)
       @ '' ['' @ name @ ''] '' @ context_text ctx)"

definition scheduler_error_text ::
    "string \<Rightarrow> string option \<Rightarrow> critical_source \<Rightarrow> c_int \<Rightarrow> error_context \<Rightarrow> string" where
  "scheduler_error_text ts plugin_name src timer_id ctx =
     snprintf 255 (''['' @ ts @ ''] ['' @ fmt_s plugin_name @ ''] '' @ fmt_d (source_value src)
       @ '' '' @ fmt_d timer_id @ '' '' @ context_text ctx)"

text \<open>
  What the two functions share from the search on. The buffer of the text has 255 bytes, and the
  \<open>memcpy\<close> into the gateway's message reads \<open>GATEWAY_DTLS_MSG_LEN\<close> bytes from it.
\<close>

definition add_critical_error ::
    "shift_sem \<Rightarrow> bool \<Rightarrow> string \<Rightarrow> crash_log \<times> gw \<Rightarrow> (crash_log \<times> gw) outcome" where
  "add_critical_error sem strdup_ok text st =
     (case st of (s, g) \<Rightarrow>
        outcome_bind (find_slot sem (g_critical_error_bitmap s) 0) (\<lambda>slot.
          case slot of
            None \<Rightarrow> Ret (s, g)
          | Some i \<Rightarrow>
              if g_gateway_connected_flag g \<and> 255 < GATEWAY_DTLS_MSG_LEN then Fault OutOfBounds
              else
                let g1 = (if g_gateway_connected_flag g
                          then gateway_msg_send CRASH_API text g else g);
                    s1 = s\<lparr>g_critical_error_queues :=
                             (g_critical_error_queues s)(i := if strdup_ok then Some text else None)\<rparr>
                in outcome_bind (mark_slot_used sem i s1) (\<lambda>s2. Ret (s2, g1))))"

definition add_event_bus_critical_error ::
    "shift_sem \<Rightarrow> bool \<Rightarrow> string \<Rightarrow> (plugin_id \<Rightarrow> string option) \<Rightarrow> plugin_id \<Rightarrow> string
      \<Rightarrow> critical_source \<Rightarrow> error_context \<Rightarrow> crash_log \<times> gw \<Rightarrow> (crash_log \<times> gw) outcome" where
  "add_event_bus_critical_error sem strdup_ok ts plugin_get_name pid name src ctx st =
     add_critical_error sem strdup_ok
       (event_bus_error_text ts (plugin_get_name pid) src name ctx) st"

definition add_scheduler_critical_error ::
    "shift_sem \<Rightarrow> bool \<Rightarrow> string \<Rightarrow> (plugin_id \<Rightarrow> string option) \<Rightarrow> plugin_id \<Rightarrow> c_int
      \<Rightarrow> critical_source \<Rightarrow> error_context \<Rightarrow> crash_log \<times> gw \<Rightarrow> (crash_log \<times> gw) outcome" where
  "add_scheduler_critical_error sem strdup_ok ts plugin_get_name pid timer_id src ctx st =
     add_critical_error sem strdup_ok
       (scheduler_error_text ts (plugin_get_name pid) src timer_id ctx) st"

text \<open>
  The consumer. A failed \<open>fopen\<close> sends the text to the core log instead. \<open>consume_slot\<close> is the
  body of its loop for one \<open>i\<close>, with the mutex released around the write; a pass runs it for every
  \<open>i\<close>. In between, the other threads may add entries: \<open>others i\<close> is what they do before round
  \<open>i\<close>, one text and \<open>strdup\<close> outcome for each call.
\<close>

definition write_critical_error_to_file :: "bool \<Rightarrow> string \<Rightarrow> crash_log \<Rightarrow> crash_log" where
  "write_critical_error_to_file fopen_ok msg s =
     (if fopen_ok then s\<lparr>critical_file := critical_file s @ [msg]\<rparr> else s)"

definition consume_slot :: "shift_sem \<Rightarrow> bool \<Rightarrow> nat \<Rightarrow> crash_log \<Rightarrow> crash_log outcome" where
  "consume_slot sem fopen_ok i s =
     outcome_bind (bit_mask sem i) (\<lambda>m.
       if g_critical_error_bitmap s AND m \<noteq> 0 then
         let msg = g_critical_error_queues s i;
             s1 = s\<lparr>g_critical_error_queues := (g_critical_error_queues s)(i := None),
                    g_critical_error_bitmap := g_critical_error_bitmap s AND NOT m\<rparr>
         in Ret (case msg of None \<Rightarrow> s1 | Some t \<Rightarrow> write_critical_error_to_file fopen_ok t s1)
       else Ret s)"

fun add_all ::
    "shift_sem \<Rightarrow> (string \<times> bool) list \<Rightarrow> crash_log \<times> gw \<Rightarrow> (crash_log \<times> gw) outcome" where
  "add_all sem [] st = Ret st"
| "add_all sem ((text, dup) # ts) st =
     outcome_bind (add_critical_error sem dup text st) (add_all sem ts)"

fun consume_slots ::
    "shift_sem \<Rightarrow> bool \<Rightarrow> (nat \<Rightarrow> (string \<times> bool) list) \<Rightarrow> nat list \<Rightarrow> crash_log \<times> gw
      \<Rightarrow> (crash_log \<times> gw) outcome" where
  "consume_slots sem fopen_ok others [] st = Ret st"
| "consume_slots sem fopen_ok others (i # js) st =
     outcome_bind (add_all sem (others i) st) (\<lambda>(s, g).
       outcome_bind (consume_slot sem fopen_ok i s) (\<lambda>s1.
         consume_slots sem fopen_ok others js (s1, g)))"

definition critical_error_consumer_pass ::
    "shift_sem \<Rightarrow> bool \<Rightarrow> (nat \<Rightarrow> (string \<times> bool) list) \<Rightarrow> crash_log \<times> gw
      \<Rightarrow> (crash_log \<times> gw) outcome" where
  "critical_error_consumer_pass sem fopen_ok others st =
     (if g_critical_error_bitmap (fst st) = 0 then Blocked
      else consume_slots sem fopen_ok others [0..<MAX_CRITICAL_ERROR_QUEUE_SIZE] st)"


section \<open>The bitmap\<close>

lemmas and_exp_eq_0_iff_not_bit [simp]

lemma bit_mask_low [simp]: "i < 32 \<Longrightarrow> bit_mask sem i = Ret (push_bit i 1)"
  by (simp add: bit_mask_def)

lemma bit_mask_Mod [simp]: "bit_mask Shift_Mod i = Ret (push_bit (i mod 32) 1)"
  by (simp add: bit_mask_def)

lemma bit_mask_ISO [simp]: "32 \<le> i \<Longrightarrow> bit_mask Shift_ISO i = Fault ShiftOverflow"
  by (simp add: bit_mask_def)

lemma find_slot_least:
  assumes "i \<le> n" "n < 32" "\<not> bit bm n" "\<forall>j. i \<le> j \<and> j < n \<longrightarrow> bit bm j"
  shows "find_slot sem bm i = Ret (Some n)"
  using assms
proof (induction "n - i" arbitrary: i)
  case 0
  then show ?case by (simp add: find_slot.simps MAX_CRITICAL_ERROR_QUEUE_SIZE_def)
next
  case (Suc k)
  then have "i < n" and "find_slot sem bm (Suc i) = Ret (Some n)" by simp_all
  with Suc.prems show ?case
    by (simp add: find_slot.simps [of sem bm i] MAX_CRITICAL_ERROR_QUEUE_SIZE_def)
qed

lemma find_slot_some_free:
  assumes "\<exists>i<32. \<not> bit bm i"
  shows "find_slot sem bm 0 = Ret (Some (LEAST i. \<not> bit bm i))"
proof -
  let ?n = "LEAST i. \<not> bit bm i"
  from assms obtain i where i: "i < 32" "\<not> bit bm i" by blast
  have "\<not> bit bm ?n" using i(2) by (rule LeastI)
  moreover have "?n < 32" using Least_le [of "\<lambda>i. \<not> bit bm i", OF i(2)] i(1) by simp
  ultimately show ?thesis by (intro find_slot_least) (auto dest: not_less_Least)
qed

lemma find_slot_full_Mod:
  assumes "\<forall>j<32. bit bm j"
  shows "find_slot Shift_Mod bm i = Ret None"
  using assms
proof (induction "63 - i" arbitrary: i)
  case 0
  then show ?case by (simp add: find_slot.simps MAX_CRITICAL_ERROR_QUEUE_SIZE_def)
next
  case (Suc k)
  then have "find_slot Shift_Mod bm (Suc i) = Ret None" by simp
  with Suc.prems show ?case by (simp add: find_slot.simps [of _ bm i])
qed

lemma find_slot_full_ISO:
  assumes "\<forall>j<32. bit bm j" "i \<le> 32"
  shows "find_slot Shift_ISO bm i = Fault ShiftOverflow"
  using assms
proof (induction "32 - i" arbitrary: i)
  case 0
  then show ?case by (simp add: find_slot.simps MAX_CRITICAL_ERROR_QUEUE_SIZE_def)
next
  case (Suc k)
  then have "i < 32" "find_slot Shift_ISO bm (Suc i) = Fault ShiftOverflow" by simp_all
  with Suc.prems show ?case
    by (simp add: find_slot.simps [of _ bm i] MAX_CRITICAL_ERROR_QUEUE_SIZE_def)
qed

text \<open>
  What the queue keeps true: a clear bit means a slot without a text, so marking it overwrites
  nothing, and the slots from 32 on are never used.
\<close>

definition crash_inv :: "crash_log \<Rightarrow> bool" where
  "crash_inv s \<longleftrightarrow>
     (\<forall>i. (i < 32 \<longrightarrow> \<not> bit (g_critical_error_bitmap s) i) \<longrightarrow> g_critical_error_queues s i = None)"

lemma crash_inv_initial: "crash_inv crash_log_initial"
  by (simp add: crash_inv_def crash_log_initial_def)

lemma add_critical_error_free:
  assumes "\<exists>i<32. \<not> bit (g_critical_error_bitmap s) i" "\<not> g_gateway_connected_flag g"
  defines "n \<equiv> LEAST i. \<not> bit (g_critical_error_bitmap s) i"
  shows "n < 32 \<and> add_critical_error sem dup m (s, g) =
    Ret (s\<lparr>g_critical_error_queues :=
             (g_critical_error_queues s)(n := if dup then Some m else None),
           g_critical_error_bitmap := g_critical_error_bitmap s OR push_bit n 1\<rparr>, g)"
proof -
  from assms(1) obtain i where i: "i < 32" "\<not> bit (g_critical_error_bitmap s) i" by blast
  have "n < 32"
    unfolding n_def using Least_le [of "\<lambda>i. \<not> bit (g_critical_error_bitmap s) i", OF i(2)] i(1)
    by simp
  moreover have "find_slot sem (g_critical_error_bitmap s) 0 = Ret (Some n)"
    unfolding n_def using assms(1) by (rule find_slot_some_free)
  ultimately show ?thesis
    using assms(2) by (simp add: add_critical_error_def mark_slot_used_def)
qed

lemma add_critical_error_inv:
  assumes "crash_inv s" "add_critical_error sem dup m (s, g) = Ret (s', g')"
    and "\<not> g_gateway_connected_flag g"
  shows "crash_inv s'"
proof (cases "\<exists>i<32. \<not> bit (g_critical_error_bitmap s) i")
  case True
  from add_critical_error_free [OF this assms(3), of sem dup m] assms(1,2) show ?thesis
    by (auto simp: crash_inv_def bit_simps)
next
  case False
  then have "find_slot sem (g_critical_error_bitmap s) 0 \<noteq> Ret (Some i)" for i
    by (cases sem) (simp_all add: find_slot_full_Mod find_slot_full_ISO)
  with assms(1,2) show ?thesis
    by (auto simp: add_critical_error_def split: option.splits)
qed

section \<open>The consumer\<close>

definition quiet :: "nat \<Rightarrow> (string \<times> bool) list" where
  "quiet = (\<lambda>_. [])"

lemma consume_slots_append:
  "consume_slots sem ok others (js @ ks) st =
    outcome_bind (consume_slots sem ok others js st) (consume_slots sem ok others ks)"
proof (induction js arbitrary: st)
  case (Cons i js)
  then show ?case
    by (cases "add_all sem (others i) st")
      (auto split: prod.splits, case_tac "consume_slot sem ok i x1", auto)
qed simp

definition queued_texts :: "crash_log \<Rightarrow> nat list \<Rightarrow> string list" where
  "queued_texts s js =
     concat (map (\<lambda>i. if bit (g_critical_error_bitmap s) i
                      then (case g_critical_error_queues s i of None \<Rightarrow> [] | Some t \<Rightarrow> [t])
                      else []) js)"

lemma consume_low:
  assumes "n \<le> 32"
  shows "\<exists>s'. consume_slots sem True quiet [0..<n] (s, g) = Ret (s', g)
    \<and> (\<forall>j. bit (g_critical_error_bitmap s') j \<longleftrightarrow> bit (g_critical_error_bitmap s) j \<and> n \<le> j)
    \<and> (\<forall>j. g_critical_error_queues s' j =
          (if j < n \<and> bit (g_critical_error_bitmap s) j then None
           else g_critical_error_queues s j))
    \<and> critical_file s' = critical_file s @ queued_texts s [0..<n]"
  using assms
proof (induction n)
  case 0
  then show ?case by (simp add: queued_texts_def)
next
  case (Suc n)
  then obtain s' where s': "consume_slots sem True quiet [0..<n] (s, g) = Ret (s', g)"
    "\<forall>j. bit (g_critical_error_bitmap s') j \<longleftrightarrow> bit (g_critical_error_bitmap s) j \<and> n \<le> j"
    "\<forall>j. g_critical_error_queues s' j =
          (if j < n \<and> bit (g_critical_error_bitmap s) j then None
           else g_critical_error_queues s j)"
    "critical_file s' = critical_file s @ queued_texts s [0..<n]"
    by auto
  have n: "n < 32" using Suc.prems by simp
  show ?case
  proof (cases "bit (g_critical_error_bitmap s) n")
    case False
    then have "consume_slot sem True n s' = Ret s'"
      using n s'(2) by (simp add: consume_slot_def)
    with False s' show ?thesis
      by (auto simp: consume_slots_append quiet_def queued_texts_def less_Suc_eq Suc_le_eq
          order.order_iff_strict)
  next
    case True
    let ?s1 = "s'\<lparr>g_critical_error_queues := (g_critical_error_queues s')(n := None),
      g_critical_error_bitmap := g_critical_error_bitmap s' AND NOT (2 ^ n)\<rparr>"
    let ?s2 = "case g_critical_error_queues s n of None \<Rightarrow> ?s1
      | Some t \<Rightarrow> write_critical_error_to_file True t ?s1"
    have step: "consume_slot sem True n s' = Ret ?s2"
      using True n s'(2,3) by (simp add: consume_slot_def Let_def)
    have bm: "g_critical_error_bitmap ?s2 = g_critical_error_bitmap s' AND NOT (2 ^ n)"
      by (simp add: write_critical_error_to_file_def split: option.splits)
    have bits: "bit (g_critical_error_bitmap ?s2) j
        \<longleftrightarrow> bit (g_critical_error_bitmap s) j \<and> Suc n \<le> j" for j
    proof -
      have "bit (g_critical_error_bitmap s') j \<longleftrightarrow> bit (g_critical_error_bitmap s) j \<and> n \<le> j"
        using s'(2) by blast
      moreover have "bit (g_critical_error_bitmap s) j \<longrightarrow> j < 32"
        using bit_imp_le_length [of "g_critical_error_bitmap s" j] by simp
      ultimately show ?thesis
        using n unfolding bm bit_and_iff bit_not_iff bit_exp_iff possible_bit_word
        by simp linarith
    qed
    have qs: "g_critical_error_queues ?s2 j =
        (if j < Suc n \<and> bit (g_critical_error_bitmap s) j then None
         else g_critical_error_queues s j)" for j
      using s'(3) True by (auto simp: write_critical_error_to_file_def less_Suc_eq
          split: option.splits)
    have written: "critical_file ?s2 = critical_file s @ queued_texts s [0..<Suc n]"
      using s'(4) True by (auto simp: write_critical_error_to_file_def queued_texts_def
          split: option.splits)
    show ?thesis
      using s'(1) step bits qs written by (simp add: consume_slots_append quiet_def)
  qed
qed

lemma consume_high_quiet:
  assumes "g_critical_error_bitmap s = 0"
  shows "consume_slots Shift_Mod ok quiet js (s, g) = Ret (s, g)"
  using assms by (induction js) (simp_all add: quiet_def consume_slot_def)


definition slots_above_32 :: "nat list" where "slots_above_32 = [33..<63]"

lemma upt_slots: "[0..<MAX_CRITICAL_ERROR_QUEUE_SIZE] = [0..<32] @ 32 # slots_above_32"
  by code_simp

lemma no_bits_zero: "(\<forall>j<32. \<not> bit (w :: 32 word) j) \<Longrightarrow> w = 0"
  by (auto simp: bit_eq_iff)

lemma consume_low_all:
  assumes "crash_inv s"
  shows "\<exists>s'. consume_slots sem True quiet [0..<32] (s, g) = Ret (s', g)
    \<and> g_critical_error_bitmap s' = 0 \<and> g_critical_error_queues s' = (\<lambda>_. None)
    \<and> critical_file s' = critical_file s @ queued_texts s [0..<32]"
proof -
  from consume_low [of 32 sem s g] obtain s' where
    s': "consume_slots sem True quiet [0..<32] (s, g) = Ret (s', g)"
    "\<forall>j. bit (g_critical_error_bitmap s') j \<longleftrightarrow> bit (g_critical_error_bitmap s) j \<and> 32 \<le> j"
    "\<forall>j. g_critical_error_queues s' j =
          (if j < 32 \<and> bit (g_critical_error_bitmap s) j then None
           else g_critical_error_queues s j)"
    "critical_file s' = critical_file s @ queued_texts s [0..<32]"
    by auto
  from s'(2) have "g_critical_error_bitmap s' = 0" by (intro no_bits_zero) auto
  moreover have "g_critical_error_queues s' = (\<lambda>_. None)"
    using s'(3) assms unfolding crash_inv_def by (intro ext) (metis (full_types))
  ultimately show ?thesis using s' by blast
qed


lemma consume_slots_cong:
  "\<forall>i\<in>set js. others i = others' i \<Longrightarrow>
    consume_slots sem ok others js st = consume_slots sem ok others' js st"
  by (induction js arbitrary: st) (simp_all add: case_prod_unfold)

definition late_report :: "string \<Rightarrow> nat \<Rightarrow> (string \<times> bool) list" where
  "late_report msg i = (if i = 32 then [(msg, True)] else [])"

section \<open>Properties\<close>

text \<open>
  C32. While one of the 32 bits is clear, reporting an error (no gateway connected) puts its text
  into the lowest free slot, sets that bit and touches no other slot, and no text that still waits
  is overwritten. Once 32 errors wait, a further report is dropped, or is undefined behaviour by the
  C standard: the other 31 of the 63 slots cannot be used.
\<close>

theorem critical_error_slots:
  assumes "crash_inv s" "\<not> g_gateway_connected_flag g"
  shows "if \<exists>i<32. \<not> bit (g_critical_error_bitmap s) i
    then (let n = LEAST i. \<not> bit (g_critical_error_bitmap s) i in
       n < 32 \<and> g_critical_error_queues s n = None
     \<and> add_event_bus_critical_error sem True ts name_of pid ev SOURCE_EVENT_BUS ctx (s, g)
        = Ret (s\<lparr>g_critical_error_queues := (g_critical_error_queues s)
                   (n \<mapsto> event_bus_error_text ts (name_of pid) SOURCE_EVENT_BUS ev ctx),
                 g_critical_error_bitmap := g_critical_error_bitmap s OR push_bit n 1\<rparr>, g))
    else add_event_bus_critical_error Shift_Mod dup ts name_of pid ev src ctx (s, g) = Ret (s, g)
     \<and> add_event_bus_critical_error Shift_ISO dup ts name_of pid ev src ctx (s, g)
        = Fault ShiftOverflow"
proof (cases "\<exists>i<32. \<not> bit (g_critical_error_bitmap s) i")
  case True
  let ?n = "LEAST i. \<not> bit (g_critical_error_bitmap s) i"
  from True have "\<not> bit (g_critical_error_bitmap s) ?n" by (metis LeastI)
  with assms(1) have "g_critical_error_queues s ?n = None" by (simp add: crash_inv_def)
  with True add_critical_error_free [OF True assms(2)] show ?thesis
    by (simp add: add_event_bus_critical_error_def Let_def)
next
  case False
  then have "\<forall>j<32. bit (g_critical_error_bitmap s) j" by blast
  then show ?thesis
    unfolding if_not_P [OF False]
    by (simp add: add_event_bus_critical_error_def add_critical_error_def
        find_slot_full_Mod find_slot_full_ISO)
qed

theorem critical_error_slots_witness:
  "add_event_bus_critical_error Shift_ISO True ''t'' (\<lambda>_. Some ''p'') 1 ''e'' SOURCE_EVENT_BUS
     \<lparr>marker = 0, signal = 11, signal_code = 1, fault_address = 0\<rparr>
     (crash_log_initial\<lparr>g_critical_error_bitmap := -1\<rparr>, gw_initial) = Fault ShiftOverflow"
proof -
  have "crash_inv (crash_log_initial\<lparr>g_critical_error_bitmap := -1\<rparr>)"
    "\<not> g_gateway_connected_flag gw_initial"
    by (simp_all add: crash_inv_def crash_log_initial_def gw_initial_def)
  from critical_error_slots [OF this, of Shift_ISO "''t''" "\<lambda>_. Some ''p''" 1 "''e''"
      "\<lparr>marker = 0, signal = 11, signal_code = 1, fault_address = 0\<rparr>" True SOURCE_EVENT_BUS]
  show ?thesis by simp
qed

text \<open>
  With a gateway connected and a slot free, every report of a crash reads
  \<open>GATEWAY_DTLS_MSG_LEN\<close> = 512 bytes from its 255-byte buffer.
\<close>

theorem critical_error_overread:
  assumes "g_gateway_connected_flag g" "\<exists>i<32. \<not> bit (g_critical_error_bitmap s) i"
  shows "add_event_bus_critical_error sem dup ts name_of pid ev src ctx (s, g) = Fault OutOfBounds
    \<and> add_scheduler_critical_error sem dup ts name_of pid tid src ctx (s, g) = Fault OutOfBounds"
  using find_slot_some_free [OF assms(2), of sem] assms(1)
  by (simp add: add_event_bus_critical_error_def add_scheduler_critical_error_def
      add_critical_error_def GATEWAY_DTLS_MSG_LEN_def)

theorem critical_error_overread_witness:
  "add_scheduler_critical_error Shift_Mod True ''t'' (\<lambda>_. None) 1 7 SOURCE_SCHEDULER
     \<lparr>marker = 0, signal = 11, signal_code = 1, fault_address = 0\<rparr>
     (crash_log_initial, gw_initial\<lparr>g_gateway_connected_flag := True\<rparr>) = Fault OutOfBounds"
proof -
  have "\<exists>i<32. \<not> bit (g_critical_error_bitmap crash_log_initial) i"
    by (intro exI [of _ 0]) (simp add: crash_log_initial_def)
  from critical_error_overread [OF _ this, of "gw_initial\<lparr>g_gateway_connected_flag := True\<rparr>"]
  show ?thesis by simp
qed

text \<open>
  C33. With shifts modulo 32, a pass of the consumer that nobody disturbs writes every waiting text
  to the file once, in the order of the slots, and leaves the queue empty. By the letter of the C
  standard no pass ever completes without undefined behaviour.
\<close>

theorem consumer_pass_drains:
  assumes "crash_inv s" "g_critical_error_bitmap s \<noteq> 0"
  shows "(\<exists>s'. critical_error_consumer_pass Shift_Mod True quiet (s, g) = Ret (s', g)
      \<and> g_critical_error_bitmap s' = 0 \<and> g_critical_error_queues s' = (\<lambda>_. None)
      \<and> critical_file s' = critical_file s @ queued_texts s [0..<32])
    \<and> critical_error_consumer_pass Shift_ISO True quiet (s, g) = Fault ShiftOverflow"
proof
  obtain s' where "consume_slots Shift_Mod True quiet [0..<32] (s, g) = Ret (s', g)"
    "g_critical_error_bitmap s' = 0" "g_critical_error_queues s' = (\<lambda>_. None)"
    "critical_file s' = critical_file s @ queued_texts s [0..<32]"
    using consume_low_all [OF assms(1)] by blast
  with assms(2) show "\<exists>s'. critical_error_consumer_pass Shift_Mod True quiet (s, g) = Ret (s', g)
      \<and> g_critical_error_bitmap s' = 0 \<and> g_critical_error_queues s' = (\<lambda>_. None)
      \<and> critical_file s' = critical_file s @ queued_texts s [0..<32]"
    by (simp add: critical_error_consumer_pass_def upt_slots consume_slots_append
        consume_high_quiet del: consume_slots.simps(2) upt_rec_numeral)
  obtain s1 where "consume_slots Shift_ISO True quiet [0..<32] (s, g) = Ret (s1, g)"
    using consume_low_all [OF assms(1)] by blast
  with assms(2) show "critical_error_consumer_pass Shift_ISO True quiet (s, g) = Fault ShiftOverflow"
    by (simp add: critical_error_consumer_pass_def upt_slots consume_slots_append
        quiet_def consume_slot_def del: upt_rec_numeral)
qed

theorem consumer_pass_drains_witness:
  "\<exists>s'. critical_error_consumer_pass Shift_Mod True quiet
      (crash_log_initial\<lparr>g_critical_error_bitmap := 1,
         g_critical_error_queues := (\<lambda>_. None)(0 := Some ''boom'')\<rparr>, gw_initial)
      = Ret (s', gw_initial) \<and> critical_file s' = [''boom'']"
proof -
  let ?s = "crash_log_initial\<lparr>g_critical_error_bitmap := 1,
         g_critical_error_queues := (\<lambda>_. None)(0 := Some ''boom'')\<rparr>"
  have "crash_inv ?s" "g_critical_error_bitmap ?s \<noteq> 0"
    by (auto simp: crash_inv_def crash_log_initial_def bit_1_iff)
  moreover have "critical_file ?s @ queued_texts ?s [0..<32] = [''boom'']" by code_simp
  ultimately show ?thesis using consumer_pass_drains [of ?s gw_initial] by auto
qed

text \<open>
  An error reported while the consumer is between its 32nd and its 33rd round, with the queue
  already emptied, is lost on a processor that shifts modulo 32: round 32 clears the bit of slot 0
  but looks for the text in slot 32. The text is never written, and stays behind in slot 0.
\<close>

theorem consumer_loses_late_report:
  assumes "crash_inv s" "g_critical_error_bitmap s \<noteq> 0" "\<not> g_gateway_connected_flag g"
  shows "\<exists>s'. critical_error_consumer_pass Shift_Mod True (late_report msg) (s, g) = Ret (s', g)
    \<and> critical_file s' = critical_file s @ queued_texts s [0..<32]
    \<and> g_critical_error_bitmap s' = 0 \<and> g_critical_error_queues s' 0 = Some msg"
proof -
  obtain s1 where s1: "consume_slots Shift_Mod True quiet [0..<32] (s, g) = Ret (s1, g)"
    "g_critical_error_bitmap s1 = 0" "g_critical_error_queues s1 = (\<lambda>_. None)"
    "critical_file s1 = critical_file s @ queued_texts s [0..<32]"
    using consume_low_all [OF assms(1)] by blast
  have low: "consume_slots Shift_Mod True (late_report msg) [0..<32] (s, g) = Ret (s1, g)"
    unfolding s1(1) [symmetric] by (rule consume_slots_cong) (simp add: late_report_def quiet_def)
  let ?s2 = "s1\<lparr>g_critical_error_queues := [0 \<mapsto> msg], g_critical_error_bitmap := 1\<rparr>"
  let ?s3 = "s1\<lparr>g_critical_error_queues := [0 \<mapsto> msg], g_critical_error_bitmap := 0\<rparr>"
  have "(LEAST i. \<not> bit (g_critical_error_bitmap s1) i) = 0" using s1(2) by simp
  then have add: "add_all Shift_Mod (late_report msg 32) (s1, g) = Ret (?s2, g)"
    using add_critical_error_free [of s1 g Shift_Mod True msg] assms(3) s1(2,3)
      exI [of "\<lambda>i. i < (32::nat)" 0]
    by (auto simp: late_report_def)
  have consume: "consume_slot Shift_Mod True 32 ?s2 = Ret ?s3"
    by (simp add: consume_slot_def Let_def)
  have rest: "consume_slots Shift_Mod True (late_report msg) slots_above_32 (?s3, g) = Ret (?s3, g)"
    using consume_high_quiet [of ?s3 True slots_above_32 g]
      consume_slots_cong [of slots_above_32 "late_report msg" quiet Shift_Mod True "(?s3, g)"]
    by (auto simp: late_report_def quiet_def slots_above_32_def simp del: upt_rec_numeral)
  show ?thesis
    using assms(2) low add consume rest s1(4)
    by (simp add: critical_error_consumer_pass_def upt_slots consume_slots_append
        del: upt_rec_numeral)
qed

theorem consumer_loses_late_report_witness:
  "\<exists>s'. critical_error_consumer_pass Shift_Mod True
        (late_report ''late'')
        (crash_log_initial\<lparr>g_critical_error_bitmap := 1,
           g_critical_error_queues := (\<lambda>_. None)(0 := Some ''boom'')\<rparr>, gw_initial)
      = Ret (s', gw_initial) \<and> critical_file s' = [''boom'']
      \<and> g_critical_error_bitmap s' = 0"
proof -
  let ?s = "crash_log_initial\<lparr>g_critical_error_bitmap := 1,
         g_critical_error_queues := (\<lambda>_. None)(0 := Some ''boom'')\<rparr>"
  have "crash_inv ?s" "g_critical_error_bitmap ?s \<noteq> 0" "\<not> g_gateway_connected_flag gw_initial"
    by (auto simp: crash_inv_def crash_log_initial_def bit_1_iff gw_initial_def)
  moreover have "critical_file ?s @ queued_texts ?s [0..<32] = [''boom'']" by code_simp
  ultimately show ?thesis using consumer_loses_late_report [of ?s gw_initial "''late''"] by auto
qed

text \<open>
  The levels of the public plugin header are one below those of the core: a plugin's
  \<open>p_log_error\<close> goes to the file of warnings and never to the file of errors, its \<open>p_log_warn\<close> to
  the file of informations, and its \<open>p_log_info\<close> to no file unless debug records are compiled in.
\<close>

theorem plugin_log_levels_shifted:
  assumes "\<not> CORE_LOG_DEBUG cfg"
  shows "log_files (p_log cfg True PLUGIN_LOG_ERROR name ts msg s) =
      (log_files s)(''warn'' := log_files s ''warn'' @ ''['' @ ts @ ''] '' @ msg @ [NL])
    \<and> log_files (p_log cfg True PLUGIN_LOG_WARN name ts msg s) =
      (log_files s)(''info'' := log_files s ''info'' @ ''['' @ ts @ ''] '' @ msg @ [NL])
    \<and> log_files (p_log cfg True PLUGIN_LOG_INFO name ts msg s) = log_files s
    \<and> log_files (p_log cfg True l name ts msg s) ''error'' = log_files s ''error''"
  using assms
  by (cases l) (auto simp: p_log_def plugin_log_level_value_def plugin_log_internal_def log_levels
      log_to_file_def Let_def)

theorem plugin_log_levels_shifted_witness:
  "log_files (p_log \<lparr>CORE_LOG_DEBUG = False, CORE_LOG_INFO = True, CORE_LOG_WARN = True\<rparr> True
      PLUGIN_LOG_ERROR ''p'' ''t'' ''disk full'' \<lparr>log_stderr = [], log_files = (\<lambda>_. [])\<rparr>) ''error''
    = []"
  using plugin_log_levels_shifted
    [of "\<lparr>CORE_LOG_DEBUG = False, CORE_LOG_INFO = True, CORE_LOG_WARN = True\<rparr>" "''p''" "''t''"
      "''disk full''" "\<lparr>log_stderr = [], log_files = (\<lambda>_. [])\<rparr>" PLUGIN_LOG_ERROR]
  by simp

end
