(* ===== verification/EventBus.thy ===== *)
theory EventBus
  imports BusQueue StrUtils CrashLog
begin

text \<open>
  src/core/event_bus.c: the subscribers, the bounded queue of tasks, the worker threads and the
  list the gateway can ask for.

  A subscriber never changes after \<open>bus_subscribe\<close> and is freed only by \<open>bus_shutdown\<close>, so a
  task holds the subscriber itself where the code holds its address. Functions and \<open>user\<close>
  pointers are addresses, 0 being NULL. \<open>live_payloads\<close> counts the blocks \<open>bus_publish\<close> has
  allocated and nobody has freed; \<open>bus_calls\<close> is the history of the callbacks' calls. A call
  that waits on \<open>cond_not_full\<close> or \<open>cond_not_empty\<close> is \<open>Blocked\<close>; the interleaving of blocked
  and running threads is the subject of BusSystem.
\<close>

section \<open>State\<close>

definition MAX_INIT_EVENT_BUS_THREADS :: nat where "MAX_INIT_EVENT_BUS_THREADS = 5"
definition EVENT_BUS_ERROR_MARKER :: u64 where "EVENT_BUS_ERROR_MARKER = 0xDEADBEEFCAFEBABE"

definition BUS_PUBLISH_ERR_INVALID_PLUGIN_ID :: c_int where "BUS_PUBLISH_ERR_INVALID_PLUGIN_ID = 1"
definition BUS_PUBLISH_ERR_INVALID_DATA :: c_int where "BUS_PUBLISH_ERR_INVALID_DATA = 2"
definition BUS_PUBLISH_ERR_INVALID_LENGTH :: c_int where "BUS_PUBLISH_ERR_INVALID_LENGTH = 3"
definition BUS_PUBLISH_ERR_EVENT_NOT_FOUND :: c_int where "BUS_PUBLISH_ERR_EVENT_NOT_FOUND = 4"
definition BUS_PUBLISH_ERR_MALLOC_FAILED :: c_int where "BUS_PUBLISH_ERR_MALLOC_FAILED = 5"
definition BUS_SUB_ERR_INVALID_EVENT :: c_int where "BUS_SUB_ERR_INVALID_EVENT = 2"
definition BUS_SUB_ERR_INVALID_CB :: c_int where "BUS_SUB_ERR_INVALID_CB = 3"
definition BUS_SUB_ERR_ALLOC_FAILED :: c_int where "BUS_SUB_ERR_ALLOC_FAILED = 4"
definition BUS_SUB_ERR_STRDUP_FAILED :: c_int where "BUS_SUB_ERR_STRDUP_FAILED = 5"

lemmas bus_codes =
  BUS_PUBLISH_ERR_INVALID_PLUGIN_ID_def BUS_PUBLISH_ERR_INVALID_DATA_def
  BUS_PUBLISH_ERR_INVALID_LENGTH_def BUS_PUBLISH_ERR_EVENT_NOT_FOUND_def
  BUS_PUBLISH_ERR_MALLOC_FAILED_def BUS_SUB_ERR_INVALID_EVENT_def BUS_SUB_ERR_INVALID_CB_def
  BUS_SUB_ERR_ALLOC_FAILED_def BUS_SUB_ERR_STRDUP_FAILED_def

text \<open>\<open>sub_event\<close> is what can be read from the \<open>strdup\<close>ed name on, its terminator included.\<close>

record sub =
  sub_event :: string
  sub_plugin_id :: plugin_id
  sub_event_id :: event_id
  sub_cb :: u64
  sub_user :: u64

record bus_task =
  task_data :: string
  task_len :: nat
  task_sub :: sub

record bus =
  g_head :: "sub list"
  g_bus_shut_down :: bool
  event_count :: c_int
  g_task_event_bus_queue_t :: "bus_task ring"
  thread_count :: nat
  thread_map_mask :: u64
  live_payloads :: nat
  bus_calls :: "bus_task list"

text \<open>The static initialisers.\<close>

definition bus_initial :: "(nat \<Rightarrow> bus_task) \<Rightarrow> bus" where
  "bus_initial mem =
     \<lparr> g_head = [], g_bus_shut_down = False, event_count = 1,
       g_task_event_bus_queue_t = \<lparr>slots = mem, head = 0, tail = 0, count = 0\<rparr>,
       thread_count = 0, thread_map_mask = 0, live_payloads = 0, bus_calls = [] \<rparr>"

definition event_bus_error_ctx :: error_context where
  "event_bus_error_ctx =
     \<lparr> marker = EVENT_BUS_ERROR_MARKER, signal = 0, signal_code = 0, fault_address = 0 \<rparr>"

section \<open>Initialisation and shutdown\<close>

text \<open>
  \<open>created\<close> tells, for each thread in turn, whether its \<open>malloc\<close> and \<open>pthread_create\<close> succeed.
  A failure leaves the threads made so far running and the queue as it was.
\<close>

fun bus_init_threads :: "bool list \<Rightarrow> nat \<Rightarrow> bus \<Rightarrow> bool \<times> bus" where
  "bus_init_threads [] i b = (True, b)"
| "bus_init_threads (ok # created) i b =
     (if \<not> ok then (False, b)
      else bus_init_threads created (i + 1)
             (b\<lparr>thread_count := thread_count b + 1,
                thread_map_mask := thread_map_mask b OR push_bit i 1\<rparr>))"

definition bus_init :: "bool \<Rightarrow> (nat \<Rightarrow> bool) \<Rightarrow> bus \<Rightarrow> c_int \<times> bus" where
  "bus_init malloc_ok created b =
     (if \<not> malloc_ok then (-1, b)
      else case bus_init_threads (map created [0..<MAX_INIT_EVENT_BUS_THREADS]) 0 b of
             (False, b1) \<Rightarrow> (-1, b1)
           | (True, b1) \<Rightarrow>
               (0, b1\<lparr>g_task_event_bus_queue_t := ring_reset (g_task_event_bus_queue_t b1)\<rparr>))"

text \<open>
  \<open>bus_shutdown\<close>, up to the joins and after them: between the two the workers run until each of
  them leaves its loop.
\<close>

definition bus_shutdown_begin :: "bus \<Rightarrow> bus" where
  "bus_shutdown_begin b = b\<lparr>g_bus_shut_down := True\<rparr>"

definition bus_shutdown_end :: "bus \<Rightarrow> bus" where
  "bus_shutdown_end b =
     (let b1 = b\<lparr>thread_count := 0\<rparr>;
          b2 = b1\<lparr>live_payloads := live_payloads b1 - count (g_task_event_bus_queue_t b1)\<rparr>;
          b3 = b2\<lparr>g_head := []\<rparr>
      in b3\<lparr>event_count := 1\<rparr>)"

section \<open>Subscribing\<close>

text \<open>
  \<open>dup\<close> is \<open>None\<close> when \<open>strdup\<close> fails, otherwise the bytes that follow the copy in memory.
  The conversion to \<open>event_id_t\<close> keeps the low 16 bits.
\<close>

definition bus_subscribe ::
    "bool \<Rightarrow> string option \<Rightarrow> plugin_id \<Rightarrow> string option \<Rightarrow> u64 \<Rightarrow> u64 \<Rightarrow> bus \<times> gw
      \<Rightarrow> c_int \<times> bus \<times> gw" where
  "bus_subscribe malloc_ok dup pid event cb user st =
     (case (event, st) of
        (None, b, g) \<Rightarrow> (BUS_SUB_ERR_INVALID_EVENT, b, g)
      | (Some e, b, g) \<Rightarrow>
          if cb = 0 then (BUS_SUB_ERR_INVALID_CB, b, g)
          else if \<not> malloc_ok then (BUS_SUB_ERR_ALLOC_FAILED, b, g)
          else (case dup of
                 None \<Rightarrow> (BUS_SUB_ERR_STRDUP_FAILED, b, g)
               | Some behind \<Rightarrow>
                   let s = \<lparr> sub_event = cstr e @ NUL # behind, sub_plugin_id = pid,
                             sub_event_id = ucast (event_count b), sub_cb = cb,
                             sub_user = user \<rparr>;
                       b1 = b\<lparr>event_count := event_count b + 1\<rparr>;
                       b2 = b1\<lparr>g_head := s # g_head b1\<rparr>
                   in (0, b2, gateway_report EVENT_BUS_API
                                (''[subscribe] '' @ fmt_d pid @ '' ['' @ cstr e @ '']'') g)))"

section \<open>Publishing\<close>

definition enqueue_task :: "bus_task \<Rightarrow> bus \<Rightarrow> (c_int \<times> bus) outcome" where
  "enqueue_task task b =
     (if count (g_task_event_bus_queue_t b) = MAX_TASKS \<and> \<not> g_bus_shut_down b then Blocked
      else if g_bus_shut_down b then Ret (-1, b)
      else Ret (0, b\<lparr>g_task_event_bus_queue_t := ring_put task (g_task_event_bus_queue_t b)\<rparr>))"

text \<open>The search of \<open>bus_publish\<close>; \<open>optimized_strcmp\<close> reads a NULL \<open>event\<close>.\<close>

fun bus_find ::
    "simd_target \<Rightarrow> plugin_id \<Rightarrow> string option \<Rightarrow> sub list \<Rightarrow> sub option outcome" where
  "bus_find tgt pid event [] = Ret None"
| "bus_find tgt pid event (it # rest) =
     (if sub_plugin_id it \<noteq> pid then bus_find tgt pid event rest
      else case event of
             None \<Rightarrow> Fault NullDeref
           | Some e \<Rightarrow> outcome_bind (optimized_strcmp tgt (sub_event it) e) (\<lambda>c.
               if c = 0 then Ret (Some it) else bus_find tgt pid event rest))"

text \<open>
  \<open>data\<close> is the bytes readable from the pointer on. The result of \<open>enqueue_task\<close> is not looked
  at.
\<close>

definition bus_publish ::
    "simd_target \<Rightarrow> bool \<Rightarrow> plugin_id \<Rightarrow> string option \<Rightarrow> string option \<Rightarrow> nat \<Rightarrow> bus \<times> gw
      \<Rightarrow> (c_int \<times> bus \<times> gw) outcome" where
  "bus_publish tgt malloc_ok pid event data len st =
     (case st of (b, g) \<Rightarrow>
        if pid = PLUGIN_ID_INVALID then Ret (BUS_PUBLISH_ERR_INVALID_PLUGIN_ID, b, g)
        else (case data of
               None \<Rightarrow> Ret (BUS_PUBLISH_ERR_INVALID_DATA, b, g)
             | Some d \<Rightarrow>
                 if len = 0 then Ret (BUS_PUBLISH_ERR_INVALID_LENGTH, b, g)
                 else outcome_bind (bus_find tgt pid event (g_head b)) (\<lambda>found.
                   (case found of
                     Some it \<Rightarrow>
                       if \<not> malloc_ok then Ret (BUS_PUBLISH_ERR_MALLOC_FAILED, b, g)
                       else if length d < len then Fault OutOfBounds
                       else
                         let task = \<lparr> task_data = take len d, task_len = len, task_sub = it \<rparr>;
                             b1 = b\<lparr>live_payloads := live_payloads b + 1\<rparr>
                         in outcome_bind (enqueue_task task b1) (\<lambda>(_, b2). Ret (0, b2, g))
                   | None \<Rightarrow>
                       Ret (BUS_PUBLISH_ERR_EVENT_NOT_FOUND, b,
                            gateway_report EVENT_BUS_API
                              (''[publish] '' @ fmt_d pid @ '' ['' @ fmt_s (map_option cstr event)
                                 @ '']'') g)))))"

section \<open>The workers\<close>

text \<open>
  One round of \<open>bus_worker_thread\<close>: \<open>bus_take\<close> under the queue's mutex (\<open>Ret None\<close>: the thread
  leaves its loop), \<open>bus_finish\<close> outside it. \<open>crash\<close> is \<open>None\<close> when the callback returns;
  otherwise the signal handler jumps back and the round reports \<open>event_bus_error_ctx\<close>, the
  thread's own variable, and frees the payload.
\<close>

definition bus_take :: "bus \<Rightarrow> (bus_task option \<times> bus) outcome" where
  "bus_take b =
     (let q = g_task_event_bus_queue_t b
      in if count q = 0 \<and> \<not> g_bus_shut_down b then Blocked
         else if g_bus_shut_down b \<and> count q = 0 then Ret (None, b)
         else Ret (Some (ring_front q), b\<lparr>g_task_event_bus_queue_t := ring_drop q\<rparr>))"

record crash_env =
  crash_shift :: shift_sem
  crash_strdup_ok :: bool
  crash_ts :: string
  crash_names :: "plugin_id \<Rightarrow> string option"

definition bus_finish ::
    "crash_env option \<Rightarrow> bus_task \<Rightarrow> bus \<times> crash_log \<times> gw \<Rightarrow> (bus \<times> crash_log \<times> gw) outcome"
where
  "bus_finish crash task st =
     (case st of (b, lg) \<Rightarrow>
        let b1 = (if sub_cb (task_sub task) \<noteq> 0
                  then b\<lparr>bus_calls := bus_calls b @ [task]\<rparr> else b);
            b2 = b1\<lparr>live_payloads := live_payloads b1 - 1\<rparr>
        in (case (if sub_cb (task_sub task) \<noteq> 0 then crash else None) of
             None \<Rightarrow> Ret (b2, lg)
           | Some env \<Rightarrow>
               outcome_bind
                 (add_event_bus_critical_error (crash_shift env) (crash_strdup_ok env)
                    (crash_ts env) (crash_names env) (sub_plugin_id (task_sub task))
                    (cstr (sub_event (task_sub task))) SOURCE_EVENT_BUS event_bus_error_ctx lg)
                 (\<lambda>lg1. Ret (b2, lg1))))"

definition bus_worker_round ::
    "(bus_task \<Rightarrow> crash_env option) \<Rightarrow> bus \<times> crash_log \<times> gw
      \<Rightarrow> (bool \<times> bus \<times> crash_log \<times> gw) outcome" where
  "bus_worker_round crash st =
     (case st of (b, lg) \<Rightarrow>
        outcome_bind (bus_take b) (\<lambda>(t, b1).
          case t of
            None \<Rightarrow> Ret (False, b1, lg)
          | Some task \<Rightarrow>
              outcome_bind (bus_finish (crash task) task (b1, lg)) (\<lambda>st1. Ret (True, st1))))"

lemma bus_worker_round_count:
  assumes "bus_worker_round crash st = Ret (True, st1)"
  shows "count (g_task_event_bus_queue_t (fst st1)) < count (g_task_event_bus_queue_t (fst st))"
  using assms
  by (cases st)
    (auto simp: bus_worker_round_def bus_take_def bus_finish_def ring_drop_def Let_def
      split: if_splits option.splits)

text \<open>The whole loop of one worker, run alone: it ends waiting for a task or, after a shutdown, at
  the end of the queue.\<close>

function bus_worker_thread ::
    "(bus_task \<Rightarrow> crash_env option) \<Rightarrow> bus \<times> crash_log \<times> gw \<Rightarrow> (bus \<times> crash_log \<times> gw) outcome"
where
  "bus_worker_thread crash st =
     (case bus_worker_round crash st of
        Ret (again, st1) \<Rightarrow> if again then bus_worker_thread crash st1 else Ret st1
      | Blocked \<Rightarrow> Blocked
      | Diverges \<Rightarrow> Diverges
      | Fault f \<Rightarrow> Fault f)"
  by pat_completeness auto
termination
proof (relation "measure (\<lambda>(c, st). count (g_task_event_bus_queue_t (fst st)))", simp)
  fix crash st x again st1
  assume "bus_worker_round crash st = Ret x" "(again, st1) = x" again
  then show "((crash, st1), crash, st)
      \<in> measure (\<lambda>(c, st). count (g_task_event_bus_queue_t (fst st)))"
    using bus_worker_round_count [of crash st st1] by auto
qed

declare bus_worker_thread.simps [simp del]

section \<open>The list of subscribers\<close>

definition event_bus_entry :: "sub \<Rightarrow> string" where
  "event_bus_entry it =
     snprintf 512 (''['' @ cstr (sub_event it) @ ''] '' @ fmt_d (sub_plugin_id it) @ [NL])"

definition event_bus_get_list :: "nat \<Rightarrow> bus \<Rightarrow> string" where
  "event_bus_get_list out_buf_size b =
     fold (\<lambda>it out. list_append out_buf_size out (event_bus_entry it)) (g_head b)
       (snprintf out_buf_size (''[on_data] [event_bus]'' @ [NL] @ ''[getall]'' @ [NL]))"

section \<open>Invariant and abstraction\<close>

text \<open>
  The bus seen from outside: the tasks that wait, in order. Between calls every waiting task owns
  one live payload; every name of a subscriber is terminated, and its callback is not NULL.
\<close>

definition bus_tasks :: "bus \<Rightarrow> bus_task list" where
  "bus_tasks b = ring_list (g_task_event_bus_queue_t b)"

definition sub_ok :: "sub \<Rightarrow> bool" where
  "sub_ok s \<longleftrightarrow> NUL \<in> set (sub_event s) \<and> sub_cb s \<noteq> 0"

definition bus_inv :: "bus \<Rightarrow> bool" where
  "bus_inv b \<longleftrightarrow>
     ring_inv (g_task_event_bus_queue_t b)
   \<and> (\<forall>s\<in>set (g_head b). sub_ok s)
   \<and> (\<forall>t\<in>set (bus_tasks b). sub_ok (task_sub t))
   \<and> count (g_task_event_bus_queue_t b) \<le> live_payloads b"

definition names_event :: "plugin_id \<Rightarrow> string \<Rightarrow> sub \<Rightarrow> bool" where
  "names_event pid e s \<longleftrightarrow> sub_plugin_id s = pid \<and> cstr (sub_event s) = cstr e"

lemma bus_inv_initial: "bus_inv (bus_initial mem)"
  by (simp add: bus_inv_def bus_initial_def ring_inv_def bus_tasks_def ring_list_def)

lemma bus_find_generic:
  assumes "\<forall>s\<in>set subs. sub_ok s" "NUL \<in> set e"
  shows "bus_find T_Generic pid (Some e) subs = Ret (find (names_event pid e) subs)"
  using assms(1)
proof (induction subs)
  case (Cons s subs)
  then have s: "NUL \<in> set (sub_event s)" by (simp add: sub_ok_def)
  from s assms(2) have "\<exists>r. buf_strcmp (sub_event s) e = Ret r" by (rule buf_strcmp_returns)
  then obtain r where r: "optimized_strcmp T_Generic (sub_event s) e = Ret r"
    using s assms(2) by (auto simp: optimized_strcmp_def buf_strlen_def)
  then have "buf_strcmp (sub_event s) e = Ret r"
    using s assms(2) by (auto simp: optimized_strcmp_def buf_strlen_def split: if_splits)
  with buf_strcmp_eq_0_iff [OF s assms(2)] have "r = 0 \<longleftrightarrow> cstr (sub_event s) = cstr e" by simp
  with r Cons show ?case by (simp add: names_event_def)
qed simp

lemma bus_inv_subscribe [inv_intros]:
  assumes "bus_inv b"
  shows "bus_inv (fst (snd (bus_subscribe mok dup pid event cb user (b, g))))"
  using assms
  by (auto simp: bus_subscribe_def bus_inv_def bus_tasks_def sub_ok_def Let_def
      split: option.splits if_splits)

lemma bus_enqueue:
  assumes "bus_inv b" "sub_ok (task_sub t)" "\<not> g_bus_shut_down b"
    "count (g_task_event_bus_queue_t b) < MAX_TASKS"
  shows "\<exists>b'. enqueue_task t (b\<lparr>live_payloads := live_payloads b + 1\<rparr>) = Ret (0, b')
    \<and> bus_inv b' \<and> bus_tasks b' = bus_tasks b @ [t] \<and> g_head b' = g_head b
    \<and> live_payloads b' = live_payloads b + 1"
  using assms
  by (auto simp: enqueue_task_def bus_inv_def bus_tasks_def ring_inv_put ring_list_put)
    (simp add: ring_put_def Let_def)

lemma bus_round_ok:
  assumes "bus_inv b" "bus_tasks b = t # ts" "crash t = None"
  shows "\<exists>b'. bus_worker_round crash (b, lg) = Ret (True, b', lg) \<and> bus_inv b'
    \<and> bus_tasks b' = ts \<and> bus_calls b' = bus_calls b @ [t]
    \<and> live_payloads b' = live_payloads b - 1 \<and> g_bus_shut_down b' = g_bus_shut_down b"
proof -
  let ?q = "g_task_event_bus_queue_t b"
  have ne: "0 < count ?q" using assms(2) by (metis bus_tasks_def length_ring_list length_greater_0_conv list.discI)
  have inv: "ring_inv ?q" using assms(1) by (simp add: bus_inv_def)
  from ring_list_drop [OF inv ne] assms(2)
  have f: "ring_front ?q = t" "ring_list (ring_drop ?q) = ts" by (simp_all add: bus_tasks_def)
  have cb: "sub_cb (task_sub t) \<noteq> 0" using assms(1,2) by (simp add: bus_inv_def sub_ok_def)
  have c: "count (ring_drop ?q) = count ?q - 1" by (simp add: ring_drop_def Let_def)
  show ?thesis
    using ne f cb assms c ring_inv_drop [OF inv ne]
    by (auto simp: bus_worker_round_def bus_take_def bus_finish_def Let_def bus_inv_def bus_tasks_def)
qed

lemma bus_worker_thread_drains:
  assumes "bus_inv b" "g_bus_shut_down b" "\<forall>t. crash t = None"
  shows "\<exists>b'. bus_worker_thread crash (b, lg) = Ret (b', lg) \<and> bus_tasks b' = []
    \<and> bus_calls b' = bus_calls b @ bus_tasks b \<and> bus_inv b' \<and> g_bus_shut_down b'
    \<and> live_payloads b' + length (bus_tasks b) = live_payloads b"
  using assms
proof (induction "bus_tasks b" arbitrary: b)
  case Nil
  have "ring_list (g_task_event_bus_queue_t b) = []" using Nil.hyps by (simp add: bus_tasks_def)
  then have "count (g_task_event_bus_queue_t b) = 0" by simp
  with Nil show ?case
    by (simp add: bus_worker_thread.simps [of _ "(b, lg)"] bus_worker_round_def bus_take_def)
next
  case (Cons t ts)
  from bus_round_ok [of b t ts crash lg] Cons.prems Cons.hyps(2) obtain b1 where b1:
    "bus_worker_round crash (b, lg) = Ret (True, b1, lg)" "bus_inv b1" "bus_tasks b1 = ts"
    "bus_calls b1 = bus_calls b @ [t]" "live_payloads b1 = live_payloads b - 1"
    "g_bus_shut_down b1"
    by (metis (full_types))
  have "length (bus_tasks b) \<le> live_payloads b"
    using Cons.prems(1) by (simp add: bus_inv_def bus_tasks_def)
  then have len: "Suc (length ts) \<le> live_payloads b" by (simp flip: Cons.hyps(2))
  have "bus_worker_thread crash (b, lg) = bus_worker_thread crash (b1, lg)"
    using b1(1) by (simp add: bus_worker_thread.simps [of crash "(b, lg)"])
  moreover from Cons.hyps(1) [OF b1(3) [symmetric] b1(2,6) Cons.prems(3)] obtain b2 where
    "bus_worker_thread crash (b1, lg) = Ret (b2, lg)" "bus_tasks b2 = []" "bus_inv b2" "g_bus_shut_down b2"
    "bus_calls b2 = bus_calls b1 @ bus_tasks b1"
    "live_payloads b2 + length (bus_tasks b1) = live_payloads b1" by blast
  ultimately show ?case
    using b1(3-5) len by (intro exI [of _ b2]) (simp flip: Cons.hyps(2))
qed

section \<open>Properties\<close>



text \<open>
  C2. The task queue is a first-in first-out queue of at most \<open>MAX_TASKS\<close> entries: after any run of
  puts and takes that respect the two guards, what was taken followed by what still waits is
  what waited before followed by what was put.
\<close>

theorem event_bus_queue_fifo:
  assumes "ring_inv q"
    and "run_queue ring_put ring_front ring_drop (\<lambda>q. count q = MAX_TASKS) (\<lambda>q. count q = 0) ops q
      = (ins, outs, q')"
  shows "ring_inv q' \<and> ring_list q @ ins = outs @ ring_list q' \<and> count q' \<le> MAX_TASKS"
  using bus_ring.fifo [OF assms] by simp

theorem event_bus_queue_fifo_witness:
  "\<exists>q'. run_queue ring_put ring_front ring_drop (\<lambda>q. count q = MAX_TASKS) (\<lambda>q. count q = 0)
      [Put 1, Put 2, Take, Take, Take] (\<lparr>slots = \<lambda>_. 0, head = 99, tail = 99, count = 0\<rparr>)
    = ([1, 2], [1, 2 :: nat], q') \<and> ring_list q' = []"
proof -
  let ?q = "\<lparr>slots = \<lambda>_. 0, head = 99, tail = 99, count = 0\<rparr> :: nat ring"
  have inv: "ring_inv ?q" by (simp add: ring_inv_def MAX_TASKS_def)
  obtain ins outs q' where r: "run_queue ring_put ring_front ring_drop (\<lambda>q. count q = MAX_TASKS)
      (\<lambda>q. count q = 0) [Put 1, Put 2, Take, Take, Take] ?q = (ins, outs, q')"
    by (metis prod_cases3)
  from r have "ins = [1, 2]" "outs = [1, 2]"
    by (auto simp: ring_put_def ring_front_def ring_drop_def Let_def MAX_TASKS_def)
  moreover from event_bus_queue_fifo [OF inv r] have "ring_list ?q @ ins = outs @ ring_list q'"
    by simp
  ultimately show ?thesis using r by (auto simp: ring_list_def)
qed

text \<open>
  C24. \<open>bus_shutdown\<close> loses no task that is already queued: once the flag is set, a worker left to
  itself calls the callback of every waiting task, in order, frees its payload and leaves its
  loop, however long the queue; afterwards no subscriber is left and no waiting payload.
\<close>

theorem bus_shutdown_drains:
  assumes "bus_inv b" "\<forall>t. crash t = None"
  shows "\<exists>b'. bus_worker_thread crash (bus_shutdown_begin b, lg) = Ret (b', lg)
    \<and> bus_calls b' = bus_calls b @ bus_tasks b \<and> bus_tasks b' = []
    \<and> live_payloads (bus_shutdown_end b') + length (bus_tasks b) = live_payloads b
    \<and> g_head (bus_shutdown_end b') = []"
proof -
  let ?b = "bus_shutdown_begin b"
  have "bus_inv ?b" "g_bus_shut_down ?b" "bus_tasks ?b = bus_tasks b"
    "bus_calls ?b = bus_calls b" "live_payloads ?b = live_payloads b"
    using assms(1) by (simp_all add: bus_shutdown_begin_def bus_inv_def bus_tasks_def)
  from bus_worker_thread_drains [OF this(1,2) assms(2), of lg] this(3-5) show ?thesis
    by (auto simp: bus_shutdown_end_def Let_def bus_tasks_def bus_shutdown_begin_def)
qed

theorem bus_shutdown_drains_witness:
  "let t = \<lparr> task_data = ''ab'', task_len = 2,
             task_sub = \<lparr> sub_event = ''tick'' @ [NUL], sub_plugin_id = 7, sub_event_id = 1,
                          sub_cb = 100, sub_user = 0 \<rparr> \<rparr>
   in \<exists>b'. bus_worker_thread (\<lambda>_. None)
        (bus_shutdown_begin (bus_initial (\<lambda>_. t)\<lparr>g_task_event_bus_queue_t :=
            \<lparr>slots = (\<lambda>_. t), head = 99, tail = 0, count = 1\<rparr>, live_payloads := 1\<rparr>),
         crash_log_initial, gw_initial) = Ret (b', crash_log_initial, gw_initial)
      \<and> bus_calls b' = [t]"
proof -
  let ?t = "\<lparr> task_data = ''ab'', task_len = 2,
             task_sub = \<lparr> sub_event = ''tick'' @ [NUL], sub_plugin_id = 7, sub_event_id = 1,
                          sub_cb = 100, sub_user = 0 \<rparr> \<rparr>"
  let ?b = "bus_initial (\<lambda>_. ?t)\<lparr>g_task_event_bus_queue_t :=
            \<lparr>slots = (\<lambda>_. ?t), head = 99, tail = 0, count = 1\<rparr>, live_payloads := 1\<rparr>"
  have "bus_inv ?b" "bus_tasks ?b = [?t]" "bus_calls ?b = []"
    by (simp_all add: bus_inv_def bus_tasks_def bus_initial_def ring_inv_def ring_list_def
        MAX_TASKS_def sub_ok_def)
  with bus_shutdown_drains [of ?b "\<lambda>_. None" "(crash_log_initial, gw_initial)"]
  show ?thesis unfolding Let_def by auto
qed

text \<open>
  C39. The flag of a shutdown is never taken back. A publish that finds a subscriber while it is set
  returns 0 although \<open>enqueue_task\<close> refused the task: nothing is queued and the payload stays
  allocated for ever. And after a successful \<open>bus_init\<close> that follows the shutdown the new
  workers leave at once, so no event is ever delivered again.
\<close>

theorem bus_shutdown_is_final:
  assumes "bus_inv b" "NUL \<in> set e" "pid \<noteq> PLUGIN_ID_INVALID" "0 < len" "len \<le> length d"
    and "find (names_event pid e) (g_head b) \<noteq> None"
  shows "(\<exists>b'. bus_publish T_Generic True pid (Some e) (Some d) len (bus_shutdown_begin b, g)
          = Ret (0, b', g) \<and> bus_tasks b' = bus_tasks b \<and> live_payloads b' = live_payloads b + 1)
    \<and> (let b1 = snd (bus_init True (\<lambda>_. True) (bus_shutdown_end (bus_shutdown_begin b)))
       in fst (bus_init True (\<lambda>_. True) (bus_shutdown_end (bus_shutdown_begin b))) = 0
        \<and> thread_count b1 = MAX_INIT_EVENT_BUS_THREADS
        \<and> bus_worker_round crash (b1, lg) = Ret (False, b1, lg))"
proof
  obtain it where it: "find (names_event pid e) (g_head b) = Some it" using assms(6) by auto
  have "bus_find T_Generic pid (Some e) (g_head b) = Ret (Some it)"
    using assms(1,2) by (simp add: bus_find_generic bus_inv_def it)
  with assms(3-5) show "\<exists>b'. bus_publish T_Generic True pid (Some e) (Some d) len
      (bus_shutdown_begin b, g) = Ret (0, b', g)
      \<and> bus_tasks b' = bus_tasks b \<and> live_payloads b' = live_payloads b + 1"
    by (auto simp: bus_publish_def bus_shutdown_begin_def enqueue_task_def bus_tasks_def Let_def)
next
  have "map (\<lambda>_. True) [0..<MAX_INIT_EVENT_BUS_THREADS] = [True, True, True, True, True]"
    by (simp add: MAX_INIT_EVENT_BUS_THREADS_def numeral_eq_Suc)
  then show "let b1 = snd (bus_init True (\<lambda>_. True) (bus_shutdown_end (bus_shutdown_begin b)))
       in fst (bus_init True (\<lambda>_. True) (bus_shutdown_end (bus_shutdown_begin b))) = 0
        \<and> thread_count b1 = MAX_INIT_EVENT_BUS_THREADS
        \<and> bus_worker_round crash (b1, lg) = Ret (False, b1, lg)"
    by (simp add: bus_init_def bus_shutdown_end_def bus_shutdown_begin_def Let_def
        bus_worker_round_def bus_take_def ring_reset_def MAX_INIT_EVENT_BUS_THREADS_def)
qed

theorem bus_shutdown_is_final_witness:
  "\<exists>b'. bus_publish T_Generic True 7 (Some (''tick'' @ [NUL])) (Some ''abc'') 2
      (bus_shutdown_begin (bus_initial (\<lambda>_. undefined)\<lparr>g_head :=
        [\<lparr> sub_event = ''tick'' @ [NUL],
         sub_plugin_id = 7, sub_event_id = 1, sub_cb = 100, sub_user = 0 \<rparr>]\<rparr>), gw_initial)
    = Ret (0, b', gw_initial) \<and> bus_tasks b' = [] \<and> live_payloads b' = 1"
proof -
  let ?b = "bus_initial (\<lambda>_. undefined)\<lparr>g_head :=
        [\<lparr> sub_event = ''tick'' @ [NUL],
         sub_plugin_id = 7, sub_event_id = 1, sub_cb = 100, sub_user = 0 \<rparr>]\<rparr>"
  have "bus_inv ?b" "find (names_event 7 (''tick'' @ [NUL])) (g_head ?b) \<noteq> None"
    "bus_tasks ?b = []" "live_payloads ?b = 0"
    by (simp_all add: bus_inv_def bus_initial_def ring_inv_def bus_tasks_def ring_list_def sub_ok_def
        names_event_def)
  moreover have "NUL \<in> set (''tick'' @ [NUL])" "(7::plugin_id) \<noteq> PLUGIN_ID_INVALID" "(0::nat) < 2"
    "2 \<le> length ''abc''" by (simp_all add: PLUGIN_ID_INVALID_def)
  ultimately show ?thesis
    using bus_shutdown_is_final [of ?b "''tick'' @ [NUL]" 7 2 "''abc''" gw_initial] by simp
qed

text \<open>
  The list of subscribers is the text of all entries, newest subscriber first, cut to the
  caller's buffer: no entry is reordered or repeated, and only the end is lost.
\<close>

theorem event_bus_get_list_prefix:
  "event_bus_get_list n b =
     take (n - 1) (''[on_data] [event_bus]'' @ [NL] @ ''[getall]'' @ [NL]
       @ concat (map event_bus_entry (g_head b)))"
proof -
  let ?h = "''[on_data] [event_bus]'' @ [NL] @ ''[getall]'' @ [NL]"
  have "NUL \<notin> set (take (n - 1) ?h)" by (rule contra_subsetD [OF set_take_subset]) simp
  then have "snprintf n ?h = take (n - 1) ?h" unfolding snprintf_def by (rule cstr_id)
  then show ?thesis
    unfolding event_bus_get_list_def by (simp only: fold_list_append append_assoc)
qed

end
