(* ===== verification/BusSystem.thy ===== *)
theory BusSystem
  imports EventBus
begin

text \<open>
  The event bus with its threads: the five workers of src/core/event_bus.c and \<open>n\<close> threads of the
  application that publish, interleaved at the points where the code takes and gives back its
  mutexes.

  A step is what a thread does between two such points, as EventBus describes it. \<open>sub_mutex\<close> is
  held across steps, by a publisher that is inside \<open>enqueue_task\<close>, so its owner is part of the
  state. The queue's mutex is never held across a step: a thread that waits on one of the two
  conditions has given it back, and is a thread whose step is not enabled. \<open>prog\<close> is what a callback
  does with the bus: the events it publishes, one after the other. The code is that of a target
  without vector units.
\<close>

section \<open>States\<close>

datatype thread = Worker nat | Publisher nat

record request =
  req_plugin :: plugin_id
  req_event :: "string option"
  req_data :: "string option"
  req_len :: nat

text \<open>Where a callback goes on when its publish returns; \<open>None\<close> is the application's own thread.\<close>

type_synonym return_to = "(bus_task \<times> request list) option"

text \<open>
  \<open>Idle\<close> is the top of a worker's loop, or a publisher outside the bus. \<open>Locking\<close> is before
  \<open>pthread_mutex_lock(&sub_mutex)\<close>, \<open>Filling\<close> is in \<open>enqueue_task\<close>, \<open>Running\<close> in a callback that
  still has these events to publish, \<open>Gone\<close> a thread that has ended.
\<close>

datatype pc =
    Idle
  | Locking request return_to
  | Filling bus_task return_to
  | Running bus_task "request list"
  | Gone

record bus_sys =
  sys_bus :: bus
  sys_gw :: gw
  sub_owner :: "thread option"
  pcs :: "thread \<Rightarrow> pc"

definition sys_initial :: "nat \<Rightarrow> bus \<Rightarrow> gw \<Rightarrow> bus_sys" where
  "sys_initial n b g =
     \<lparr> sys_bus = b, sys_gw = g, sub_owner = None,
       pcs = (\<lambda>t. case t of Worker i \<Rightarrow> if i < MAX_INIT_EVENT_BUS_THREADS then Idle else Gone
                          | Publisher i \<Rightarrow> if i < n then Idle else Gone) \<rparr>"

fun resume :: "return_to \<Rightarrow> pc" where
  "resume None = Idle"
| "resume (Some (task, todo)) = Running task todo"

section \<open>The two halves of a publish\<close>

text \<open>The checks in front of the mutex, and the search under it.\<close>

definition publish_check :: "request \<Rightarrow> c_int" where
  "publish_check r =
     (if req_plugin r = PLUGIN_ID_INVALID then BUS_PUBLISH_ERR_INVALID_PLUGIN_ID
      else if req_data r = None then BUS_PUBLISH_ERR_INVALID_DATA
      else if req_len r = 0 then BUS_PUBLISH_ERR_INVALID_LENGTH
      else 0)"

datatype search_result = Search_task bus_task bus | Search_failed c_int gw

definition publish_search :: "simd_target \<Rightarrow> bool \<Rightarrow> request \<Rightarrow> bus \<times> gw \<Rightarrow> search_result outcome" where
  "publish_search tgt malloc_ok r st =
     (case st of (b, g) \<Rightarrow>
        outcome_bind (bus_find tgt (req_plugin r) (req_event r) (g_head b)) (\<lambda>found.
          case found of
            Some it \<Rightarrow>
              if \<not> malloc_ok then Ret (Search_failed BUS_PUBLISH_ERR_MALLOC_FAILED g)
              else if length (the (req_data r)) < req_len r then Fault OutOfBounds
              else Ret (Search_task
                     \<lparr> task_data = take (req_len r) (the (req_data r)), task_len = req_len r, task_sub = it \<rparr>
                     (b\<lparr>live_payloads := live_payloads b + 1\<rparr>))
          | None \<Rightarrow>
              Ret (Search_failed BUS_PUBLISH_ERR_EVENT_NOT_FOUND
                (gateway_report EVENT_BUS_API
                   (''[publish] '' @ fmt_d (req_plugin r) @ '' ['' @ fmt_s (map_option cstr (req_event r)) @ '']'') g))))"

text \<open>Run without interruption, the halves are \<open>bus_publish\<close>.\<close>

lemma bus_publish_halves:
  "bus_publish tgt malloc_ok (req_plugin r) (req_event r) (req_data r) (req_len r) (b, g) =
     (if publish_check r \<noteq> 0 then Ret (publish_check r, b, g)
      else outcome_bind (publish_search tgt malloc_ok r (b, g)) (\<lambda>res.
        case res of
          Search_task task b1 \<Rightarrow> outcome_bind (enqueue_task task b1) (\<lambda>(_, b2). Ret (0, b2, g))
        | Search_failed c g1 \<Rightarrow> Ret (c, b, g1)))"
  by (cases "bus_find tgt (req_plugin r) (req_event r) (g_head b)")
    (auto simp: bus_publish_def publish_check_def publish_search_def bus_codes Let_def split: option.splits)

section \<open>Steps\<close>

text \<open>What the threads of the bus do by themselves.\<close>

inductive bus_work :: "(bus_task \<Rightarrow> request list) \<Rightarrow> bus_sys \<Rightarrow> bus_sys \<Rightarrow> bool" for prog where
  lock: "pcs s t = Locking r k \<Longrightarrow> sub_owner s = None
    \<Longrightarrow> publish_search T_Generic mok r (sys_bus s, sys_gw s) = Ret (Search_task task b)
    \<Longrightarrow> bus_work prog s (s\<lparr>sys_bus := b, sub_owner := Some t, pcs := (pcs s)(t := Filling task k)\<rparr>)"
| miss: "pcs s t = Locking r k \<Longrightarrow> sub_owner s = None
    \<Longrightarrow> publish_search T_Generic mok r (sys_bus s, sys_gw s) = Ret (Search_failed c g)
    \<Longrightarrow> bus_work prog s (s\<lparr>sys_gw := g, pcs := (pcs s)(t := resume k)\<rparr>)"
| fill: "pcs s t = Filling task k \<Longrightarrow> enqueue_task task (sys_bus s) = Ret (c, b)
    \<Longrightarrow> bus_work prog s (s\<lparr>sys_bus := b, sub_owner := None, pcs := (pcs s)(t := resume k)\<rparr>)"
| take: "pcs s (Worker i) = Idle \<Longrightarrow> bus_take (sys_bus s) = Ret (Some task, b)
    \<Longrightarrow> bus_work prog s (s\<lparr>sys_bus := b, pcs := (pcs s)(Worker i := Running task (prog task))\<rparr>)"
| leave: "pcs s (Worker i) = Idle \<Longrightarrow> bus_take (sys_bus s) = Ret (None, b)
    \<Longrightarrow> bus_work prog s (s\<lparr>sys_bus := b, pcs := (pcs s)(Worker i := Gone)\<rparr>)"
| nest: "pcs s t = Running task (r # todo) \<Longrightarrow> publish_check r = 0
    \<Longrightarrow> bus_work prog s (s\<lparr>pcs := (pcs s)(t := Locking r (Some (task, todo)))\<rparr>)"
| refuse: "pcs s t = Running task (r # todo) \<Longrightarrow> publish_check r \<noteq> 0
    \<Longrightarrow> bus_work prog s (s\<lparr>pcs := (pcs s)(t := Running task todo)\<rparr>)"
| finish: "pcs s t = Running task [] \<Longrightarrow> bus_finish None task (sys_bus s, cl, sys_gw s) = Ret (b, cl, g)
    \<Longrightarrow> bus_work prog s (s\<lparr>sys_bus := b, pcs := (pcs s)(t := Idle)\<rparr>)"

text \<open>
  What comes from outside: a thread of the application calls \<open>bus_publish\<close>, with an event that is a
  string and as many bytes of data as it says, somebody subscribes, somebody shuts the bus down.
\<close>

definition req_ok :: "request \<Rightarrow> bool" where
  "req_ok r \<longleftrightarrow> (\<exists>e d. req_event r = Some e \<and> NUL \<in> set e \<and> req_data r = Some d \<and> req_len r \<le> length d)"

inductive bus_input :: "bus_sys \<Rightarrow> bus_sys \<Rightarrow> bool" where
  call: "pcs s (Publisher i) = Idle \<Longrightarrow> req_ok r \<Longrightarrow> publish_check r = 0
    \<Longrightarrow> bus_input s (s\<lparr>pcs := (pcs s)(Publisher i := Locking r None)\<rparr>)"
| subscribe: "sub_owner s = None
    \<Longrightarrow> bus_subscribe mok dup pid event cb user (sys_bus s, sys_gw s) = (c, b, g)
    \<Longrightarrow> bus_input s (s\<lparr>sys_bus := b, sys_gw := g\<rparr>)"
| stop: "bus_input s (s\<lparr>sys_bus := bus_shutdown_begin (sys_bus s)\<rparr>)"

definition bus_step :: "(bus_task \<Rightarrow> request list) \<Rightarrow> bus_sys \<Rightarrow> bus_sys \<Rightarrow> bool" where
  "bus_step prog s s' \<longleftrightarrow> bus_work prog s s' \<or> bus_input s s'"

inductive bus_reach :: "nat \<Rightarrow> (bus_task \<Rightarrow> request list) \<Rightarrow> bus_sys \<Rightarrow> bool" for n prog where
  reach_start: "bus_inv b \<Longrightarrow> bus_tasks b = [] \<Longrightarrow> live_payloads b = 0 \<Longrightarrow> \<not> g_bus_shut_down b
    \<Longrightarrow> bus_reach n prog (sys_initial n b g)"
| reach_step: "bus_reach n prog s \<Longrightarrow> bus_step prog s s' \<Longrightarrow> bus_reach n prog s'"

section \<open>The invariant\<close>

definition bus_wf :: "bus \<Rightarrow> bool" where
  "bus_wf b \<longleftrightarrow> ring_inv (g_task_event_bus_queue_t b) \<and> (\<forall>s\<in>set (g_head b). sub_ok s)
     \<and> (\<forall>t\<in>set (bus_tasks b). sub_ok (task_sub t))"

definition threads :: "nat \<Rightarrow> thread set" where
  "threads n = Worker ` {..<MAX_INIT_EVENT_BUS_THREADS} \<union> Publisher ` {..<n}"

fun filling :: "pc \<Rightarrow> bool" where
  "filling (Filling task k) = True"
| "filling _ = False"

text \<open>The payloads a thread has to free or to hand on.\<close>

fun held :: "pc \<Rightarrow> nat" where
  "held (Locking r k) = (if k = None then 0 else 1)"
| "held (Filling task k) = (if k = None then 1 else 2)"
| "held (Running task todo) = 1"
| "held _ = 0"

definition in_flight :: "nat \<Rightarrow> bus_sys \<Rightarrow> nat" where
  "in_flight n s = (\<Sum>t\<in>threads n. held (pcs s t))"

fun return_ok :: "return_to \<Rightarrow> bool" where
  "return_ok None = True"
| "return_ok (Some (task, todo)) = (sub_ok (task_sub task) \<and> (\<forall>r\<in>set todo. req_ok r))"

fun pc_ok :: "pc \<Rightarrow> bool" where
  "pc_ok (Locking r k) = (req_ok r \<and> return_ok k)"
| "pc_ok (Filling task k) = (sub_ok (task_sub task) \<and> return_ok k)"
| "pc_ok (Running task todo) = (sub_ok (task_sub task) \<and> (\<forall>r\<in>set todo. req_ok r))"
| "pc_ok _ = True"

text \<open>Workers publish from callbacks only, publishers have none.\<close>

fun fits :: "thread \<Rightarrow> pc \<Rightarrow> bool" where
  "fits (Worker i) (Locking r k) = (k \<noteq> None)"
| "fits (Worker i) (Filling task k) = (k \<noteq> None)"
| "fits (Worker i) _ = True"
| "fits (Publisher i) (Locking r k) = (k = None)"
| "fits (Publisher i) (Filling task k) = (k = None)"
| "fits (Publisher i) p = (p = Idle)"

abbreviation queued :: "bus \<Rightarrow> nat" where
  "queued b \<equiv> count (g_task_event_bus_queue_t b)"

definition sys_inv :: "nat \<Rightarrow> bus_sys \<Rightarrow> bool" where
  "sys_inv n s \<longleftrightarrow> bus_wf (sys_bus s)
     \<and> (\<forall>t. t \<notin> threads n \<longrightarrow> pcs s t = Gone)
     \<and> (\<forall>t\<in>threads n. fits t (pcs s t) \<and> pc_ok (pcs s t))
     \<and> (\<forall>t. filling (pcs s t) \<longleftrightarrow> sub_owner s = Some t)
     \<and> (\<forall>t\<in>threads n. pcs s t = Gone \<longrightarrow> g_bus_shut_down (sys_bus s) \<and> queued (sys_bus s) = 0)
     \<and> queued (sys_bus s) + in_flight n s \<le> live_payloads (sys_bus s)
     \<and> (\<not> g_bus_shut_down (sys_bus s) \<longrightarrow>
          live_payloads (sys_bus s) = queued (sys_bus s) + in_flight n s)"

lemma finite_threads [simp]: "finite (threads n)"
  by (simp add: threads_def)

lemma sys_inv_initial:
  assumes "bus_inv b" "bus_tasks b = []" "live_payloads b = 0"
  shows "sys_inv n (sys_initial n b g)"
proof -
  have "queued b = 0" using assms(2) by (metis bus_tasks_def length_ring_list list.size(3))
  moreover have "in_flight n (sys_initial n b g) = 0"
    by (auto simp: in_flight_def sys_initial_def threads_def intro!: sum.neutral split: thread.splits)
  ultimately show ?thesis
    using assms
    by (auto simp: sys_inv_def sys_initial_def bus_wf_def bus_inv_def threads_def split: thread.splits)
qed

lemma in_flight_update:
  assumes "t \<in> threads n"
  shows "in_flight n (s\<lparr>pcs := (pcs s)(t := p)\<rparr>) + held (pcs s t) = in_flight n s + held p"
  using sum_fun_upd [OF finite_threads assms, of held "pcs s" p] by (simp add: in_flight_def)

lemma in_flight_fields [simp]:
  "in_flight n (s\<lparr>sys_bus := b\<rparr>) = in_flight n s" "in_flight n (s\<lparr>sys_gw := g\<rparr>) = in_flight n s"
  "in_flight n (s\<lparr>sub_owner := w\<rparr>) = in_flight n s"
  by (simp_all add: in_flight_def)

text \<open>One thread moves: what is left to check for it.\<close>

lemma sys_inv_move:
  assumes inv: "sys_inv n s" and t: "t \<in> threads n" and wf: "bus_wf b"
    and p: "fits t p" "pc_ok p"
    and own: "w = (if filling p then Some t else if filling (pcs s t) then None else sub_owner s)"
      "filling p \<longrightarrow> sub_owner s = None"
    and gone: "g_bus_shut_down (sys_bus s) \<and> queued (sys_bus s) = 0 \<or> p = Gone
      \<longrightarrow> g_bus_shut_down b \<and> queued b = 0"
    and live: "queued b + held p + live_payloads (sys_bus s)
        \<le> live_payloads b + queued (sys_bus s) + held (pcs s t)"
      "\<not> g_bus_shut_down b \<longrightarrow> \<not> g_bus_shut_down (sys_bus s)
        \<and> queued b + held p + live_payloads (sys_bus s) = live_payloads b + queued (sys_bus s) + held (pcs s t)"
  shows "sys_inv n (s\<lparr>sys_bus := b, sys_gw := g, sub_owner := w, pcs := (pcs s)(t := p)\<rparr>)"
proof -
  let ?s = "s\<lparr>sys_bus := b, sys_gw := g, sub_owner := w, pcs := (pcs s)(t := p)\<rparr>"
  have "in_flight n ?s = in_flight n (s\<lparr>pcs := (pcs s)(t := p)\<rparr>)" by (simp add: in_flight_def)
  with in_flight_update [OF t, of s p]
  have fl: "in_flight n ?s + held (pcs s t) = in_flight n s + held p" by simp
  have o: "filling (pcs s u) \<longleftrightarrow> sub_owner s = Some u" for u using inv by (simp add: sys_inv_def)
  have "filling (pcs ?s u) \<longleftrightarrow> sub_owner ?s = Some u" for u
    using o [of u] o [of t] own by auto
  moreover have "pcs ?s u = Gone \<Longrightarrow> u \<in> threads n \<Longrightarrow> g_bus_shut_down b \<and> queued b = 0" for u
    using inv gone by (cases "u = t") (auto simp: sys_inv_def)
  moreover have "queued b + in_flight n ?s \<le> live_payloads b"
    "\<not> g_bus_shut_down b \<Longrightarrow> live_payloads b = queued b + in_flight n ?s"
    using inv fl live by (auto simp: sys_inv_def)
  ultimately show ?thesis
    using inv wf p t by (auto simp: sys_inv_def)
qed

lemma sys_inv_move_free:
  assumes "sys_inv n s" "t \<in> threads n" "bus_wf b" "fits t p" "pc_ok p" "\<not> filling p" "\<not> filling (pcs s t)"
    and "g_bus_shut_down (sys_bus s) \<and> queued (sys_bus s) = 0 \<or> p = Gone \<longrightarrow> g_bus_shut_down b \<and> queued b = 0"
    and "queued b + held p + live_payloads (sys_bus s)
        = live_payloads b + queued (sys_bus s) + held (pcs s t)" "g_bus_shut_down b = g_bus_shut_down (sys_bus s)"
  shows "sys_inv n (s\<lparr>sys_bus := b, sys_gw := g, pcs := (pcs s)(t := p)\<rparr>)"
  using sys_inv_move [OF assms(1-5), of "sub_owner s" g] assms(6-) by simp

lemma search_returns:
  assumes "bus_wf b" "req_ok r"
  shows "\<exists>res. publish_search T_Generic mok r (b, g) = Ret res"
proof -
  obtain e d where "req_event r = Some e" "NUL \<in> set e" "req_data r = Some d" "req_len r \<le> length d"
    using assms(2) by (auto simp: req_ok_def)
  then show ?thesis
    using assms(1) bus_find_generic [of "g_head b" e "req_plugin r"]
    by (auto simp: publish_search_def bus_wf_def split: option.splits)
qed

lemma search_task:
  assumes "bus_wf b" "req_ok r" "publish_search T_Generic mok r (b, g) = Ret (Search_task task b1)"
  shows "sub_ok (task_sub task) \<and> b1 = b\<lparr>live_payloads := live_payloads b + 1\<rparr>"
proof -
  obtain e where "req_event r = Some e" "NUL \<in> set e" using assms(2) by (auto simp: req_ok_def)
  then show ?thesis
    using assms(1,3) bus_find_generic [of "g_head b" e "req_plugin r"]
    by (auto simp: publish_search_def bus_wf_def split: option.splits if_splits dest: find_Some_mem)
qed

lemma bus_wf_live [simp]: "bus_wf (b\<lparr>live_payloads := l\<rparr>) = bus_wf b"
  by (simp add: bus_wf_def bus_tasks_def)

lemma enqueue_ret:
  assumes "bus_wf b" "sub_ok (task_sub task)" "enqueue_task task b = Ret (c, b1)"
  shows "bus_wf b1 \<and> live_payloads b1 = live_payloads b \<and> g_bus_shut_down b1 = g_bus_shut_down b
    \<and> queued b1 = queued b + (if g_bus_shut_down b then 0 else 1)"
proof (cases "g_bus_shut_down b")
  case True
  with assms show ?thesis by (auto simp: enqueue_task_def)
next
  case False
  let ?q = "g_task_event_bus_queue_t b"
  have q: "ring_inv ?q" using assms(1) by (simp add: bus_wf_def)
  have "count ?q < MAX_TASKS" using False assms(3) ring_inv_le [OF q] by (auto simp: enqueue_task_def split: if_splits)
  with False assms q show ?thesis
    by (auto simp: enqueue_task_def bus_wf_def bus_tasks_def ring_inv_put ring_list_put)
      (simp_all add: ring_put_def Let_def)
qed

lemma take_some:
  assumes "bus_wf b" "bus_take b = Ret (Some task, b1)"
  shows "bus_wf b1 \<and> sub_ok (task_sub task) \<and> queued b = queued b1 + 1 \<and> live_payloads b1 = live_payloads b
    \<and> g_bus_shut_down b1 = g_bus_shut_down b \<and> bus_tasks b = task # bus_tasks b1 \<and> g_head b1 = g_head b"
proof -
  let ?q = "g_task_event_bus_queue_t b"
  have q: "ring_inv ?q" "0 < count ?q" using assms by (auto simp: bus_wf_def bus_take_def Let_def split: if_splits)
  have b1: "task = ring_front ?q" "b1 = b\<lparr>g_task_event_bus_queue_t := ring_drop ?q\<rparr>"
    using assms(2) by (auto simp: bus_take_def Let_def split: if_splits)
  have "count ?q = count (ring_drop ?q) + 1" using q(2) by (simp add: ring_drop_def Let_def)
  with assms(1) b1 ring_inv_drop [OF q] ring_list_drop [OF q] show ?thesis
    by (auto simp: bus_wf_def bus_tasks_def)
qed

lemma take_none: "bus_take b = Ret (None, b1) \<Longrightarrow> b1 = b \<and> g_bus_shut_down b \<and> queued b = 0"
  by (auto simp: bus_take_def Let_def split: if_splits)

lemma finish_ret:
  assumes "bus_finish None task (b, cl, g) = Ret (b1, cl1, g1)" "bus_wf b"
  shows "bus_wf b1 \<and> queued b1 = queued b \<and> live_payloads b1 = live_payloads b - 1
    \<and> g_bus_shut_down b1 = g_bus_shut_down b \<and> bus_tasks b1 = bus_tasks b \<and> g_head b1 = g_head b"
  using assms by (auto simp: bus_finish_def Let_def bus_wf_def bus_tasks_def split: if_splits)

lemma finish_returns: "\<exists>b1. bus_finish None task (b, cl, g) = Ret (b1, cl, g)"
  by (simp add: bus_finish_def Let_def)

lemma resume_ok: "return_ok k \<Longrightarrow> pc_ok (resume k)" "fits t (Locking r k) \<Longrightarrow> fits t (resume k)"
  "fits t (Filling task k) \<Longrightarrow> fits t (resume k)" "\<not> filling (resume k)" "resume k \<noteq> Gone"
  "held (resume k) = (if k = None then 0 else 1)"
  by (cases k; cases t; force)+

lemma sys_inv_thread:
  assumes "sys_inv n s" "pcs s t \<noteq> Gone"
  shows "t \<in> threads n \<and> fits t (pcs s t) \<and> pc_ok (pcs s t) \<and> (filling (pcs s t) \<longleftrightarrow> sub_owner s = Some t)
    \<and> bus_wf (sys_bus s)"
  using assms by (auto simp: sys_inv_def)

lemma held_live:
  assumes "sys_inv n s" "t \<in> threads n"
  shows "queued (sys_bus s) + held (pcs s t) \<le> live_payloads (sys_bus s)"
proof -
  have "held (pcs s t) \<le> in_flight n s" unfolding in_flight_def by (rule member_le_sum) (use assms in auto)
  with assms(1) show ?thesis by (simp add: sys_inv_def)
qed

text \<open>Callbacks publish well-formed requests.\<close>

definition prog_ok :: "(bus_task \<Rightarrow> request list) \<Rightarrow> bool" where
  "prog_ok prog \<longleftrightarrow> (\<forall>task. \<forall>r\<in>set (prog task). req_ok r)"

lemma work_inv:
  assumes "bus_work prog s s'" "sys_inv n s" "prog_ok prog"
  shows "sys_inv n s'"
  using assms(1)
proof cases
  case (lock t r k mok task b)
  then have t: "t \<in> threads n" "fits t (Locking r k)" "req_ok r" "return_ok k" "bus_wf (sys_bus s)"
    using sys_inv_thread [OF assms(2), of t] by auto
  from search_task [OF t(5,3) lock(4)] lock t
  show ?thesis
    unfolding lock(1)
    using sys_inv_move [OF assms(2) t(1), of b "Filling task k" "Some t" "sys_gw s"]
    by (cases t) (auto split: if_splits)
next
  case (miss t r k mok c g)
  then have t: "t \<in> threads n" "fits t (Locking r k)" "return_ok k" "bus_wf (sys_bus s)" "sub_owner s \<noteq> Some t"
    using sys_inv_thread [OF assms(2), of t] by auto
  show ?thesis
    unfolding miss(1)
    using sys_inv_move_free [OF assms(2) t(1), of "sys_bus s" "resume k" g] miss t
    by (auto simp: resume_ok)
next
  case (fill t task k c b)
  then have t: "t \<in> threads n" "fits t (Filling task k)" "sub_ok (task_sub task)" "return_ok k" "bus_wf (sys_bus s)"
    using sys_inv_thread [OF assms(2), of t] by auto
  from enqueue_ret [OF t(5,3) fill(3)] held_live [OF assms(2) t(1)] show ?thesis
    unfolding fill(1)
    using sys_inv_move [OF assms(2) t(1), of b "resume k" None "sys_gw s"] fill t
    by (auto simp: resume_ok split: if_splits)
next
  case (take i task b)
  then have t: "Worker i \<in> threads n" "bus_wf (sys_bus s)" "sub_owner s \<noteq> Some (Worker i)"
    using sys_inv_thread [OF assms(2), of "Worker i"] by auto
  from take_some [OF t(2) take(3)] show ?thesis
    unfolding take(1)
    using sys_inv_move_free [OF assms(2) t(1), of b "Running task (prog task)" "sys_gw s"] take t assms(3)
    by (auto simp: prog_ok_def)
next
  case (leave i b)
  then have t: "Worker i \<in> threads n" "bus_wf (sys_bus s)" "sub_owner s \<noteq> Some (Worker i)"
    using sys_inv_thread [OF assms(2), of "Worker i"] by auto
  from take_none [OF leave(3)] show ?thesis
    unfolding leave(1)
    using sys_inv_move_free [OF assms(2) t(1), of b Gone "sys_gw s"] leave t
    by auto
next
  case (nest t task r todo)
  then have t: "t \<in> threads n" "fits t (Running task (r # todo))" "sub_ok (task_sub task)" "req_ok r"
    "\<forall>r\<in>set todo. req_ok r" "bus_wf (sys_bus s)" "sub_owner s \<noteq> Some t"
    using sys_inv_thread [OF assms(2), of t] by auto
  then show ?thesis
    unfolding nest(1)
    using sys_inv_move_free [OF assms(2) t(1), of "sys_bus s" "Locking r (Some (task, todo))" "sys_gw s"] nest
    by (cases t) auto
next
  case (refuse t task r todo)
  then have t: "t \<in> threads n" "fits t (Running task (r # todo))" "sub_ok (task_sub task)" 
    "\<forall>r\<in>set todo. req_ok r" "bus_wf (sys_bus s)" "sub_owner s \<noteq> Some t"
    using sys_inv_thread [OF assms(2), of t] by auto
  then show ?thesis
    unfolding refuse(1)
    using sys_inv_move_free [OF assms(2) t(1), of "sys_bus s" "Running task todo" "sys_gw s"] refuse
    by (cases t) auto
next
  case (finish t task cl b g)
  then have t: "t \<in> threads n" "bus_wf (sys_bus s)" "sub_owner s \<noteq> Some t"
    using sys_inv_thread [OF assms(2), of t] by auto
  have "1 \<le> live_payloads (sys_bus s)" using held_live [OF assms(2) t(1)] finish(2) by simp
  with finish_ret [OF finish(3) t(2)] show ?thesis
    unfolding finish(1)
    using sys_inv_move_free [OF assms(2) t(1), of b Idle "sys_gw s"] finish t
    by (cases t) auto
qed

lemma input_inv:
  assumes "bus_input s s'" "sys_inv n s"
  shows "sys_inv n s'"
  using assms(1)
proof cases
  case (call i r)
  then have t: "Publisher i \<in> threads n" "bus_wf (sys_bus s)" "sub_owner s \<noteq> Some (Publisher i)"
    using sys_inv_thread [OF assms(2), of "Publisher i"] by auto
  then show ?thesis
    unfolding call(1)
    using sys_inv_move_free [OF assms(2) t(1), of "sys_bus s" "Locking r None" "sys_gw s"] call by auto
next
  case (subscribe mok dup pid event cb user c b g)
  then have "g_task_event_bus_queue_t b = g_task_event_bus_queue_t (sys_bus s)" "live_payloads b = live_payloads (sys_bus s)"
    "g_bus_shut_down b = g_bus_shut_down (sys_bus s)"
    "(\<forall>s\<in>set (g_head (sys_bus s)). sub_ok s) \<longrightarrow> (\<forall>s\<in>set (g_head b). sub_ok s)"
    by (auto simp: bus_subscribe_def sub_ok_def Let_def split: option.splits if_splits)
  with assms(2) show ?thesis unfolding subscribe(1) by (auto simp: sys_inv_def bus_wf_def bus_tasks_def in_flight_def)
next
  case stop
  then show ?thesis using assms(2) by (auto simp: sys_inv_def bus_wf_def bus_tasks_def bus_shutdown_begin_def in_flight_def)
qed

lemma reach_inv: "bus_reach n prog s \<Longrightarrow> prog_ok prog \<Longrightarrow> sys_inv n s"
  by (induction rule: bus_reach.induct) (auto simp: bus_step_def sys_inv_initial intro: work_inv input_inv)

section \<open>Callbacks that do not publish\<close>

text \<open>Every step of the threads themselves uses up a unit of \<open>work_left\<close>.\<close>

fun pc_work :: "pc \<Rightarrow> nat" where
  "pc_work Gone = 0"
| "pc_work Idle = 1"
| "pc_work (Running task todo) = 2"
| "pc_work (Filling task k) = 4"
| "pc_work (Locking r k) = 5"

definition work_left :: "nat \<Rightarrow> bus_sys \<Rightarrow> nat" where
  "work_left n s = 2 * queued (sys_bus s) + (\<Sum>t\<in>threads n. pc_work (pcs s t))"

fun quiet_pc :: "pc \<Rightarrow> bool" where
  "quiet_pc (Running task todo) = (todo = [])"
| "quiet_pc (Filling task k) = (k = None)"
| "quiet_pc (Locking r k) = (k = None)"
| "quiet_pc _ = True"

definition quiet :: "(thread \<Rightarrow> pc) \<Rightarrow> bool" where
  "quiet q \<longleftrightarrow> (\<forall>t. quiet_pc (q t))"

lemma quiet_upd [simp]: "quiet q \<Longrightarrow> quiet_pc p \<Longrightarrow> quiet (q(t := p))"
  by (simp add: quiet_def)

lemma quiet_at: "quiet q \<Longrightarrow> q t = p \<Longrightarrow> quiet_pc p"
  by (auto simp: quiet_def)

lemma quiet_at_pcs:
  assumes "quiet q"
  shows "q t = Running task todo \<Longrightarrow> todo = []" "q t = Filling task k \<Longrightarrow> k = None" "q t = Locking r k \<Longrightarrow> k = None"
  using quiet_at [OF assms, of t] by auto

lemma quiet_step:
  assumes "bus_step prog s s'" "quiet (pcs s)" "\<forall>task. prog task = []"
  shows "quiet (pcs s')"
  using assms(1) unfolding bus_step_def
proof
  assume "bus_work prog s s'"
  then show ?thesis
  proof cases
    case (lock t r k mok task b)
    with quiet_at_pcs(3) [OF assms(2) lock(2)] assms(2) show ?thesis by simp
  next
    case (miss t r k mok c g)
    with quiet_at_pcs(3) [OF assms(2) miss(2)] assms(2) show ?thesis by simp
  next
    case (fill t task k c b)
    with quiet_at_pcs(2) [OF assms(2) fill(2)] assms(2) show ?thesis by simp
  next
    case (nest t task r todo)
    with quiet_at_pcs(1) [OF assms(2) nest(2)] show ?thesis by simp
  next
    case (refuse t task r todo)
    with quiet_at_pcs(1) [OF assms(2) refuse(2)] show ?thesis by simp
  qed (use assms(2,3) in simp_all)
next
  assume "bus_input s s'"
  then show ?thesis using assms(2) by cases auto
qed

lemma reach_quiet: "bus_reach n prog s \<Longrightarrow> \<forall>task. prog task = [] \<Longrightarrow> quiet (pcs s)"
proof (induction rule: bus_reach.induct)
  case (reach_start b g)
  then show ?case by (auto simp: quiet_def sys_initial_def split: thread.splits)
next
  case (reach_step s s')
  then show ?case by (blast intro: quiet_step)
qed

lemma work_left_move:
  assumes "t \<in> threads n" "2 * queued b + pc_work p < 2 * queued (sys_bus s) + pc_work (pcs s t)"
    "sys_bus s' = b" "pcs s' = (pcs s)(t := p)"
  shows "work_left n s' < work_left n s"
  using sum_fun_upd [OF finite_threads assms(1), of pc_work "pcs s" p] assms(2-4) by (simp add: work_left_def)

lemma quiet_work_decreases:
  assumes "bus_work prog s s'" "sys_inv n s" "quiet (pcs s)" "\<forall>task. prog task = []"
  shows "work_left n s' < work_left n s"
proof -
  have at: "t \<in> threads n \<and> pc_ok (pcs s t)" if "pcs s t \<noteq> Gone" for t
    using sys_inv_thread [OF assms(2) that] by simp
  have wf: "bus_wf (sys_bus s)" using assms(2) by (simp add: sys_inv_def)
  from assms(1) show ?thesis
  proof cases
    case (lock t r k mok task b)
    with at [of t] search_task [OF wf _ lock(4)] show ?thesis
      by (intro work_left_move [of t n b "Filling task k"]) simp_all
  next
    case (miss t r k mok c g)
    with at [of t] quiet_at_pcs(3) [OF assms(3) miss(2)] show ?thesis
      by (intro work_left_move [of t n "sys_bus s" Idle]) simp_all
  next
    case (fill t task k c b)
    with at [of t] enqueue_ret [OF wf _ fill(3)] quiet_at_pcs(2) [OF assms(3) fill(2)] show ?thesis
      by (intro work_left_move [of t n b Idle]) (simp_all split: if_splits)
  next
    case (take i task b)
    with at [of "Worker i"] take_some [OF wf take(3)] show ?thesis
      by (intro work_left_move [of "Worker i" n b "Running task (prog task)"]) simp_all
  next
    case (leave i b)
    with at [of "Worker i"] take_none [OF leave(3)] show ?thesis
      by (intro work_left_move [of "Worker i" n b Gone]) simp_all
  next
    case (nest t task r todo)
    with quiet_at_pcs(1) [OF assms(3) nest(2)] show ?thesis by simp
  next
    case (refuse t task r todo)
    with quiet_at_pcs(1) [OF assms(3) refuse(2)] show ?thesis by simp
  next
    case (finish t task cl b g)
    with at [of t] finish_ret [OF finish(3) wf] show ?thesis
      by (intro work_left_move [of t n b Idle]) simp_all
  qed
qed

text \<open>Where nothing can move, nothing waits.\<close>

lemma worker_can_work:
  assumes "sys_inv n s" "quiet (pcs s)" "0 < queued (sys_bus s)"
  shows "\<exists>s'. bus_work prog s s'"
proof -
  let ?t = "Worker 0"
  have t: "?t \<in> threads n" by (simp add: threads_def MAX_INIT_EVENT_BUS_THREADS_def)
  then have f: "fits ?t (pcs s ?t)" "pcs s ?t \<noteq> Gone" using assms(1,3) by (auto simp: sys_inv_def)
  show ?thesis
  proof (cases "pcs s ?t")
    case Idle
    obtain task b where "bus_take (sys_bus s) = Ret (Some task, b)"
      using assms(3) by (auto simp: bus_take_def Let_def)
    from bus_work.take [OF Idle this] show ?thesis by blast
  next
    case (Running task todo)
    with quiet_at_pcs(1) [OF assms(2) Running] have "pcs s ?t = Running task []" by simp
    moreover obtain b where "bus_finish None task (sys_bus s, crash_log_initial, sys_gw s) = Ret (b, crash_log_initial, sys_gw s)"
      using finish_returns by blast
    ultimately show ?thesis using bus_work.finish by blast
  next
    case (Locking r k)
    with f quiet_at_pcs(2,3) [OF assms(2), of ?t] show ?thesis by auto
  next
    case (Filling task k)
    with f quiet_at_pcs(2,3) [OF assms(2), of ?t] show ?thesis by auto
  next
    case Gone
    with f show ?thesis by simp
  qed
qed

lemma stuck_is_empty:
  assumes "sys_inv n s" "quiet (pcs s)" "\<nexists>s'. bus_work prog s s'"
  shows "queued (sys_bus s) = 0 \<and> sub_owner s = None \<and> (\<forall>i<n. pcs s (Publisher i) = Idle)"
proof -
  have q: "queued (sys_bus s) = 0" using worker_can_work [OF assms(1,2)] assms(3) by auto
  have o: "sub_owner s = None"
  proof (rule ccontr)
    assume "sub_owner s \<noteq> None"
    then obtain t where "filling (pcs s t)" using assms(1) by (auto simp: sys_inv_def)
    then obtain task k where t: "pcs s t = Filling task k" by (cases "pcs s t") auto
    obtain c b where "enqueue_task task (sys_bus s) = Ret (c, b)" using q by (cases "g_bus_shut_down (sys_bus s)") (auto simp: enqueue_task_def MAX_TASKS_def)
    from bus_work.fill [OF t this] assms(3) show False by blast
  qed
  have "pcs s (Publisher i) = Idle" if "i < n" for i
  proof -
    have f: "fits (Publisher i) (pcs s (Publisher i)) \<and> pc_ok (pcs s (Publisher i))"
      using assms(1) that by (simp add: sys_inv_def threads_def)
    show ?thesis
    proof (cases "pcs s (Publisher i)")
      case (Locking r k)
      with f search_returns [of "sys_bus s" r True "sys_gw s"] assms(1) obtain res where
        "publish_search T_Generic True r (sys_bus s, sys_gw s) = Ret res" by (auto simp: sys_inv_def)
      with bus_work.lock [OF Locking o] bus_work.miss [OF Locking o] assms(3) show ?thesis by (cases res) blast+
    next
      case (Filling task k)
      with assms(1) o show ?thesis by (metis filling.simps(1) option.discI sys_inv_def)
    qed (use f in auto)
  qed
  with q o show ?thesis by blast
qed

text \<open>All publishers are outside, the mutex is free and the queue is empty.\<close>

definition at_rest :: "nat \<Rightarrow> bus_sys \<Rightarrow> bool" where
  "at_rest n s \<longleftrightarrow> (\<forall>i<n. pcs s (Publisher i) = Idle) \<and> sub_owner s = None \<and> bus_tasks (sys_bus s) = []"

interpretation silent_bus: draining_system "bus_work (\<lambda>_. [])" "\<lambda>s. sys_inv n s \<and> quiet (pcs s)" "work_left n" "at_rest n" for n
proof (unfold_locales, goal_cases)
  case (1 s s')
  then show ?case using work_inv [of "\<lambda>_. []" s s' n] quiet_step [of "\<lambda>_. []" s s']
    by (simp add: prog_ok_def bus_step_def)
next
  case (2 s s')
  then show ?case using quiet_work_decreases [of "\<lambda>_. []" s s' n] by simp
next
  case (3 s)
  then show ?case using stuck_is_empty [of n s "\<lambda>_. []"] by (simp add: at_rest_def bus_tasks_def)
qed

section \<open>Callbacks that publish\<close>

text \<open>
  A publish of \<open>r\<close> makes the task \<open>T\<close>. \<open>loaded\<close> is the system with \<open>k\<close> workers in the callback of
  such a task and about to publish, and \<open>m\<close> of them queued.
\<close>

definition makes_task :: "request \<Rightarrow> bus_task \<Rightarrow> sub list \<Rightarrow> bool" where
  "makes_task r T subs \<longleftrightarrow> publish_check r = 0 \<and> req_ok r
     \<and> find (names_event (req_plugin r) (the (req_event r))) subs = Some (task_sub T)
     \<and> task_data T = take (req_len r) (the (req_data r)) \<and> task_len T = req_len r"

definition loaded :: "nat \<Rightarrow> request \<Rightarrow> bus_task \<Rightarrow> sub list \<Rightarrow> nat \<Rightarrow> nat \<Rightarrow> bus_sys \<Rightarrow> bool" where
  "loaded n r T subs k m s \<longleftrightarrow> bus_wf (sys_bus s) \<and> g_head (sys_bus s) = subs \<and> \<not> g_bus_shut_down (sys_bus s)
     \<and> bus_tasks (sys_bus s) = replicate m T \<and> sub_owner s = None
     \<and> pcs s = (\<lambda>t. case t of
         Worker i \<Rightarrow> if i < k then Locking r (Some (T, []))
                     else if i < MAX_INIT_EVENT_BUS_THREADS then Idle else Gone
       | Publisher i \<Rightarrow> if i < n then Idle else Gone)"

lemma search_makes_task:
  assumes "makes_task r T (g_head b)" "bus_wf b"
  shows "publish_search T_Generic True r (b, g) = Ret (Search_task T (b\<lparr>live_payloads := live_payloads b + 1\<rparr>))"
proof -
  obtain e d where e: "req_event r = Some e" "NUL \<in> set e" "req_data r = Some d" "req_len r \<le> length d"
    using assms(1) by (auto simp: makes_task_def req_ok_def)
  have "bus_find T_Generic (req_plugin r) (Some e) (g_head b) = Ret (Some (task_sub T))"
    using bus_find_generic [of "g_head b" e "req_plugin r"] assms e(1,2) by (simp add: bus_wf_def makes_task_def)
  moreover have "T = \<lparr> task_data = take (req_len r) d, task_len = req_len r, task_sub = task_sub T \<rparr>"
    using assms(1) e(3) by (cases T) (simp add: makes_task_def)
  ultimately show ?thesis using e by (simp add: publish_search_def)
qed

text \<open>A publisher has found its subscriber and waits for room, or finds it.\<close>

lemma loaded_publish:
  assumes "loaded n r T subs k m s" "makes_task r T subs" "0 < n"
  shows "\<exists>s'. (bus_step prog)\<^sup>*\<^sup>* s s' \<and> sub_owner s' = Some (Publisher 0)
    \<and> sys_bus s' = (sys_bus s)\<lparr>live_payloads := live_payloads (sys_bus s) + 1\<rparr>
    \<and> pcs s' = (pcs s)(Publisher 0 := Filling T None)"
proof -
  let ?p = "Publisher 0"
  let ?s1 = "s\<lparr>pcs := (pcs s)(?p := Locking r None)\<rparr>"
  have idle: "pcs s ?p = Idle" using assms(1,3) by (simp add: loaded_def)
  have "bus_input s ?s1" using idle assms(2) by (intro bus_input.call) (simp_all add: makes_task_def)
  moreover have "publish_search T_Generic True r (sys_bus ?s1, sys_gw ?s1) =
      Ret (Search_task T ((sys_bus s)\<lparr>live_payloads := live_payloads (sys_bus s) + 1\<rparr>))"
    using search_makes_task assms(1,2) by (simp add: loaded_def)
  from bus_work.lock [OF _ _ this, of ?p None prog] assms(1)
  have "bus_work prog ?s1 (?s1\<lparr>sys_bus := (sys_bus s)\<lparr>live_payloads := live_payloads (sys_bus s) + 1\<rparr>,
      sub_owner := Some ?p, pcs := (pcs ?s1)(?p := Filling T None)\<rparr>)" by (simp add: loaded_def)
  ultimately have "(bus_step prog)\<^sup>*\<^sup>* s (?s1\<lparr>sys_bus := (sys_bus s)\<lparr>live_payloads := live_payloads (sys_bus s) + 1\<rparr>,
      sub_owner := Some ?p, pcs := (pcs ?s1)(?p := Filling T None)\<rparr>)"
    by (meson bus_step_def converse_rtranclp_into_rtranclp r_into_rtranclp)
  then show ?thesis by (intro exI conjI, assumption) simp_all
qed

lemma loaded_more:
  assumes "loaded n r T subs k m s" "makes_task r T subs" "0 < n" "m < MAX_TASKS"
  shows "\<exists>s'. (bus_step prog)\<^sup>*\<^sup>* s s' \<and> loaded n r T subs k (Suc m) s'"
proof -
  from loaded_publish [OF assms(1-3)] obtain u where u: "(bus_step prog)\<^sup>*\<^sup>* s u" "sub_owner u = Some (Publisher 0)"
    "sys_bus u = (sys_bus s)\<lparr>live_payloads := live_payloads (sys_bus s) + 1\<rparr>" "pcs u = (pcs s)(Publisher 0 := Filling T None)"
    by blast
  note l = assms(1) [unfolded loaded_def]
  have q: "ring_inv (g_task_event_bus_queue_t (sys_bus s))" "ring_list (g_task_event_bus_queue_t (sys_bus s)) = replicate m T"
    using l by (simp_all add: bus_wf_def bus_tasks_def)
  have c: "queued (sys_bus s) = m" using q(2) by (metis length_replicate length_ring_list)
  let ?b = "(sys_bus u)\<lparr>g_task_event_bus_queue_t := ring_put T (g_task_event_bus_queue_t (sys_bus u))\<rparr>"
  have e: "enqueue_task T (sys_bus u) = Ret (0, ?b)" using l c assms(4) by (simp add: enqueue_task_def u(3))
  let ?v = "u\<lparr>sys_bus := ?b, sub_owner := None, pcs := (pcs u)(Publisher 0 := resume None)\<rparr>"
  have "(bus_step prog)\<^sup>*\<^sup>* s ?v"
    using u(1) bus_work.fill [OF _ e, of "Publisher 0" None prog] u(4)
    by (simp add: bus_step_def rtranclp.rtrancl_into_rtrancl)
  moreover have "sub_ok (task_sub T)" using assms(2) l find_Some_mem by (fastforce simp: makes_task_def bus_wf_def)
  then have "bus_wf ?b" "bus_tasks ?b = replicate (Suc m) T"
    using l q c assms(4) ring_inv_put [OF q(1)] ring_list_put [OF q(1)]
    by (auto simp: u(3) bus_wf_def bus_tasks_def replicate_append_same)
  moreover have "(pcs s)(Publisher 0 := Idle) = pcs s" using l assms(3) by (auto simp: fun_eq_iff split: thread.splits)
  ultimately show ?thesis
    using l u by (intro exI [of _ ?v]) (auto simp: loaded_def)
qed

lemma loaded_absorb:
  assumes "loaded n r T subs k (Suc m) s" "makes_task r T subs" "k < MAX_INIT_EVENT_BUS_THREADS" "prog T = [r]"
  shows "\<exists>s'. (bus_step prog)\<^sup>*\<^sup>* s s' \<and> loaded n r T subs (Suc k) m s'"
proof -
  note l = assms(1) [unfolded loaded_def]
  have "queued (sys_bus s) = Suc m" using l by (metis bus_tasks_def length_replicate length_ring_list)
  then obtain t b where t: "bus_take (sys_bus s) = Ret (Some t, b)" by (auto simp: bus_take_def Let_def)
  have wf: "bus_wf (sys_bus s)" using l by blast
  from take_some [OF wf t] l have b: "t = T" "bus_tasks b = replicate m T" "bus_wf b" "g_head b = subs" "\<not> g_bus_shut_down b"
    by auto
  let ?w = "Worker k"
  let ?s1 = "s\<lparr>sys_bus := b, pcs := (pcs s)(?w := Running T [r])\<rparr>"
  let ?s2 = "?s1\<lparr>pcs := (pcs ?s1)(?w := Locking r (Some (T, [])))\<rparr>"
  have "bus_work prog s ?s1" using bus_work.take [OF _ t, of k prog] l assms(3,4) b(1) by simp
  moreover have "bus_work prog ?s1 ?s2" using assms(2) by (intro bus_work.nest) (simp_all add: makes_task_def)
  ultimately have "(bus_step prog)\<^sup>*\<^sup>* s ?s2" by (meson bus_step_def converse_rtranclp_into_rtranclp r_into_rtranclp)
  moreover have "loaded n r T subs (Suc k) m ?s2"
    using l b assms(3) by (auto simp: loaded_def fun_eq_iff less_Suc_eq split: thread.splits)
  ultimately show ?thesis by blast
qed

lemma loaded_fill:
  assumes "loaded n r T subs k m s" "makes_task r T subs" "0 < n" "m + j \<le> MAX_TASKS"
  shows "\<exists>s'. (bus_step prog)\<^sup>*\<^sup>* s s' \<and> loaded n r T subs k (m + j) s'"
  using assms(4)
proof (induction j)
  case (Suc j)
  then obtain u where u: "(bus_step prog)\<^sup>*\<^sup>* s u" "loaded n r T subs k (m + j) u" by auto
  have "m + j < MAX_TASKS" using Suc.prems by simp
  from loaded_more [OF u(2) assms(2,3) this] u(1) show ?case by (metis add_Suc_right rtranclp_trans)
qed (use assms(1) in auto)

lemma loaded_workers:
  assumes "loaded n r T subs 0 0 s" "makes_task r T subs" "0 < n" "prog T = [r]" "k \<le> MAX_INIT_EVENT_BUS_THREADS"
  shows "\<exists>s'. (bus_step prog)\<^sup>*\<^sup>* s s' \<and> loaded n r T subs k 0 s'"
  using assms(5)
proof (induction k)
  case (Suc k)
  then obtain u where u: "(bus_step prog)\<^sup>*\<^sup>* s u" "loaded n r T subs k 0 u" by auto
  from loaded_more [OF u(2) assms(2,3)] obtain v where v: "(bus_step prog)\<^sup>*\<^sup>* u v" "loaded n r T subs k (Suc 0) v" by auto
  have "k < MAX_INIT_EVENT_BUS_THREADS" using Suc.prems by simp
  from loaded_absorb [where prog = prog, OF v(2) assms(2) this assms(4)] obtain w where
    "(bus_step prog)\<^sup>*\<^sup>* v w" "loaded n r T subs (Suc k) 0 w" by blast
  with u(1) v(1) show ?case by (meson rtranclp_trans)
qed (use assms(1) in auto)

text \<open>
  The deadlock: a publisher holds \<open>sub_mutex\<close> and waits for room in the queue; the workers, who alone
  could make room, wait for \<open>sub_mutex\<close>.
\<close>

definition deadlocked :: "bus_sys \<Rightarrow> bool" where
  "deadlocked s \<longleftrightarrow> sub_owner s = Some (Publisher 0) \<and> (\<exists>T. pcs s (Publisher 0) = Filling T None)
     \<and> queued (sys_bus s) = MAX_TASKS \<and> \<not> g_bus_shut_down (sys_bus s)
     \<and> (\<forall>i. (\<exists>r k. pcs s (Worker i) = Locking r k) \<or> pcs s (Worker i) = Gone)
     \<and> (\<forall>i>0. (\<exists>r k. pcs s (Publisher i) = Locking r k) \<or> pcs s (Publisher i) \<in> {Idle, Gone})"

lemma shutdown_stays: "bus_step prog s s' \<Longrightarrow> g_bus_shut_down (sys_bus s) \<Longrightarrow> g_bus_shut_down (sys_bus s')"
  unfolding bus_step_def
  by (elim disjE bus_work.cases bus_input.cases)
    (auto simp: publish_search_def enqueue_task_def bus_take_def bus_finish_def bus_subscribe_def
      bus_shutdown_begin_def Let_def split: outcome.splits option.splits if_splits)

lemma deadlocked_pcs:
  assumes "deadlocked s"
  shows "pcs s t \<noteq> Running task todo" "pcs s t = Filling task k \<Longrightarrow> t = Publisher 0" "pcs s (Worker i) \<noteq> Idle"
    "pcs s (Publisher 0) \<noteq> Idle"
proof -
  have w: "(\<exists>r k. pcs s (Worker i) = Locking r k) \<or> pcs s (Worker i) = Gone" for i
    using assms by (simp add: deadlocked_def)
  have p: "(\<exists>r k. pcs s (Publisher i) = Locking r k) \<or> pcs s (Publisher i) \<in> {Idle, Gone}" if "0 < i" for i
    using assms that by (simp add: deadlocked_def)
  obtain T where q: "pcs s (Publisher 0) = Filling T None" using assms by (auto simp: deadlocked_def)
  then show "pcs s (Publisher 0) \<noteq> Idle" by simp
  from w [of i] show "pcs s (Worker i) \<noteq> Idle" by auto
  show "pcs s t \<noteq> Running task todo"
  proof (cases t)
    case (Worker i)
    with w [of i] show ?thesis by auto
  next
    case (Publisher i)
    with p [of i] q show ?thesis by (cases "i = 0") auto
  qed
  assume f: "pcs s t = Filling task k"
  show "t = Publisher 0"
  proof (cases t)
    case (Worker i)
    with w [of i] f show ?thesis by auto
  next
    case (Publisher i)
    with p [of i] f show ?thesis by (cases "i = 0") auto
  qed
qed

lemma deadlocked_work:
  assumes "deadlocked s"
  shows "\<not> bus_work prog s s'"
proof
  have own: "sub_owner s \<noteq> None" "queued (sys_bus s) = MAX_TASKS" "\<not> g_bus_shut_down (sys_bus s)"
    using assms by (simp_all add: deadlocked_def)
  assume "bus_work prog s s'"
  then show False
    using own deadlocked_pcs(1,3) [OF assms] by cases (simp_all add: enqueue_task_def)
qed

lemma deadlocked_step:
  assumes "deadlocked s" "bus_step prog s s'" "\<not> g_bus_shut_down (sys_bus s')"
  shows "deadlocked s' \<and> sys_bus s' = sys_bus s \<and> pcs s' (Publisher 0) = pcs s (Publisher 0)
    \<and> (\<forall>i. pcs s' (Worker i) = pcs s (Worker i))"
proof -
  have "bus_input s s'" using assms deadlocked_work [OF assms(1)] by (auto simp: bus_step_def)
  then show ?thesis
  proof cases
    case (call i r)
    then have "0 < i" using deadlocked_pcs(4) [OF assms(1)] by (cases "i = 0") simp_all
    with call assms(1) show ?thesis by (auto simp: deadlocked_def)
  next
    case subscribe
    with assms(1) show ?thesis by (simp add: deadlocked_def)
  next
    case stop
    with assms(3) show ?thesis by (simp add: bus_shutdown_begin_def)
  qed
qed

lemma deadlocked_steps:
  assumes "(bus_step prog)\<^sup>*\<^sup>* s s'" "deadlocked s" "\<not> g_bus_shut_down (sys_bus s')"
  shows "deadlocked s' \<and> sys_bus s' = sys_bus s \<and> pcs s' (Publisher 0) = pcs s (Publisher 0)
    \<and> (\<forall>i. pcs s' (Worker i) = pcs s (Worker i))"
  using assms
proof (induction rule: rtranclp_induct)
  case (step u v)
  then have "\<not> g_bus_shut_down (sys_bus u)" using shutdown_stays by blast
  with step deadlocked_step [of u prog v] show ?case by simp
qed simp

lemma reach_steps: "(bus_step prog)\<^sup>*\<^sup>* s s' \<Longrightarrow> bus_reach n prog s \<Longrightarrow> bus_reach n prog s'"
  by (induction rule: rtranclp_induct) (auto intro: reach_step)

lemma deadlock_reachable:
  assumes "loaded n r T subs 0 0 s" "makes_task r T subs" "0 < n" "prog T = [r]"
  shows "\<exists>s'. (bus_step prog)\<^sup>*\<^sup>* s s' \<and> deadlocked s'"
proof -
  from loaded_workers [where prog = prog, OF assms, of MAX_INIT_EVENT_BUS_THREADS] obtain u where
    u: "(bus_step prog)\<^sup>*\<^sup>* s u" "loaded n r T subs MAX_INIT_EVENT_BUS_THREADS 0 u" by auto
  from loaded_fill [OF u(2) assms(2,3), of MAX_TASKS] obtain v where
    v: "(bus_step prog)\<^sup>*\<^sup>* u v" "loaded n r T subs MAX_INIT_EVENT_BUS_THREADS MAX_TASKS v" by auto
  from loaded_publish [OF v(2) assms(2,3)] obtain w where w: "(bus_step prog)\<^sup>*\<^sup>* v w" "sub_owner w = Some (Publisher 0)"
    "sys_bus w = (sys_bus v)\<lparr>live_payloads := live_payloads (sys_bus v) + 1\<rparr>" "pcs w = (pcs v)(Publisher 0 := Filling T None)"
    by blast
  note l = v(2) [unfolded loaded_def]
  have "queued (sys_bus v) = MAX_TASKS" using l by (metis bus_tasks_def length_replicate length_ring_list)
  then have "deadlocked w" using l w(2-4) by (auto simp: deadlocked_def)
  with u(1) v(1) w(1) show ?thesis by (meson rtranclp_trans)
qed

section \<open>Properties\<close>

text \<open>
  C4. Whatever the threads do, in whatever order, no payload is lost and none is freed twice: as long
  as the bus is not shut down, the live payloads are exactly those of the queued tasks, of the tasks
  whose callbacks run and of the one a publisher is about to queue. At most one thread holds
  \<open>sub_mutex\<close>, and it is inside \<open>enqueue_task\<close>.
\<close>

theorem payloads_accounted:
  assumes "bus_reach n prog s" "\<forall>task. \<forall>r\<in>set (prog task). req_ok r"
  shows "ring_inv (g_task_event_bus_queue_t (sys_bus s))
    \<and> (\<not> g_bus_shut_down (sys_bus s) \<longrightarrow>
         live_payloads (sys_bus s) = length (bus_tasks (sys_bus s)) + in_flight n s)
    \<and> (\<forall>t. (\<exists>task k. pcs s t = Filling task k) \<longleftrightarrow> sub_owner s = Some t)"
proof -
  have inv: "sys_inv n s" using reach_inv [OF assms(1)] assms(2) by (simp add: prog_ok_def)
  have "(\<exists>task k. p = Filling task k) \<longleftrightarrow> filling p" for p by (cases p) auto
  with inv show ?thesis by (simp add: sys_inv_def bus_wf_def bus_tasks_def)
qed


text \<open>
  C25. When the callback of an event publishes an event with that same subscriber, the bus can lock
  itself up: there is a reachable state in which a publisher holds \<open>sub_mutex\<close> while it waits for
  room in the queue and all five workers wait for \<open>sub_mutex\<close> inside their callbacks. From then on,
  until somebody shuts the bus down, no thread of the bus can make a step, whatever else is called.
\<close>

theorem publishing_callback_deadlocks:
  assumes "bus_inv b" "bus_tasks b = []" "live_payloads b = 0" "\<not> g_bus_shut_down b"
    and "makes_task r T (g_head b)" "prog T = [r]" "0 < n"
  shows "\<exists>s. bus_reach n prog s \<and> deadlocked s
    \<and> (\<forall>s'. (bus_step prog)\<^sup>*\<^sup>* s s' \<and> \<not> g_bus_shut_down (sys_bus s') \<longrightarrow>
         sys_bus s' = sys_bus s \<and> (\<forall>i. pcs s' (Worker i) = pcs s (Worker i)) \<and> (\<nexists>s''. bus_work prog s' s''))"
proof -
  let ?s = "sys_initial n b gw_initial"
  have "loaded n r T (g_head b) 0 0 ?s"
    using assms(1,2,4) by (auto simp: loaded_def sys_initial_def bus_inv_def bus_wf_def)
  from deadlock_reachable [where prog = prog, OF this assms(5,7,6)] obtain s where s: "(bus_step prog)\<^sup>*\<^sup>* ?s s" "deadlocked s" by blast
  have "bus_reach n prog s" using reach_steps [OF s(1)] reach_start [OF assms(1-4)] by blast
  with s(2) deadlocked_steps [of prog s] deadlocked_work show ?thesis by (intro exI [of _ s]) blast
qed

definition sample_sub :: sub where
  "sample_sub = \<lparr> sub_event = ''tick'' @ [NUL], sub_plugin_id = 7, sub_event_id = 1, sub_cb = 100, sub_user = 0 \<rparr>"

definition sample_request :: request where
  "sample_request = \<lparr> req_plugin = 7, req_event = Some (''tick'' @ [NUL]), req_data = Some ''x'', req_len = 1 \<rparr>"

definition sample_bus :: bus where
  "sample_bus = bus_initial (\<lambda>_. undefined)\<lparr>g_head := [sample_sub]\<rparr>"

lemma sample_bus_ok: "bus_inv sample_bus" "bus_tasks sample_bus = []" "live_payloads sample_bus = 0"
  "\<not> g_bus_shut_down sample_bus"
  by (simp_all add: sample_bus_def sample_sub_def bus_initial_def bus_inv_def ring_inv_def bus_tasks_def
      ring_list_def sub_ok_def)

lemma sample_request_ok: "req_ok sample_request" "publish_check sample_request = 0"
  by (simp_all add: sample_request_def req_ok_def publish_check_def PLUGIN_ID_INVALID_def bus_codes)

theorem publishing_callback_deadlocks_witness:
  "\<exists>s. bus_reach 1 (\<lambda>_. [sample_request]) s \<and> deadlocked s"
proof -
  have "makes_task sample_request \<lparr> task_data = ''x'', task_len = 1, task_sub = sample_sub \<rparr> (g_head sample_bus)"
    using sample_request_ok
    by (simp add: makes_task_def sample_bus_def names_event_def) (simp add: sample_request_def sample_sub_def)
  from publishing_callback_deadlocks [OF sample_bus_ok this, of "\<lambda>_. [sample_request]" 1] show ?thesis by auto
qed

theorem payloads_accounted_witness:
  "live_payloads (sys_bus (sys_initial 2 sample_bus gw_initial)) =
     length (bus_tasks (sys_bus (sys_initial 2 sample_bus gw_initial))) + in_flight 2 (sys_initial 2 sample_bus gw_initial)"
proof -
  have "\<forall>task. \<forall>r\<in>set ((\<lambda>_. [sample_request]) task). req_ok r" using sample_request_ok(1) by simp
  moreover have "\<not> g_bus_shut_down (sys_bus (sys_initial 2 sample_bus gw_initial))"
    using sample_bus_ok(4) by (simp add: sys_initial_def)
  ultimately show ?thesis
    using payloads_accounted [OF reach_start [OF sample_bus_ok, of 2 "\<lambda>_. [sample_request]" gw_initial]] by blast
qed


end
