(* ===== verification/Scheduler.thy ===== *)
theory Scheduler
  imports CrashLog
begin

text \<open>
  src/core/scheduler.c: the timers, a singly linked list in the heap ordered by the time they are
  due, and the thread that fires them.

  The heap is a map from addresses to timers; address 0 is NULL, and an access to an address
  that holds no timer is a fault. The address \<open>malloc\<close> returns, the clock, and what the other
  threads do between an unlock and the next access are arguments. Times are words of 64 bits, so
  \<open>now_ms() + ms\<close> wraps as it does in C.
\<close>

section \<open>State\<close>

type_synonym addr = nat

abbreviation NULL :: addr where "NULL \<equiv> 0"

record scheduler_timer =
  timer_id :: c_int
  due_ms :: u64
  interval_ms :: u64
  timer_cb :: u64
  timer_plugin_id :: plugin_id
  timer_user :: u64
  repeating :: bool
  next_timer :: addr

record scheduler =
  timer_heap :: "addr \<rightharpoonup> scheduler_timer"
  g_timers :: addr
  g_next_id :: c_int
  g_running :: bool
  timer_calls :: "(u64 \<times> u64) list"

definition scheduler_initial :: scheduler where
  "scheduler_initial =
     \<lparr> timer_heap = Map.empty, g_timers = NULL, g_next_id = 1, g_running = False,
       timer_calls = [] \<rparr>"

definition SCHEDULER_ERROR_MARKER :: u64 where "SCHEDULER_ERROR_MARKER = 0xBEADBEEFCAFEBABE"

definition scheduler_error_ctx :: error_context where
  "scheduler_error_ctx =
     \<lparr> marker = SCHEDULER_ERROR_MARKER, signal = 0, signal_code = 0, fault_address = 0 \<rparr>"

text \<open>Reading \<open>*p\<close>, and writing to a field of it.\<close>

definition deref :: "(addr \<rightharpoonup> scheduler_timer) \<Rightarrow> addr \<Rightarrow> scheduler_timer outcome" where
  "deref h p =
     (if p = NULL then Fault NullDeref
      else case h p of None \<Rightarrow> Fault UseAfterFree | Some t \<Rightarrow> Ret t)"

definition set_next :: "addr \<Rightarrow> addr \<Rightarrow> (addr \<rightharpoonup> scheduler_timer) \<Rightarrow> (addr \<rightharpoonup> scheduler_timer) outcome"
where
  "set_next p n h = outcome_bind (deref h p) (\<lambda>t. Ret (h(p \<mapsto> t\<lparr>next_timer := n\<rparr>)))"

section \<open>The clock\<close>

definition now_ms :: "nat \<Rightarrow> nat \<Rightarrow> u64" where
  "now_ms tv_sec tv_nsec = of_nat tv_sec * 1000 + of_nat tv_nsec div 1000000"

text \<open>The absolute time of \<open>pthread_cond_timedwait\<close>.\<close>

definition wait_deadline :: "u64 \<Rightarrow> nat \<times> nat \<Rightarrow> nat \<times> nat" where
  "wait_deadline wait_ms ts =
     (case ts of (tv_sec, tv_nsec) \<Rightarrow>
        let tv_sec1 = tv_sec + unat (wait_ms div 1000);
            tv_nsec1 = tv_nsec + unat (wait_ms mod 1000) * 1000000
        in if tv_nsec1 \<ge> 1000000000 then (tv_sec1 + 1, tv_nsec1 - 1000000000)
           else (tv_sec1, tv_nsec1))"

section \<open>Inserting\<close>

text \<open>The loop of \<open>insert_timer\<close>; \<open>None\<close> would be a list that goes round in a circle.\<close>

partial_function (option) insert_walk ::
    "(addr \<rightharpoonup> scheduler_timer) \<Rightarrow> u64 \<Rightarrow> addr \<Rightarrow> addr outcome option" where
  "insert_walk h due it =
     (case deref h it of
        Ret t \<Rightarrow>
          (if next_timer t = NULL then Some (Ret it)
           else case deref h (next_timer t) of
                  Ret n \<Rightarrow>
                    (if due_ms n \<le> due then insert_walk h due (next_timer t) else Some (Ret it))
                | Blocked \<Rightarrow> Some Blocked | Diverges \<Rightarrow> Some Diverges | Fault f \<Rightarrow> Some (Fault f))
      | Blocked \<Rightarrow> Some Blocked | Diverges \<Rightarrow> Some Diverges | Fault f \<Rightarrow> Some (Fault f))"

definition insert_timer :: "addr \<Rightarrow> scheduler \<Rightarrow> scheduler outcome" where
  "insert_timer p s =
     outcome_bind (deref (timer_heap s) p) (\<lambda>t.
       outcome_bind
         (if g_timers s = NULL then Ret True
          else outcome_bind (deref (timer_heap s) (g_timers s)) (\<lambda>hd. Ret (due_ms t < due_ms hd)))
         (\<lambda>front.
            if front then
              outcome_bind (set_next p (g_timers s) (timer_heap s)) (\<lambda>h.
                Ret (s\<lparr>timer_heap := h, g_timers := p\<rparr>))
            else
              outcome_bind
                (case insert_walk (timer_heap s) (due_ms t) (g_timers s) of
                   None \<Rightarrow> Diverges | Some r \<Rightarrow> r)
                (\<lambda>it. outcome_bind (deref (timer_heap s) it) (\<lambda>i.
                   outcome_bind (set_next p (next_timer i) (timer_heap s)) (\<lambda>h.
                     outcome_bind (set_next it p h) (\<lambda>h1.
                       Ret (s\<lparr>timer_heap := h1\<rparr>)))))))"

section \<open>The operations\<close>

definition scheduler_init :: "bool \<Rightarrow> scheduler \<Rightarrow> c_int \<times> scheduler" where
  "scheduler_init create_ok s =
     (let s1 = s\<lparr>g_running := True\<rparr>
      in if \<not> create_ok then (-1, s1\<lparr>g_running := False\<rparr>) else (0, s1))"

text \<open>The release of the list at the end of \<open>scheduler_shutdown\<close>, from \<open>it\<close> on.\<close>

partial_function (option) free_timers ::
    "addr \<Rightarrow> (addr \<rightharpoonup> scheduler_timer) \<Rightarrow> (addr \<rightharpoonup> scheduler_timer) outcome option" where
  "free_timers it h =
     (if it = NULL then Some (Ret h)
      else case deref h it of
             Ret t \<Rightarrow> free_timers (next_timer t) (h(it := None))
           | Blocked \<Rightarrow> Some Blocked | Diverges \<Rightarrow> Some Diverges | Fault f \<Rightarrow> Some (Fault f))"

text \<open>
  \<open>scheduler_shutdown\<close> up to \<open>pthread_join\<close>, during which the thread finishes the callback it is
  in, and after it.
\<close>

definition scheduler_shutdown_begin :: "scheduler \<Rightarrow> scheduler" where
  "scheduler_shutdown_begin s = s\<lparr>g_running := False\<rparr>"

definition scheduler_shutdown_end :: "scheduler \<Rightarrow> scheduler outcome" where
  "scheduler_shutdown_end s =
     outcome_bind
       (case free_timers (g_timers s) (timer_heap s) of None \<Rightarrow> Diverges | Some r \<Rightarrow> r)
       (\<lambda>h. Ret (s\<lparr>timer_heap := h, g_timers := NULL\<rparr>))"

text \<open>
  \<open>scheduler_after_ms\<close> and \<open>scheduler_every_ms\<close> read \<open>t->id\<close> after the unlock, for the gateway's
  message and for the result; \<open>between\<close> is what the timer thread and other callers do in the
  meantime. \<open>p\<close> is the address \<open>malloc\<close> returns.
\<close>

definition add_timer ::
    "addr \<Rightarrow> u64 \<Rightarrow> bool \<Rightarrow> plugin_id \<Rightarrow> u64 \<Rightarrow> u64 \<Rightarrow> u64 \<Rightarrow> scheduler \<Rightarrow> scheduler outcome" where
  "add_timer p now rep pid ms cb' user' s =
     (let t = \<lparr> timer_id = g_next_id s, due_ms = now + ms, interval_ms = (if rep then ms else 0),
                timer_cb = cb', timer_plugin_id = pid, timer_user = user', repeating = rep,
                next_timer = NULL \<rparr>;
          s1 = s\<lparr>g_next_id := g_next_id s + 1, timer_heap := (timer_heap s)(p \<mapsto> t)\<rparr>
      in insert_timer p s1)"

definition read_timer_id ::
    "string \<Rightarrow> addr \<Rightarrow> plugin_id \<Rightarrow> u64 \<Rightarrow> scheduler \<times> gw \<Rightarrow> (c_int \<times> scheduler \<times> gw) outcome" where
  "read_timer_id what p pid ms st =
     (case st of (s, g) \<Rightarrow>
        outcome_bind (deref (timer_heap s) p) (\<lambda>t.
          Ret (timer_id t, s, gateway_report SCHEDULER_API
                 (what @ fmt_d pid @ '' '' @ fmt_d (timer_id t) @ '' '' @ fmt_lld ms @ '' [ms]'') g)))"

definition scheduler_after_ms ::
    "addr \<Rightarrow> u64 \<Rightarrow> (scheduler \<Rightarrow> scheduler) \<Rightarrow> plugin_id \<Rightarrow> u64 \<Rightarrow> u64 \<Rightarrow> u64 \<Rightarrow> scheduler \<times> gw
      \<Rightarrow> (c_int \<times> scheduler \<times> gw) outcome" where
  "scheduler_after_ms p now between pid ms cb' user' st =
     (case st of (s, g) \<Rightarrow>
        if cb' = 0 then Ret (-1, s, g)
        else if p = NULL then Ret (-1, s, g)
        else outcome_bind (add_timer p now False pid ms cb' user' s) (\<lambda>s1.
               read_timer_id ''[subs_after] '' p pid ms (between s1, g)))"

definition scheduler_every_ms ::
    "addr \<Rightarrow> u64 \<Rightarrow> (scheduler \<Rightarrow> scheduler) \<Rightarrow> plugin_id \<Rightarrow> u64 \<Rightarrow> u64 \<Rightarrow> u64 \<Rightarrow> scheduler \<times> gw
      \<Rightarrow> (c_int \<times> scheduler \<times> gw) outcome" where
  "scheduler_every_ms p now between pid ms cb' user' st =
     (case st of (s, g) \<Rightarrow>
        if cb' = 0 \<or> ms = 0 then Ret (-1, s, g)
        else if p = NULL then Ret (-1, s, g)
        else outcome_bind (add_timer p now True pid ms cb' user' s) (\<lambda>s1.
               read_timer_id ''[subs_every] '' p pid ms (between s1, g)))"

text \<open>The search of \<open>scheduler_cancel\<close> with its \<open>prev\<close>; the result says what was unlinked.\<close>

partial_function (option) cancel_walk ::
    "plugin_id \<Rightarrow> c_int \<Rightarrow> addr \<Rightarrow> addr \<Rightarrow> scheduler \<Rightarrow> scheduler option outcome option" where
  "cancel_walk pid i prev it s =
     (if it = NULL then Some (Ret None)
      else case deref (timer_heap s) it of
             Ret t \<Rightarrow>
               (if timer_id t = i \<and> timer_plugin_id t = pid then
                  Some (outcome_bind
                    (if prev \<noteq> NULL
                     then outcome_bind (set_next prev (next_timer t) (timer_heap s)) (\<lambda>h.
                            Ret (s\<lparr>timer_heap := h\<rparr>))
                     else Ret (s\<lparr>g_timers := next_timer t\<rparr>))
                    (\<lambda>s1. Ret (Some (s1\<lparr>timer_heap := (timer_heap s1)(it := None)\<rparr>))))
                else cancel_walk pid i it (next_timer t) s)
           | Blocked \<Rightarrow> Some Blocked | Diverges \<Rightarrow> Some Diverges | Fault f \<Rightarrow> Some (Fault f))"

definition scheduler_cancel ::
    "plugin_id \<Rightarrow> c_int \<Rightarrow> scheduler \<times> gw \<Rightarrow> (c_int \<times> scheduler \<times> gw) outcome" where
  "scheduler_cancel pid i st =
     (case st of (s, g) \<Rightarrow>
        if sint i \<le> 0 then Ret (-1, s, g)
        else outcome_bind
               (case cancel_walk pid i NULL (g_timers s) s of None \<Rightarrow> Diverges | Some r \<Rightarrow> r)
               (\<lambda>r. case r of
                      Some s1 \<Rightarrow> Ret (0, s1, g)
                    | None \<Rightarrow> Ret (-1, s, gateway_report SCHEDULER_API
                               (''[cancel] '' @ fmt_d pid @ '' '' @ fmt_d i) g)))"

section \<open>The thread\<close>

text \<open>
  One round of \<open>sched_thread\<close>. \<open>sched_poll\<close> runs under the mutex and says what to do next:
  leave, wait for ever, wait until a time, or call the callback of the timer it has unlinked.
  \<open>sched_finish\<close> runs after the callback and keeps the copies the thread made before it.
\<close>

datatype sched_action =
    Sched_exit
  | Sched_wait
  | Sched_wait_until "nat \<times> nat"
  | Sched_fire addr

definition sched_poll :: "u64 \<Rightarrow> nat \<times> nat \<Rightarrow> scheduler \<Rightarrow> (sched_action \<times> scheduler) outcome" where
  "sched_poll now ts s =
     (if \<not> g_running s then Ret (Sched_exit, s)
      else if g_timers s = NULL then Ret (Sched_wait, s)
      else outcome_bind (deref (timer_heap s) (g_timers s)) (\<lambda>t.
             let due = due_ms t
             in if due \<le> now then
                  let p = g_timers s;
                      s1 = s\<lparr>g_timers := next_timer t\<rparr>
                  in Ret (Sched_fire p, s1\<lparr>timer_calls := timer_calls s1 @ [(timer_cb t, timer_user t)]\<rparr>)
                else Ret (Sched_wait_until (wait_deadline (due - now) ts), s)))"

record timer_crash =
  tc_shift :: shift_sem
  tc_strdup_ok :: bool
  tc_ts :: string
  tc_names :: "plugin_id \<Rightarrow> string option"

definition sched_report_crash ::
    "timer_crash option \<Rightarrow> addr \<Rightarrow> scheduler \<Rightarrow> crash_log \<times> gw \<Rightarrow> (crash_log \<times> gw) outcome" where
  "sched_report_crash crash p s lg =
     (case crash of
        None \<Rightarrow> Ret lg
      | Some c \<Rightarrow>
          outcome_bind (deref (timer_heap s) p) (\<lambda>t.
            add_scheduler_critical_error (tc_shift c) (tc_strdup_ok c) (tc_ts c) (tc_names c)
              (timer_plugin_id t) (timer_id t) SOURCE_SCHEDULER scheduler_error_ctx lg))"

definition sched_finish :: "u64 \<Rightarrow> bool \<Rightarrow> u64 \<Rightarrow> addr \<Rightarrow> scheduler \<Rightarrow> scheduler outcome" where
  "sched_finish now rep interval p s =
     (if rep \<and> g_running s then
        outcome_bind (deref (timer_heap s) p) (\<lambda>t.
          insert_timer p
            (s\<lparr>timer_heap :=
                 (timer_heap s)(p \<mapsto> t\<lparr>due_ms := now + interval, next_timer := NULL\<rparr>)\<rparr>))
      else if timer_heap s p = None then Fault InvalidFree
      else Ret (s\<lparr>timer_heap := (timer_heap s)(p := None)\<rparr>))"

text \<open>
  The two halves with the callback between them: \<open>during\<close> is what the callback and the other
  threads do to the scheduler while the mutex is free.
\<close>

definition sched_thread_round ::
    "u64 \<Rightarrow> nat \<times> nat \<Rightarrow> (scheduler \<Rightarrow> scheduler) \<Rightarrow> timer_crash option \<Rightarrow> u64
      \<Rightarrow> scheduler \<times> crash_log \<times> gw \<Rightarrow> (sched_action \<times> scheduler \<times> crash_log \<times> gw) outcome" where
  "sched_thread_round now ts during crash now2 st =
     (case st of (s, lg) \<Rightarrow>
        outcome_bind (sched_poll now ts s) (\<lambda>(a, s1).
          case a of
            Sched_fire p \<Rightarrow>
              outcome_bind (deref (timer_heap s) p) (\<lambda>t.
                let s2 = during s1
                in outcome_bind (sched_report_crash crash p s2 lg) (\<lambda>lg1.
                     outcome_bind (sched_finish now2 (repeating t) (interval_ms t) p s2) (\<lambda>s3.
                       Ret (a, s3, lg1))))
          | _ \<Rightarrow> Ret (a, s1, lg)))"

section \<open>The list of timers\<close>

definition scheduler_entry :: "scheduler_timer \<Rightarrow> string" where
  "scheduler_entry t =
     snprintf 128 ((if repeating t then ''[every] '' else ''[after] '') @ fmt_d (timer_id t) @ '' ''
       @ fmt_d (timer_plugin_id t) @ '' '' @ fmt_lld (interval_ms t) @ [NL])"

partial_function (option) list_timers ::
    "nat \<Rightarrow> (addr \<rightharpoonup> scheduler_timer) \<Rightarrow> addr \<Rightarrow> string \<Rightarrow> string outcome option" where
  "list_timers buf_len h it out_buf =
     (if it = NULL then Some (Ret out_buf)
      else case deref h it of
             Ret t \<Rightarrow> list_timers buf_len h (next_timer t)
                        (list_append buf_len out_buf (scheduler_entry t))
           | Blocked \<Rightarrow> Some Blocked | Diverges \<Rightarrow> Some Diverges | Fault f \<Rightarrow> Some (Fault f))"

definition scheduler_get_list :: "nat \<Rightarrow> scheduler \<Rightarrow> string outcome" where
  "scheduler_get_list buf_len s =
     (case list_timers buf_len (timer_heap s) (g_timers s)
             (snprintf buf_len (''[on_data] [scheduler]'' @ [NL] @ ''[getall]'' @ [NL])) of
        None \<Rightarrow> Diverges | Some r \<Rightarrow> r)"

section \<open>Lists in the heap\<close>

text \<open>
  \<open>lseg h p as r\<close>: from \<open>p\<close> the \<open>next_timer\<close> fields lead through the timers \<open>as\<close> to \<open>r\<close>.
  \<open>timers_are s as\<close>: the list of the scheduler is \<open>as\<close>, in the order of the times they are due.
\<close>

fun lseg :: "(addr \<rightharpoonup> scheduler_timer) \<Rightarrow> addr \<Rightarrow> addr list \<Rightarrow> addr \<Rightarrow> bool" where
  "lseg h p [] r \<longleftrightarrow> p = r"
| "lseg h p (a # as) r \<longleftrightarrow>
     p = a \<and> a \<noteq> NULL \<and> (case h a of None \<Rightarrow> False | Some t \<Rightarrow> lseg h (next_timer t) as r)"

definition due_of :: "(addr \<rightharpoonup> scheduler_timer) \<Rightarrow> addr \<Rightarrow> u64" where
  "due_of h a = (case h a of None \<Rightarrow> 0 | Some t \<Rightarrow> due_ms t)"

definition timers_are :: "scheduler \<Rightarrow> addr list \<Rightarrow> bool" where
  "timers_are s as \<longleftrightarrow>
     lseg (timer_heap s) (g_timers s) as NULL \<and> distinct as
   \<and> sorted (map (due_of (timer_heap s)) as)"

text \<open>A heap up to the links: what an operation on the list must not change.\<close>

definition contents :: "(addr \<rightharpoonup> scheduler_timer) \<Rightarrow> addr \<rightharpoonup> scheduler_timer" where
  "contents h = (\<lambda>a. map_option (\<lambda>t. t\<lparr>next_timer := NULL\<rparr>) (h a))"

text \<open>Where a timer with the time \<open>d\<close> goes: behind every timer that is not due later.\<close>

definition insert_at :: "(addr \<Rightarrow> u64) \<Rightarrow> u64 \<Rightarrow> addr \<Rightarrow> addr list \<Rightarrow> addr list" where
  "insert_at due d p as =
     takeWhile (\<lambda>a. due a \<le> d) as @ p # dropWhile (\<lambda>a. due a \<le> d) as"

lemma lseg_append: "lseg h p (xs @ ys) r \<longleftrightarrow> (\<exists>m. lseg h p xs m \<and> lseg h m ys r)"
  by (induction xs arbitrary: p) (auto split: option.splits)

lemma lseg_upd [simp]: "a \<notin> set as \<Longrightarrow> lseg (h(a := x)) p as r \<longleftrightarrow> lseg h p as r"
  by (induction as arbitrary: p) (auto split: option.splits)

lemma lseg_not_NULL: "lseg h p as r \<Longrightarrow> NULL \<notin> set as"
  by (induction as arbitrary: p) (auto split: option.splits)

lemma lseg_dom: "lseg h p as r \<Longrightarrow> a \<in> set as \<Longrightarrow> \<exists>t. h a = Some t"
  by (induction as arbitrary: p) (auto split: option.splits)

lemma deref_eq_Ret [simp]: "deref h p = Ret t \<longleftrightarrow> p \<noteq> NULL \<and> h p = Some t"
  by (auto simp: deref_def split: option.splits)

lemma deref_Some [simp]: "p \<noteq> NULL \<Longrightarrow> h p = Some t \<Longrightarrow> deref h p = Ret t"
  by simp

lemma due_of_upd_links [simp]:
  "h a = Some t \<Longrightarrow> due_of (h(a \<mapsto> t\<lparr>next_timer := n\<rparr>)) = due_of h"
  by (auto simp: due_of_def fun_eq_iff)

lemma contents_upd_links [simp]:
  "h a = Some t \<Longrightarrow> contents (h(a \<mapsto> t\<lparr>next_timer := n\<rparr>)) = contents h"
  by (auto simp: contents_def fun_eq_iff)

lemma due_of_alt: "due_of h = (\<lambda>a. case contents h a of None \<Rightarrow> 0 | Some t \<Rightarrow> due_ms t)"
  by (auto simp: due_of_def contents_def fun_eq_iff split: option.split)

lemma sorted_insert_at:
  assumes "sorted (map due as)" "due' p = d" "\<forall>a\<in>set as. due' a = due a"
  shows "sorted (map due' (insert_at due d p as))"
proof -
  have "sorted (map due (takeWhile (\<lambda>a. due a \<le> d) as) @ d # map due (dropWhile (\<lambda>a. due a \<le> d) as))"
    using assms(1) by (induction as) (auto simp: sorted_append not_le dest: set_takeWhileD)
  moreover have "map due' (takeWhile (\<lambda>a. due a \<le> d) as) = map due (takeWhile (\<lambda>a. due a \<le> d) as)"
    "map due' (dropWhile (\<lambda>a. due a \<le> d) as) = map due (dropWhile (\<lambda>a. due a \<le> d) as)"
    using assms(3) by (auto dest: set_takeWhileD set_dropWhileD)
  ultimately show ?thesis by (simp only: insert_at_def map_append list.map assms(2))
qed

lemma insert_at_split: "\<exists>xs ys. as = xs @ ys \<and> insert_at due d p as = xs @ p # ys"
  unfolding insert_at_def by (metis takeWhile_dropWhile_id)

lemma insert_at_cong:
  "\<forall>a\<in>set as. due' a = due a \<Longrightarrow> insert_at due' d p as = insert_at due d p as"
  by (simp add: insert_at_def cong: takeWhile_cong dropWhile_cong)

lemma set_insert_at [simp]: "set (insert_at due d p as) = insert p (set as)"
  using insert_at_split [of as due d p] by auto

lemma distinct_insert_at: "distinct as \<Longrightarrow> p \<notin> set as \<Longrightarrow> distinct (insert_at due d p as)"
  using insert_at_split [of as due d p] by auto

lemma insert_walk_last:
  assumes "lseg h p (a # as) NULL" "due_of h a \<le> d"
  shows "insert_walk h d p = Some (Ret (last (takeWhile (\<lambda>x. due_of h x \<le> d) (a # as))))"
  using assms
proof (induction as arbitrary: p a)
  case Nil
  then obtain t where "h a = Some t" "p = a" "a \<noteq> NULL" "next_timer t = NULL"
    by (auto split: option.splits)
  with Nil(2) show ?case by (simp add: insert_walk.simps [of h d a])
next
  case (Cons b as)
  then obtain t n where t: "h a = Some t" "p = a" "a \<noteq> NULL" "next_timer t = b" "b \<noteq> NULL"
    "h b = Some n" "lseg h b (b # as) NULL"
    by (auto split: option.splits)
  then have due: "due_of h b = due_ms n" by (simp add: due_of_def)
  show ?case
  proof (cases "due_ms n \<le> d")
    case True
    with Cons.IH [OF t(7)] due have
      "insert_walk h d b = Some (Ret (last (takeWhile (\<lambda>x. due_of h x \<le> d) (b # as))))" by simp
    with t True Cons.prems(2) due show ?thesis by (simp add: insert_walk.simps [of h d a])
  next
    case False
    with t Cons.prems(2) due show ?thesis by (simp add: insert_walk.simps [of h d a])
  qed
qed

text \<open>An operation on the list leaves the other fields alone.\<close>

definition same_rest :: "scheduler \<Rightarrow> scheduler \<Rightarrow> bool" where
  "same_rest s s' \<longleftrightarrow> g_next_id s' = g_next_id s \<and> g_running s' = g_running s
     \<and> timer_calls s' = timer_calls s"

lemma same_rest_simps [simp]:
  "same_rest s (s\<lparr>timer_heap := h\<rparr>)" "same_rest s (s\<lparr>timer_heap := h, g_timers := q\<rparr>)"
  "same_rest s (s\<lparr>g_timers := q\<rparr>)" "same_rest s (s\<lparr>g_timers := q, timer_heap := h\<rparr>)"
  by (simp_all add: same_rest_def)

text \<open>Inserting the timer at \<open>p\<close>, which is not in the list, is \<open>insert_at\<close>.\<close>

lemma insert_timer_ok:
  assumes "timers_are s as" "p \<notin> set as" "p \<noteq> NULL" "timer_heap s p = Some t"
  shows "\<exists>s'. insert_timer p s = Ret s'
    \<and> timers_are s' (insert_at (due_of (timer_heap s)) (due_ms t) p as)
    \<and> contents (timer_heap s') = contents (timer_heap s)
    \<and> same_rest s s'"
proof -
  let ?h = "timer_heap s"
  let ?due = "due_of ?h"
  let ?P = "\<lambda>a. ?due a \<le> due_ms t"
  have seg: "lseg ?h (g_timers s) as NULL" and dist: "distinct as" and sort: "sorted (map ?due as)"
    using assms(1) by (simp_all add: timers_are_def)
  have sorted': "sorted (map ?due (insert_at ?due (due_ms t) p as))"
    by (rule sorted_insert_at [OF sort]) (simp_all add: due_of_def assms(4))
  have dist': "distinct (insert_at ?due (due_ms t) p as)"
    using dist assms(2) by (rule distinct_insert_at)
  show ?thesis
  proof (cases "takeWhile ?P as")
    case Nil
    then have ins: "insert_at ?due (due_ms t) p as = p # as" by (cases as) (auto simp: insert_at_def)
    have front: "(if g_timers s = NULL then Ret True
          else outcome_bind (deref ?h (g_timers s)) (\<lambda>hd. Ret (due_ms t < due_ms hd))) = Ret True"
    proof (cases as)
      case (Cons a as')
      with seg obtain n where "g_timers s = a" "a \<noteq> NULL" "?h a = Some n"
        by (auto split: option.splits)
      with Nil Cons show ?thesis by (simp add: due_of_def not_le split: if_splits)
    qed (use seg in simp)
    let ?h1 = "?h(p \<mapsto> t\<lparr>next_timer := g_timers s\<rparr>)"
    have "insert_timer p s = Ret (s\<lparr>timer_heap := ?h1, g_timers := p\<rparr>)"
      unfolding insert_timer_def using assms(3,4) front by (simp add: set_next_def)
    moreover have "lseg ?h1 p (p # as) NULL" using seg assms(2,3) by simp
    ultimately show ?thesis
      using dist' sorted' assms(4) by (simp add: timers_are_def ins)
  next
    case (Cons a xs)
    then obtain bs where as: "as = a # bs" by (cases as) (auto split: if_splits)
    with Cons have "?P a" by (auto split: if_splits)
    with seg as have walk: "insert_walk ?h (due_ms t) (g_timers s) = Some (Ret (last (takeWhile ?P as)))"
      by (metis insert_walk_last)
    obtain ys l where tw: "takeWhile ?P as = ys @ [l]"
      using Cons by (metis list.discI rev_exhaust)
    define zs where "zs = dropWhile ?P as"
    have split: "as = (ys @ [l]) @ zs" unfolding zs_def tw [symmetric] by simp
    have "lseg ?h (g_timers s) ((ys @ [l]) @ zs) NULL" using seg split by simp
    then obtain i where i: "lseg ?h (g_timers s) ys l" "?h l = Some i" "l \<noteq> NULL"
      "lseg ?h (next_timer i) zs NULL"
      unfolding lseg_append by (auto split: option.splits)
    have fresh: "p \<notin> set ys" "l \<notin> set ys" "p \<noteq> l" "l \<notin> set zs" "p \<notin> set zs"
      using dist assms(2) unfolding split by auto
    have "g_timers s = a" "a \<noteq> NULL" "\<exists>n. ?h a = Some n" "\<not> due_ms t < ?due a"
      using seg as \<open>?P a\<close> by (auto split: option.splits)
    then have front: "(if g_timers s = NULL then Ret True
          else outcome_bind (deref ?h (g_timers s)) (\<lambda>hd. Ret (due_ms t < due_ms hd))) = Ret False"
      by (auto simp: due_of_def)
    let ?h1 = "?h(p \<mapsto> t\<lparr>next_timer := next_timer i\<rparr>)"
    let ?h2 = "?h1(l \<mapsto> i\<lparr>next_timer := p\<rparr>)"
    have l1: "?h1 l = Some i" using i(2) fresh(3) by simp
    have "insert_timer p s = Ret (s\<lparr>timer_heap := ?h2\<rparr>)"
      unfolding insert_timer_def using assms(3,4) front walk i l1 fresh(3)
      by (simp add: set_next_def tw)
    moreover have "lseg ?h2 (g_timers s) (ys @ l # p # zs) NULL"
      unfolding lseg_append using i fresh assms(3) by (intro exI [of _ l]) simp
    moreover have "insert_at ?due (due_ms t) p as = ys @ l # p # zs"
      by (simp add: insert_at_def tw zs_def)
    moreover have "contents ?h2 = contents ?h" "due_of ?h2 = ?due"
      using l1 assms(4) by (simp_all only: contents_upd_links due_of_upd_links)
    ultimately show ?thesis using dist' sorted' by (auto simp: timers_are_def)
  qed
qed

text \<open>Unlinking and freeing a timer.\<close>

definition is_timer :: "plugin_id \<Rightarrow> c_int \<Rightarrow> (addr \<rightharpoonup> scheduler_timer) \<Rightarrow> addr \<Rightarrow> bool" where
  "is_timer pid i h a =
     (case h a of None \<Rightarrow> False | Some t \<Rightarrow> timer_id t = i \<and> timer_plugin_id t = pid)"

lemma lseg_unlink:
  assumes "lseg h p (xs @ a # ys) NULL" "distinct (xs @ a # ys)" "h a = Some t" "xs \<noteq> []"
    and "h (last xs) = Some i"
  shows "lseg (h(last xs \<mapsto> i\<lparr>next_timer := next_timer t\<rparr>, a := None)) p (xs @ ys) NULL"
proof -
  obtain zs l where xs: "xs = zs @ [l]" using assms(4) by (cases xs rule: rev_cases) auto
  have "lseg h p zs l" "l \<noteq> NULL" "lseg h (next_timer t) ys NULL" "a \<noteq> l" "a \<notin> set zs"
    "a \<notin> set ys" "l \<notin> set zs" "l \<notin> set ys"
    using assms(1-3,5) unfolding xs lseg_append by (auto split: option.splits)
  then show ?thesis
    unfolding xs lseg_append by (auto simp: lseg_append)
qed

lemma cancel_walk_ok:
  assumes "lseg (timer_heap s) (g_timers s) (xs @ ys) NULL" "distinct (xs @ ys)"
    and "lseg (timer_heap s) it ys NULL" "prev = (if xs = [] then NULL else last xs)"
  shows "case find (is_timer pid i (timer_heap s)) ys of
      None \<Rightarrow> cancel_walk pid i prev it s = Some (Ret None)
    | Some a \<Rightarrow> \<exists>s'. cancel_walk pid i prev it s = Some (Ret (Some s'))
        \<and> lseg (timer_heap s') (g_timers s') (remove1 a (xs @ ys)) NULL
        \<and> contents (timer_heap s') = (contents (timer_heap s))(a := None)
        \<and> same_rest s s'"
  using assms
proof (induction ys arbitrary: xs prev it)
  case Nil
  then show ?case by (simp add: cancel_walk.simps)
next
  case (Cons a ys)
  let ?h = "timer_heap s"
  obtain t where t: "it = a" "a \<noteq> NULL" "?h a = Some t" "lseg ?h (next_timer t) ys NULL"
    using Cons.prems(3) by (auto split: option.splits)
  have a: "a \<notin> set xs" using Cons.prems(2) by simp
  show ?case
  proof (cases "is_timer pid i ?h a")
    case False
    then have walk: "cancel_walk pid i prev it s = cancel_walk pid i a (next_timer t) s"
      using t by (auto simp: cancel_walk.simps [of pid i prev a] is_timer_def)
    have "lseg ?h (g_timers s) ((xs @ [a]) @ ys) NULL" "distinct ((xs @ [a]) @ ys)"
      using Cons.prems(1,2) by simp_all
    from Cons.IH [OF this t(4), of a] have "case find (is_timer pid i ?h) ys of
      None \<Rightarrow> cancel_walk pid i a (next_timer t) s = Some (Ret None)
    | Some b \<Rightarrow> \<exists>s'. cancel_walk pid i a (next_timer t) s = Some (Ret (Some s'))
        \<and> lseg (timer_heap s') (g_timers s') (remove1 b (xs @ a # ys)) NULL
        \<and> contents (timer_heap s') = (contents ?h)(b := None) \<and> same_rest s s'"
      unfolding append_assoc append_Cons append_Nil by simp
    then show ?thesis unfolding walk using False by simp
  next
    case True
    have rem: "remove1 a (xs @ a # ys) = xs @ ys" using a by (simp add: remove1_append)
    show ?thesis
    proof (cases "xs = []")
      case True
      let ?s = "s\<lparr>g_timers := next_timer t, timer_heap := ?h(a := None)\<rparr>"
      have "cancel_walk pid i prev it s = Some (Ret (Some ?s))"
        using t True \<open>is_timer pid i ?h a\<close> Cons.prems(4)
        by (simp add: cancel_walk.simps [of pid i NULL a] is_timer_def)
      with True t rem Cons.prems(2) \<open>is_timer pid i ?h a\<close> show ?thesis
        by (auto simp: contents_def)
    next
      case False
      let ?l = "last xs"
      have "?l \<in> set xs" using False by simp
      with Cons.prems(1) obtain l where l: "?h ?l = Some l" "?l \<noteq> NULL"
        using lseg_dom [OF Cons.prems(1), of ?l] lseg_not_NULL [OF Cons.prems(1)] by force
      let ?h1 = "?h(?l \<mapsto> l\<lparr>next_timer := next_timer t\<rparr>)"
      let ?s = "s\<lparr>timer_heap := ?h1(a := None)\<rparr>"
      have "cancel_walk pid i prev it s = Some (Ret (Some ?s))"
        using t False l \<open>is_timer pid i ?h a\<close> Cons.prems(4)
        by (simp add: cancel_walk.simps [of pid i ?l a] is_timer_def set_next_def)
      moreover have "lseg (?h1(a := None)) (g_timers s) (xs @ ys) NULL"
        using Cons.prems(1,2) t(3) False l(1) by (rule lseg_unlink)
      moreover have "contents (?h1(a := None)) = (contents ?h1)(a := None)"
        by (auto simp: contents_def)
      ultimately show ?thesis
        using rem l(1) \<open>is_timer pid i ?h a\<close> by simp
    qed
  qed
qed

lemma sorted_remove1: "sorted (map f as) \<Longrightarrow> sorted (map f (remove1 a as))"
  by (induction as) (auto dest: set_remove1_subset [THEN subsetD])

lemma free_timers_ok:
  assumes "lseg h p as NULL" "distinct as"
  shows "free_timers p h = Some (Ret (\<lambda>a. if a \<in> set as then None else h a))"
  using assms
proof (induction as arbitrary: p h)
  case Nil
  then show ?case by (simp add: free_timers.simps)
next
  case (Cons a as)
  then obtain t where t: "p = a" "a \<noteq> NULL" "h a = Some t" "lseg h (next_timer t) as NULL"
    by (auto split: option.splits)
  then have "lseg (h(a := None)) (next_timer t) as NULL" "distinct as" using Cons.prems(2) by simp_all
  note ih = Cons.IH [OF this]
  have "free_timers p h = free_timers (next_timer t) (h(a := None))"
    using t by (simp add: free_timers.simps [of a h])
  also have "\<dots> = Some (Ret (\<lambda>b. if b \<in> set (a # as) then None else h b))"
    unfolding ih by (auto simp: fun_eq_iff)
  finally show ?case .
qed

lemma list_timers_ok:
  assumes "lseg h p as NULL"
  shows "list_timers n h p out =
    Some (Ret (fold (\<lambda>a out. list_append n out (scheduler_entry (the (h a)))) as out))"
  using assms
proof (induction as arbitrary: p out)
  case (Cons a as)
  then obtain t where "p = a" "a \<noteq> NULL" "h a = Some t" "lseg h (next_timer t) as NULL"
    by (auto split: option.splits)
  with Cons.IH show ?case by (simp add: list_timers.simps [of n h a])
qed (simp add: list_timers.simps)

text \<open>Rounds of the thread alone, at one reading of the clock.\<close>

fun sched_rounds ::
    "nat \<Rightarrow> u64 \<Rightarrow> nat \<times> nat \<Rightarrow> scheduler \<times> crash_log \<times> gw \<Rightarrow> (scheduler \<times> crash_log \<times> gw) outcome"
where
  "sched_rounds 0 now ts st = Ret st"
| "sched_rounds (Suc n) now ts st =
     outcome_bind (sched_thread_round now ts (\<lambda>s. s) None now st) (\<lambda>(_, st'). sched_rounds n now ts st')"

lemma timers_are_Cons:
  assumes "timers_are s (a # as)"
  obtains t where "g_timers s = a" "a \<noteq> NULL" "timer_heap s a = Some t" "a \<notin> set as"
    "lseg (timer_heap s) (next_timer t) as NULL" "distinct as"
    "sorted (map (due_of (timer_heap s)) as)"
  using assms by (auto simp: timers_are_def split: option.splits)

lemma sched_poll_fire:
  assumes "timers_are s (a # as)" "timer_heap s a = Some t" "g_running s" "due_ms t \<le> now"
  shows "sched_poll now ts s = Ret (Sched_fire a,
      s\<lparr>g_timers := next_timer t, timer_calls := timer_calls s @ [(timer_cb t, timer_user t)]\<rparr>)"
    and "timers_are (s\<lparr>g_timers := next_timer t,
      timer_calls := timer_calls s @ [(timer_cb t, timer_user t)]\<rparr>) as"
  using assms by (auto elim!: timers_are_Cons simp: sched_poll_def timers_are_def Let_def)

lemma timers_are_upd:
  assumes "timers_are s as" "a \<notin> set as" "s' = s\<lparr>timer_heap := (timer_heap s)(a := x)\<rparr>"
  shows "timers_are s' as" and "\<forall>b\<in>set as. due_of (timer_heap s') b = due_of (timer_heap s) b"
proof -
  show due: "\<forall>b\<in>set as. due_of (timer_heap s') b = due_of (timer_heap s) b"
    using assms(2,3) by (auto simp: due_of_def)
  then have "map (due_of (timer_heap s')) as = map (due_of (timer_heap s)) as" by simp
  then have "sorted (map (due_of (timer_heap s')) as)" using assms(1) by (simp only: timers_are_def)
  then show "timers_are s' as"
    using assms by (simp add: timers_are_def)
qed

lemma sched_rearm:
  assumes "timers_are s as" "a \<notin> set as" "a \<noteq> NULL" "timer_heap s a = Some t" "g_running s"
  shows "\<exists>s'. sched_finish now True iv a s = Ret s'
    \<and> timers_are s' (insert_at (due_of (timer_heap s)) (now + iv) a as)"
proof -
  let ?t = "t\<lparr>due_ms := now + iv, next_timer := NULL\<rparr>"
  let ?s = "s\<lparr>timer_heap := (timer_heap s)(a \<mapsto> ?t)\<rparr>"
  note upd = timers_are_upd [OF assms(1,2) refl, of "Some ?t"]
  from insert_timer_ok [OF upd(1) assms(2,3), of ?t] obtain s' where
    "insert_timer a ?s = Ret s'" "timers_are s' (insert_at (due_of (timer_heap ?s)) (now + iv) a as)"
    by auto
  with insert_at_cong [OF upd(2)] assms(3-5) show ?thesis by (simp add: sched_finish_def)
qed

lemma sched_round_one_shot:
  assumes "timers_are s (a # as)" "timer_heap s a = Some t" "g_running s" "due_ms t \<le> now"
    and "\<not> repeating t"
  shows "\<exists>s'. sched_thread_round now ts (\<lambda>s. s) None now2 (s, lg) = Ret (Sched_fire a, s', lg)
    \<and> timers_are s' as \<and> timer_heap s' = (timer_heap s)(a := None) \<and> g_running s'
    \<and> timer_calls s' = timer_calls s @ [(timer_cb t, timer_user t)]"
proof -
  let ?s1 = "s\<lparr>g_timers := next_timer t, timer_calls := timer_calls s @ [(timer_cb t, timer_user t)]\<rparr>"
  note poll = sched_poll_fire(1) [OF assms(1-4), of ts] sched_poll_fire(2) [OF assms(1-4)]
  have a: "a \<notin> set as" "a \<noteq> NULL" using assms(1) by (auto elim: timers_are_Cons)
  have "timers_are (?s1\<lparr>timer_heap := (timer_heap ?s1)(a := None)\<rparr>) as"
    by (rule timers_are_upd(1) [OF poll(2) a(1) refl])
  with poll(1) a assms(2,3,5) show ?thesis
    by (auto simp: sched_thread_round_def sched_report_crash_def sched_finish_def)
qed

section \<open>A scheduler with two timers\<close>

definition sample_timer :: "c_int \<Rightarrow> u64 \<Rightarrow> bool \<Rightarrow> addr \<Rightarrow> scheduler_timer" where
  "sample_timer i due rep n =
     \<lparr> timer_id = i, due_ms = due, interval_ms = (if rep then 5 else 0), timer_cb = 100,
       timer_plugin_id = 7, timer_user = 0, repeating = rep, next_timer = n \<rparr>"

definition sample_scheduler :: scheduler where
  "sample_scheduler =
     \<lparr> timer_heap = [1 \<mapsto> sample_timer 1 10 False 2, 2 \<mapsto> sample_timer 2 20 True NULL],
       g_timers = 1, g_next_id = 3, g_running = True, timer_calls = [] \<rparr>"

lemma sample_timers: "timers_are sample_scheduler [1, 2]"
  by (simp add: timers_are_def sample_scheduler_def sample_timer_def due_of_def)

text \<open>
  Cancelling finds the plugin's timer wherever it stands in the list, unlinks and frees exactly
  it, and leaves the other timers and their order alone; if the plugin has no such timer nothing
  changes and the result is -1.
\<close>

lemma scheduler_cancel_exact:
  assumes "timers_are s as" "0 < sint i"
  shows "case find (is_timer pid i (timer_heap s)) as of
      None \<Rightarrow> \<exists>g'. scheduler_cancel pid i (s, g) = Ret (-1, s, g')
    | Some a \<Rightarrow> \<exists>s'. scheduler_cancel pid i (s, g) = Ret (0, s', g)
        \<and> timers_are s' (remove1 a as)
        \<and> contents (timer_heap s') = (contents (timer_heap s))(a := None)"
proof -
  have seg: "lseg (timer_heap s) (g_timers s) ([] @ as) NULL" "distinct ([] @ as)"
    "lseg (timer_heap s) (g_timers s) as NULL"
    and sort: "sorted (map (due_of (timer_heap s)) as)"
    using assms(1) by (simp_all add: timers_are_def)
  note walk = cancel_walk_ok [OF seg, of NULL pid i, simplified]
  show ?thesis
  proof (cases "find (is_timer pid i (timer_heap s)) as")
    case None
    with walk assms(2) show ?thesis by (auto simp: scheduler_cancel_def)
  next
    case (Some a)
    with walk obtain s' where s': "cancel_walk pid i NULL (g_timers s) s = Some (Ret (Some s'))"
      "lseg (timer_heap s') (g_timers s') (remove1 a as) NULL"
      "contents (timer_heap s') = (contents (timer_heap s))(a := None)" by auto
    have "due_of (timer_heap s') b = due_of (timer_heap s) b" if "b \<noteq> a" for b
      unfolding due_of_alt s'(3) using that by simp
    then have "map (due_of (timer_heap s')) (remove1 a as) = map (due_of (timer_heap s)) (remove1 a as)"
      using seg(2) by auto
    then have "timers_are s' (remove1 a as)"
      using s'(2) seg(2) sorted_remove1 [OF sort, of a] by (simp only: timers_are_def) simp
    with s' Some assms(2) show ?thesis by (auto simp: scheduler_cancel_def)
  qed
qed

text \<open>Adding a timer, one-shot or repeating.\<close>

lemma scheduler_adds:
  assumes "timers_are s as" "timer_heap s p = None" "p \<noteq> NULL" "c \<noteq> 0" "rep \<longrightarrow> ms \<noteq> 0"
  shows "\<exists>s' g'. (if rep then scheduler_every_ms else scheduler_after_ms) p now (\<lambda>s. s) pid ms c u (s, g)
      = Ret (g_next_id s, s', g')
    \<and> timers_are s' (insert_at (due_of (timer_heap s)) (now + ms) p as)
    \<and> g_next_id s' = g_next_id s + 1
    \<and> contents (timer_heap s') = (contents (timer_heap s))(p \<mapsto>
        \<lparr> timer_id = g_next_id s, due_ms = now + ms, interval_ms = (if rep then ms else 0),
          timer_cb = c, timer_plugin_id = pid, timer_user = u, repeating = rep,
          next_timer = NULL \<rparr>)"
proof -
  let ?t = "\<lparr> timer_id = g_next_id s, due_ms = now + ms, interval_ms = (if rep then ms else 0),
          timer_cb = c, timer_plugin_id = pid, timer_user = u, repeating = rep,
          next_timer = NULL \<rparr>"
  let ?s1 = "s\<lparr>g_next_id := g_next_id s + 1, timer_heap := (timer_heap s)(p \<mapsto> ?t)\<rparr>"
  have p: "p \<notin> set as"
    using assms(1,2) lseg_dom [of "timer_heap s" "g_timers s" as NULL p] by (auto simp: timers_are_def)
  have due: "\<forall>a\<in>set as. due_of (timer_heap ?s1) a = due_of (timer_heap s) a"
    using p by (auto simp: due_of_def)
  then have map: "map (due_of (timer_heap ?s1)) as = map (due_of (timer_heap s)) as" by simp
  have ins: "insert_at (due_of (timer_heap ?s1)) d p as = insert_at (due_of (timer_heap s)) d p as" for d
    using due by (rule insert_at_cong)
  have "timers_are ?s1 as"
    unfolding timers_are_def map using assms(1) p by (simp add: timers_are_def)
  from insert_timer_ok [OF this p assms(3), of ?t] obtain s' where s':
    "insert_timer p ?s1 = Ret s'"
    "timers_are s' (insert_at (due_of (timer_heap ?s1)) (due_ms ?t) p as)"
    "contents (timer_heap s') = contents (timer_heap ?s1)"
    "same_rest ?s1 s'"
    by auto
  have are: "timers_are s' (insert_at (due_of (timer_heap s)) (now + ms) p as)"
    using s'(2) unfolding ins by simp
  have add: "add_timer p now rep pid ms c u s = Ret s'"
    using s'(1) by (simp add: add_timer_def)
  have con: "contents (timer_heap s') = (contents (timer_heap s))(p \<mapsto> ?t)"
    unfolding s'(3) by (auto simp: contents_def fun_eq_iff)
  then have "contents (timer_heap s') p = Some ?t" by simp
  then obtain t' where t': "timer_heap s' p = Some t'" "t'\<lparr>next_timer := NULL\<rparr> = ?t"
    by (auto simp: contents_def)
  have "timer_id t' = timer_id (t'\<lparr>next_timer := NULL\<rparr>)" by simp
  then have tid: "timer_id t' = g_next_id s" unfolding t'(2) by simp
  have "g_next_id s' = g_next_id s + 1" using s'(4) by (simp add: same_rest_def)
  then show ?thesis
    using add are con t'(1) tid assms(3-5)
    by (cases rep) (auto simp: scheduler_every_ms_def scheduler_after_ms_def read_timer_id_def)
qed

section \<open>Properties\<close>

text \<open>
  C14. A new timer, one-shot or repeating, goes behind every timer that is not due later and before
  the others: the list stays ordered, timers due at the same time fire in the order they were
  asked for, the walk over the list ends and touches no other timer, and the caller gets the
  timer's number.
\<close>

theorem scheduler_adds_in_order:
  assumes "timers_are s as" "timer_heap s p = None" "p \<noteq> NULL" "c \<noteq> 0" "ms \<noteq> 0"
  shows "\<exists>s' g'. (if rep then scheduler_every_ms else scheduler_after_ms) p now (\<lambda>s. s) pid ms c u (s, g)
      = Ret (g_next_id s, s', g')
    \<and> timers_are s' (insert_at (due_of (timer_heap s)) (now + ms) p as)
    \<and> g_next_id s' = g_next_id s + 1
    \<and> contents (timer_heap s') = (contents (timer_heap s))(p \<mapsto>
        \<lparr> timer_id = g_next_id s, due_ms = now + ms, interval_ms = (if rep then ms else 0),
          timer_cb = c, timer_plugin_id = pid, timer_user = u, repeating = rep,
          next_timer = NULL \<rparr>)"
  using assms by (intro scheduler_adds) simp_all

theorem scheduler_adds_in_order_witness:
  "\<exists>s' g'. scheduler_after_ms 3 5 (\<lambda>s. s) 7 10 100 0 (sample_scheduler, gw_initial) = Ret (3, s', g')
    \<and> timers_are s' [1, 3, 2]"
proof -
  have "timer_heap sample_scheduler 3 = None" "g_next_id sample_scheduler = 3"
    "insert_at (due_of (timer_heap sample_scheduler)) (5 + 10) 3 [1, 2] = [1, 3, 2]"
    by (simp_all add: sample_scheduler_def insert_at_def due_of_def sample_timer_def)
  with scheduler_adds_in_order [OF sample_timers, of 3 100 10 False 5 7 0 gw_initial]
  show ?thesis by auto
qed

text \<open>
  The absolute time the thread waits until is the clock plus exactly the milliseconds that are
  missing, with nanoseconds below one second.
\<close>

theorem wait_deadline_exact:
  assumes "tv_nsec < 1000000000" "wait_deadline w (tv_sec, tv_nsec) = (sec, nsec)"
  shows "nsec < 1000000000 \<and>
    sec * 1000000000 + nsec = tv_sec * 1000000000 + tv_nsec + unat w * 1000000"
proof -
  obtain q r where w: "unat w = q * 1000 + r" "r < 1000" "unat w div 1000 = q" "unat w mod 1000 = r"
    by (metis div_mult_mod_eq mod_less_divisor zero_less_numeral)
  then show ?thesis
    using assms by (auto simp: wait_deadline_def unat_mod unat_div Let_def split: if_splits)
qed

theorem wait_deadline_exact_witness:
  "wait_deadline 1500 (7, 600000000) = (9, 100000000)
    \<and> (9::nat) * 1000000000 + 100000000 = 7 * 1000000000 + 600000000 + 1500 * 1000000"
proof -
  have eq: "wait_deadline 1500 (7, 600000000) = (9, 100000000)"
    by (simp add: wait_deadline_def Let_def unat_div unat_mod)
  with wait_deadline_exact [OF _ eq] show ?thesis by simp
qed



text \<open>
  A repeating timer cannot be cancelled from its own callback, or from anywhere while the
  callback runs: it is not in the list then, so \<open>scheduler_cancel\<close> answers -1 and changes
  nothing, and when the callback is over the timer is armed again.
\<close>

theorem cancel_misses_running_timer:
  assumes "timers_are s (a # as)" "timer_heap s a = Some t" "g_running s" "due_ms t \<le> now"
    and "repeating t" "\<forall>b\<in>set as. \<not> is_timer (timer_plugin_id t) (timer_id t) (timer_heap s) b"
  shows "\<exists>s1. sched_poll now ts s = Ret (Sched_fire a, s1)
    \<and> (\<exists>g'. scheduler_cancel (timer_plugin_id t) (timer_id t) (s1, g) = Ret (-1, s1, g'))
    \<and> (\<exists>s2. sched_finish now2 (repeating t) (interval_ms t) a s1 = Ret s2
        \<and> timers_are s2 (insert_at (due_of (timer_heap s)) (now2 + interval_ms t) a as))"
proof -
  let ?s1 = "s\<lparr>g_timers := next_timer t, timer_calls := timer_calls s @ [(timer_cb t, timer_user t)]\<rparr>"
  note poll = sched_poll_fire(1) [OF assms(1-4), of ts] sched_poll_fire(2) [OF assms(1-4)]
  have a: "a \<notin> set as" "a \<noteq> NULL" using assms(1) by (auto elim: timers_are_Cons)
  have seg: "lseg (timer_heap ?s1) (g_timers ?s1) ([] @ as) NULL" "distinct ([] @ as)"
    "lseg (timer_heap ?s1) (g_timers ?s1) as NULL"
    using poll(2) by (simp_all add: timers_are_def)
  have none: "find (is_timer (timer_plugin_id t) (timer_id t) (timer_heap ?s1)) as = None"
    using assms(6) by (auto simp: find_None_iff)
  have "cancel_walk (timer_plugin_id t) (timer_id t) NULL (g_timers ?s1) ?s1 = Some (Ret None)"
    using cancel_walk_ok [OF seg, of NULL "timer_plugin_id t" "timer_id t"] unfolding none by simp
  then have "\<exists>g'. scheduler_cancel (timer_plugin_id t) (timer_id t) (?s1, g) = Ret (-1, ?s1, g')"
    by (simp add: scheduler_cancel_def)
  moreover from sched_rearm [OF poll(2) a, of t now2 "interval_ms t"] assms(2,3,5)
  have "\<exists>s2. sched_finish now2 (repeating t) (interval_ms t) a ?s1 = Ret s2
      \<and> timers_are s2 (insert_at (due_of (timer_heap s)) (now2 + interval_ms t) a as)" by simp
  ultimately show ?thesis using poll(1) by blast
qed

theorem cancel_misses_running_timer_witness:
  "\<exists>s1. sched_poll 25 (0, 0) (sample_scheduler\<lparr>g_timers := 2\<rparr>) = Ret (Sched_fire 2, s1)
    \<and> (\<exists>g'. scheduler_cancel 7 2 (s1, gw_initial) = Ret (-1, s1, g'))
    \<and> (\<exists>s2. sched_finish 30 True 5 2 s1 = Ret s2 \<and> timers_are s2 [2])"
proof -
  let ?s = "sample_scheduler\<lparr>g_timers := 2\<rparr>" and ?t = "sample_timer 2 20 True NULL"
  have "timers_are ?s [2]" "timer_heap ?s 2 = Some ?t" "g_running ?s" "due_ms ?t \<le> 25" "repeating ?t"
    "\<forall>b\<in>set []. \<not> is_timer (timer_plugin_id ?t) (timer_id ?t) (timer_heap ?s) b"
    by (simp_all add: timers_are_def sample_scheduler_def sample_timer_def)
  from cancel_misses_running_timer [OF this, of "(0, 0)" gw_initial 30] show ?thesis
    by (simp add: sample_timer_def insert_at_def)
qed

text \<open>
  \<open>scheduler_after_ms\<close> reads the timer's number after it has released the mutex. If the timer
  thread gets there first and the time has come, the timer is fired and freed, and the read is a
  use after free.
\<close>

theorem after_ms_use_after_free:
  assumes "timers_are s []" "g_running s" "p \<noteq> NULL" "timer_heap s p = None" "c \<noteq> 0"
    and "now + ms \<le> later"
  shows "scheduler_after_ms p now
      (\<lambda>s1. case sched_thread_round later ts (\<lambda>s. s) None later (s1, lg) of
               Ret (_, s2, _) \<Rightarrow> s2 | _ \<Rightarrow> s1) pid ms c u (s, g)
    = Fault UseAfterFree"
proof -
  let ?t = "\<lparr> timer_id = g_next_id s, due_ms = now + ms, interval_ms = 0, timer_cb = c,
      timer_plugin_id = pid, timer_user = u, repeating = False, next_timer = NULL \<rparr>"
  let ?s1 = "s\<lparr>g_next_id := g_next_id s + 1, timer_heap := (timer_heap s)(p \<mapsto> ?t), g_timers := p\<rparr>"
  have g: "g_timers s = NULL" using assms(1) by (simp add: timers_are_def)
  then have add: "add_timer p now False pid ms c u s = Ret ?s1"
    using assms(3) by (simp add: add_timer_def insert_timer_def set_next_def Let_def)
  have "timers_are ?s1 [p]" "timer_heap ?s1 p = Some ?t" "g_running ?s1" "due_ms ?t \<le> later"
    "\<not> repeating ?t"
    using assms by (simp_all add: timers_are_def)
  from sched_round_one_shot [OF this, of ts later lg] obtain s2 where
    "sched_thread_round later ts (\<lambda>s. s) None later (?s1, lg) = Ret (Sched_fire p, s2, lg)"
    "timer_heap s2 = (timer_heap ?s1)(p := None)" by blast
  then show ?thesis
    using add assms(3,5) by (simp add: scheduler_after_ms_def read_timer_id_def deref_def)
qed

theorem after_ms_use_after_free_witness:
  "scheduler_after_ms 1 5
      (\<lambda>s1. case sched_thread_round 6 (0, 0) (\<lambda>s. s) None 6 (s1, crash_log_initial, gw_initial) of
               Ret (_, s2, _) \<Rightarrow> s2 | _ \<Rightarrow> s1)
      7 1 100 0 (scheduler_initial\<lparr>g_running := True\<rparr>, gw_initial) = Fault UseAfterFree"
  by (rule after_ms_use_after_free) (simp_all add: scheduler_initial_def timers_are_def)

text \<open>
  A time that does not fit into 64 bits wraps: the timer is then due before the call was made,
  and if the list was empty the thread fires it at once.
\<close>

theorem after_ms_wraps:
  assumes "timers_are s []" "g_running s" "p \<noteq> NULL" "timer_heap s p = None" "c \<noteq> 0"
    and "2 ^ 64 \<le> unat now + unat ms"
  shows "\<exists>s' g'. scheduler_after_ms p now (\<lambda>s. s) pid ms c u (s, g) = Ret (g_next_id s, s', g')
    \<and> (\<exists>s2. sched_poll now ts s' = Ret (Sched_fire p, s2))"
proof -
  have "unat (now + ms) = (unat now + unat ms) mod 2 ^ 64"
    by (simp add: unat_word_ariths)
  also have "\<dots> < unat now"
    using assms(6) unsigned_less [of now, where ?'a = nat] unsigned_less [of ms, where ?'a = nat]
    by (simp add: mod_if) linarith
  finally have le: "now + ms \<le> now" by (simp add: word_le_nat_alt)
  have "g_timers s = NULL" using assms(1) by (simp add: timers_are_def)
  then show ?thesis
    using assms(2-5) le
    by (simp add: scheduler_after_ms_def read_timer_id_def add_timer_def insert_timer_def
        set_next_def sched_poll_def Let_def)
qed

theorem after_ms_wraps_witness:
  "\<exists>s' g'. scheduler_after_ms 1 5 (\<lambda>s. s) 7 (- 1) 100 0
      (scheduler_initial\<lparr>g_running := True\<rparr>, gw_initial) = Ret (1, s', g')
    \<and> (\<exists>s2. sched_poll 5 (0, 0) s' = Ret (Sched_fire 1, s2))"
  using after_ms_wraps [of "scheduler_initial\<lparr>g_running := True\<rparr>" 1 100 5 "- 1" 7 0 gw_initial "(0, 0)"]
  by (simp add: scheduler_initial_def timers_are_def unsigned_minus_1_eq_mask mask_eq_exp_minus_1)

text \<open>
  Shutting down ends, whatever the list holds, and frees every timer of it once; when no
  callback was running, no timer is left in memory.
\<close>

theorem scheduler_shutdown_frees_all:
  assumes "timers_are s as"
  shows "\<exists>s'. scheduler_shutdown_end (scheduler_shutdown_begin s) = Ret s' \<and> g_timers s' = NULL
    \<and> \<not> g_running s' \<and> (\<forall>a. timer_heap s' a = (if a \<in> set as then None else timer_heap s a))
    \<and> (dom (timer_heap s) = set as \<longrightarrow> timer_heap s' = Map.empty)"
proof -
  have "free_timers (g_timers s) (timer_heap s)
      = Some (Ret (\<lambda>a. if a \<in> set as then None else timer_heap s a))"
    using assms by (intro free_timers_ok) (simp_all add: timers_are_def)
  then show ?thesis
    by (auto simp: scheduler_shutdown_end_def scheduler_shutdown_begin_def fun_eq_iff)
qed

theorem scheduler_shutdown_frees_all_witness:
  "\<exists>s'. scheduler_shutdown_end (scheduler_shutdown_begin sample_scheduler) = Ret s'
    \<and> timer_heap s' = Map.empty"
proof -
  have "dom (timer_heap sample_scheduler) = set [1, 2]" by (auto simp: sample_scheduler_def)
  with scheduler_shutdown_frees_all [OF sample_timers] show ?thesis by blast
qed

text \<open>
  The list of timers is the text of all entries in the order they will fire, cut to the
  caller's buffer.
\<close>

theorem scheduler_get_list_prefix:
  assumes "timers_are s as"
  shows "scheduler_get_list n s = Ret (take (n - 1) (''[on_data] [scheduler]'' @ [NL] @ ''[getall]''
      @ [NL] @ concat (map (\<lambda>a. scheduler_entry (the (timer_heap s a))) as)))"
proof -
  let ?h = "''[on_data] [scheduler]'' @ [NL] @ ''[getall]'' @ [NL]"
  have "NUL \<notin> set (take (n - 1) ?h)" by (rule contra_subsetD [OF set_take_subset]) simp
  then have "snprintf n ?h = take (n - 1) ?h" unfolding snprintf_def by (rule cstr_id)
  moreover have "list_timers n (timer_heap s) (g_timers s) out =
      Some (Ret (fold (\<lambda>a out. list_append n out (scheduler_entry (the (timer_heap s a)))) as out))" for out
    using assms by (intro list_timers_ok) (simp add: timers_are_def)
  ultimately show ?thesis
    unfolding scheduler_get_list_def by (simp only: option.case fold_list_append append_assoc)
qed

theorem scheduler_get_list_prefix_witness:
  "scheduler_get_list 40 sample_scheduler
    = Ret (''[on_data] [scheduler]'' @ [NL] @ ''[getall]'' @ [NL] @ ''[after] '')"
proof -
  have "take 39 (''[on_data] [scheduler]'' @ [NL] @ ''[getall]'' @ [NL]
      @ concat (map (\<lambda>a. scheduler_entry (the (timer_heap sample_scheduler a))) [1, 2]))
    = ''[on_data] [scheduler]'' @ [NL] @ ''[getall]'' @ [NL] @ ''[after] ''"
    by code_simp
  with scheduler_get_list_prefix [OF sample_timers, of 40] show ?thesis by simp
qed

end
