(* ===== verification/SchedSystem.thy ===== *)
theory SchedSystem
  imports Scheduler
begin

text \<open>
  The scheduler of src/core/scheduler.c with its threads: the timer thread, \<open>n\<close> threads that add and
  cancel timers, and one that lists them.

  A step is what a thread does between two points at which another thread can come in between. The
  bodies under \<open>g_mtx\<close> are one step each. \<open>scheduler_after_ms\<close> and \<open>scheduler_every_ms\<close> do three things
  outside the mutex: they read and then write \<open>g_next_id\<close>, and they read \<open>t->id\<close> when the timer is
  already in the list. \<open>scheduler_get_list\<close> walks over the list without the mutex at all, so each timer
  it looks at is a step. Client 0 is the callback the timer thread is in. A thread that has read freed
  memory takes no further step: what it would do is undefined.
\<close>

section \<open>States\<close>

record add_call =
  call_rep :: bool
  call_pid :: plugin_id
  call_ms :: u64
  call_cb :: u64
  call_user :: u64

text \<open>
  A client is outside the scheduler, between the read and the write of \<open>g_next_id\<close>, in front of
  \<open>pthread_mutex_lock\<close>, or behind \<open>pthread_mutex_unlock\<close>.
\<close>

datatype client_pc =
    C_idle
  | C_load addr add_call c_int
  | C_ready addr add_call
  | C_read addr add_call
  | C_fault fault

datatype timer_pc =
    T_top
  | T_firing addr bool u64
  | T_gone

datatype lister_pc =
    L_idle
  | L_at nat addr string
  | L_fault fault

record timer_sys =
  ts_sched :: scheduler
  ts_gw :: gw
  ts_thread :: timer_pc
  ts_clients :: "nat \<Rightarrow> client_pc"
  ts_lister :: lister_pc

definition timer_sys_initial :: "gw \<Rightarrow> timer_sys" where
  "timer_sys_initial g =
     \<lparr> ts_sched = scheduler_initial, ts_gw = g, ts_thread = T_gone, ts_clients = (\<lambda>k. C_idle),
       ts_lister = L_idle \<rparr>"

section \<open>The parts of a call\<close>

text \<open>The timer as a call fills it in, with the number it has read and the time it is due.\<close>

definition new_timer :: "add_call \<Rightarrow> c_int \<Rightarrow> u64 \<Rightarrow> scheduler_timer" where
  "new_timer c i due =
     \<lparr> timer_id = i, due_ms = due, interval_ms = (if call_rep c then call_ms c else 0),
       timer_cb = call_cb c, timer_plugin_id = call_pid c, timer_user = call_user c,
       repeating = call_rep c, next_timer = NULL \<rparr>"

text \<open>\<open>malloc\<close> and the first half of \<open>t->id = g_next_id++\<close>; the time is not known yet.\<close>

definition add_load :: "addr \<Rightarrow> add_call \<Rightarrow> scheduler \<Rightarrow> c_int \<times> scheduler" where
  "add_load p c s =
     (g_next_id s, s\<lparr>timer_heap := (timer_heap s)(p \<mapsto> new_timer c (g_next_id s) 0)\<rparr>)"

text \<open>The second half, and the other fields.\<close>

definition add_store :: "addr \<Rightarrow> add_call \<Rightarrow> c_int \<Rightarrow> u64 \<Rightarrow> scheduler \<Rightarrow> scheduler" where
  "add_store p c i now s =
     s\<lparr>g_next_id := i + 1, timer_heap := (timer_heap s)(p \<mapsto> new_timer c i (now + call_ms c))\<rparr>"

definition call_allowed :: "add_call \<Rightarrow> bool" where
  "call_allowed c \<longleftrightarrow> call_cb c \<noteq> 0 \<and> (call_rep c \<longrightarrow> call_ms c \<noteq> 0)"

definition call_result :: "addr \<Rightarrow> add_call \<Rightarrow> scheduler \<times> gw \<Rightarrow> (c_int \<times> scheduler \<times> gw) outcome" where
  "call_result p c st =
     read_timer_id (if call_rep c then ''[subs_every] '' else ''[subs_after] '') p (call_pid c) (call_ms c) st"

text \<open>Run without interruption, the parts are the two functions.\<close>

lemma add_call_parts:
  assumes "call_allowed c" "p \<noteq> NULL"
  shows "(if call_rep c then scheduler_every_ms else scheduler_after_ms)
      p now (\<lambda>s. s) (call_pid c) (call_ms c) (call_cb c) (call_user c) (s, g)
    = (case add_load p c s of (i, s1) \<Rightarrow>
         outcome_bind (insert_timer p (add_store p c i now s1)) (\<lambda>s2. call_result p c (s2, g)))"
  using assms
  by (simp add: scheduler_every_ms_def scheduler_after_ms_def add_timer_def add_load_def add_store_def
      call_allowed_def call_result_def new_timer_def Let_def)

section \<open>Steps\<close>

text \<open>What the calls that have begun and the timer thread do.\<close>

inductive sched_work :: "timer_sys \<Rightarrow> timer_sys \<Rightarrow> bool" where
  store: "ts_clients s k = C_load p c i
    \<Longrightarrow> sched_work s (s\<lparr>ts_sched := add_store p c i now (ts_sched s), ts_clients := (ts_clients s)(k := C_ready p c)\<rparr>)"
| insert: "ts_clients s k = C_ready p c \<Longrightarrow> insert_timer p (ts_sched s) = Ret s1
    \<Longrightarrow> sched_work s (s\<lparr>ts_sched := s1, ts_clients := (ts_clients s)(k := C_read p c)\<rparr>)"
| return: "ts_clients s k = C_read p c \<Longrightarrow> call_result p c (ts_sched s, ts_gw s) = Ret (i, s1, g)
    \<Longrightarrow> sched_work s (s\<lparr>ts_sched := s1, ts_gw := g, ts_clients := (ts_clients s)(k := C_idle)\<rparr>)"
| crash: "ts_clients s k = C_read p c \<Longrightarrow> call_result p c (ts_sched s, ts_gw s) = Fault f
    \<Longrightarrow> sched_work s (s\<lparr>ts_clients := (ts_clients s)(k := C_fault f)\<rparr>)"
| fire: "ts_thread s = T_top \<Longrightarrow> sched_poll now tspec (ts_sched s) = Ret (Sched_fire p, s1)
    \<Longrightarrow> deref (timer_heap (ts_sched s)) p = Ret t
    \<Longrightarrow> sched_work s (s\<lparr>ts_sched := s1, ts_thread := T_firing p (repeating t) (interval_ms t)\<rparr>)"
| exit: "ts_thread s = T_top \<Longrightarrow> sched_poll now tspec (ts_sched s) = Ret (Sched_exit, s1)
    \<Longrightarrow> sched_work s (s\<lparr>ts_sched := s1, ts_thread := T_gone\<rparr>)"
| finish: "ts_thread s = T_firing p rep iv \<Longrightarrow> ts_clients s 0 = C_idle
    \<Longrightarrow> sched_finish now rep iv p (ts_sched s) = Ret s1
    \<Longrightarrow> sched_work s (s\<lparr>ts_sched := s1, ts_thread := T_top\<rparr>)"

text \<open>
  What comes from outside: the calls, starting and stopping, and the walk of the lister. A callback
  can call only while it runs. \<open>malloc\<close> returns any address that is not in use.
\<close>

inductive sched_input :: "nat \<Rightarrow> timer_sys \<Rightarrow> timer_sys \<Rightarrow> bool" for n where
  begin_add: "ts_clients s k = C_idle \<Longrightarrow> k < n \<Longrightarrow> k = 0 \<longrightarrow> (\<exists>q rep iv. ts_thread s = T_firing q rep iv)
    \<Longrightarrow> call_allowed c \<Longrightarrow> p \<noteq> NULL \<Longrightarrow> timer_heap (ts_sched s) p = None
    \<Longrightarrow> add_load p c (ts_sched s) = (i, s1)
    \<Longrightarrow> sched_input n s (s\<lparr>ts_sched := s1, ts_clients := (ts_clients s)(k := C_load p c i)\<rparr>)"
| cancel: "scheduler_cancel pid i (ts_sched s, ts_gw s) = Ret (r, s1, g)
    \<Longrightarrow> sched_input n s (s\<lparr>ts_sched := s1, ts_gw := g\<rparr>)"
| start: "ts_thread s = T_gone \<Longrightarrow> scheduler_init True (ts_sched s) = (r, s1)
    \<Longrightarrow> sched_input n s (s\<lparr>ts_sched := s1, ts_thread := T_top\<rparr>)"
| stop: "sched_input n s (s\<lparr>ts_sched := scheduler_shutdown_begin (ts_sched s)\<rparr>)"
| join: "ts_thread s = T_gone \<Longrightarrow> scheduler_shutdown_end (ts_sched s) = Ret s1
    \<Longrightarrow> sched_input n s (s\<lparr>ts_sched := s1\<rparr>)"
| list_begin: "ts_lister s = L_idle
    \<Longrightarrow> sched_input n s (s\<lparr>ts_lister := L_at m (g_timers (ts_sched s))
          (snprintf m (''[on_data] [scheduler]'' @ [NL] @ ''[getall]'' @ [NL]))\<rparr>)"
| list_next: "ts_lister s = L_at m it out \<Longrightarrow> deref (timer_heap (ts_sched s)) it = Ret t
    \<Longrightarrow> sched_input n s (s\<lparr>ts_lister := L_at m (next_timer t) (list_append m out (scheduler_entry t))\<rparr>)"
| list_end: "ts_lister s = L_at m NULL out \<Longrightarrow> sched_input n s (s\<lparr>ts_lister := L_idle\<rparr>)"
| list_crash: "ts_lister s = L_at m it out \<Longrightarrow> it \<noteq> NULL \<Longrightarrow> deref (timer_heap (ts_sched s)) it = Fault f
    \<Longrightarrow> sched_input n s (s\<lparr>ts_lister := L_fault f\<rparr>)"

definition sched_step :: "nat \<Rightarrow> timer_sys \<Rightarrow> timer_sys \<Rightarrow> bool" where
  "sched_step n s s' \<longleftrightarrow> sched_work s s' \<or> sched_input n s s'"

inductive sched_reach :: "nat \<Rightarrow> timer_sys \<Rightarrow> bool" for n where
  reach_start: "sched_reach n (timer_sys_initial g)"
| reach_step: "sched_reach n s \<Longrightarrow> sched_step n s s' \<Longrightarrow> sched_reach n s'"

section \<open>The invariant\<close>

text \<open>
  Every timer in memory belongs to one place: the list, a call that has not inserted it yet, or the
  timer thread while its callback runs.
\<close>

fun holder :: "client_pc \<Rightarrow> addr option" where
  "holder (C_load p c i) = Some p"
| "holder (C_ready p c) = Some p"
| "holder _ = None"

fun thread_holder :: "timer_pc \<Rightarrow> addr option" where
  "thread_holder (T_firing p rep iv) = Some p"
| "thread_holder _ = None"

text \<open>\<open>D\<close> is the memory, \<open>L\<close> the list, \<open>H\<close> what the calls hold and \<open>R\<close> what the thread holds.\<close>

definition places :: "addr set \<Rightarrow> addr set \<Rightarrow> (nat \<Rightarrow> addr option) \<Rightarrow> addr option \<Rightarrow> bool" where
  "places D L H R \<longleftrightarrow> NULL \<notin> D \<and> D = L \<union> ran H \<union> set_option R
     \<and> L \<inter> ran H = {} \<and> L \<inter> set_option R = {} \<and> ran H \<inter> set_option R = {} \<and> inj_on H (dom H)"

definition heap_split :: "timer_sys \<Rightarrow> addr list \<Rightarrow> bool" where
  "heap_split s as \<longleftrightarrow> timers_are (ts_sched s) as
     \<and> places (dom (timer_heap (ts_sched s))) (set as) (\<lambda>k. holder (ts_clients s k))
         (thread_holder (ts_thread s))"

fun client_ok :: "client_pc \<Rightarrow> bool" where
  "client_ok (C_read p c) = (p \<noteq> NULL)"
| "client_ok (C_fault f) = (f = UseAfterFree)"
| "client_ok _ = True"

definition sched_inv :: "nat \<Rightarrow> timer_sys \<Rightarrow> bool" where
  "sched_inv n s \<longleftrightarrow> (\<exists>as. heap_split s as)
     \<and> (\<forall>k. client_ok (ts_clients s k)) \<and> (\<forall>k\<ge>n. ts_clients s k = C_idle)"

lemma sched_inv_initial: "sched_inv n (timer_sys_initial g)"
  unfolding sched_inv_def heap_split_def
  by (intro conjI exI [of _ "[]"])
    (simp_all add: places_def timer_sys_initial_def scheduler_initial_def timers_are_def)

lemma dom_contents: "contents h = contents h' \<Longrightarrow> dom h = dom h'"
proof -
  have "dom (contents g) = dom g" for g by (auto simp: contents_def)
  then show "contents h = contents h' \<Longrightarrow> dom h = dom h'" by metis
qed

lemma holder_upd: "(\<lambda>j. holder ((c(k := q)) j)) = (\<lambda>j. holder (c j))(k := holder q)"
  by (simp add: fun_eq_iff)

lemma places_make:
  assumes "places D L H R" "p \<notin> D" "p \<noteq> NULL" "H k = None"
  shows "places (insert p D) L (H(k \<mapsto> p)) R"
proof -
  have "p \<notin> ran H" using assms(1,2) by (auto simp: places_def)
  then have "inj_on (H(k \<mapsto> p)) (dom (H(k \<mapsto> p)))"
    using assms(1) by (auto simp: places_def inj_on_def ran_def)
  with assms show ?thesis by (auto simp: places_def ran_map_upd)
qed

lemma ran_take_out:
  assumes "inj_on H (dom H)" "H k = Some p"
  shows "ran (H(k := None)) = ran H - {p}"
proof -
  have p: "H j = Some p \<longleftrightarrow> j = k" for j
    using inj_onD [OF assms(1), of j k] assms(2) by auto
  have "ran (H(k := None)) = {b. \<exists>j. j \<noteq> k \<and> H j = Some b}" by (auto simp: ran_def)
  also have "\<dots> = ran H - {p}"
    using p unfolding ran_def by (auto, metis assms(2) option.inject)
  finally show ?thesis .
qed

lemma places_hand_over:
  assumes "places D L H R" "H k = Some p"
  shows "places D (insert p L) (H(k := None)) R"
proof -
  have "inj_on (H(k := None)) (dom (H(k := None)))"
    using assms(1) by (auto simp: places_def inj_on_def)
  moreover have "p \<in> ran H" using assms(2) by (auto simp: ran_def)
  ultimately show ?thesis
    using assms ran_take_out [of H k p] unfolding places_def by auto
qed

lemma places_thread:
  "places D (insert p L) H None \<Longrightarrow> p \<notin> L \<Longrightarrow> places D L H (Some p)"
  "places D L H (Some p) \<Longrightarrow> places D (insert p L) H None"
  "places D L H (Some p) \<Longrightarrow> places (D - {p}) L H None"
  unfolding places_def by auto

lemma places_remove: "places D L H R \<Longrightarrow> A \<subseteq> L \<Longrightarrow> places (D - A) (L - A) H R"
  unfolding places_def by auto

text \<open>A client moves, the thread moves, or neither.\<close>

lemma inv_client:
  assumes "sched_inv n s" "k < n" "client_ok q" "timers_are s1 bs"
    and "places (dom (timer_heap s1)) (set bs) ((\<lambda>j. holder (ts_clients s j))(k := holder q))
          (thread_holder (ts_thread s))"
  shows "sched_inv n (s\<lparr>ts_sched := s1, ts_clients := (ts_clients s)(k := q)\<rparr>)"
proof -
  have "\<forall>j. client_ok (((ts_clients s)(k := q)) j)" "\<forall>j\<ge>n. ((ts_clients s)(k := q)) j = C_idle"
    using assms(1-3) by (auto simp: sched_inv_def)
  with assms(4,5) show ?thesis
    unfolding sched_inv_def heap_split_def by (auto simp: holder_upd simp del: fun_upd_apply)
qed

lemma inv_thread:
  assumes "sched_inv n s" "timers_are s1 bs"
    and "places (dom (timer_heap s1)) (set bs) (\<lambda>j. holder (ts_clients s j)) (thread_holder q)"
  shows "sched_inv n (s\<lparr>ts_sched := s1, ts_thread := q\<rparr>)"
  using assms unfolding sched_inv_def heap_split_def by auto

lemma inv_fields [simp]:
  "sched_inv n (s\<lparr>ts_gw := g\<rparr>) = sched_inv n s" "sched_inv n (s\<lparr>ts_lister := l\<rparr>) = sched_inv n s"
  by (simp_all add: sched_inv_def heap_split_def)

lemma inv_sched:
  assumes "sched_inv n s" "timers_are s1 bs"
    and "places (dom (timer_heap s1)) (set bs) (\<lambda>j. holder (ts_clients s j)) (thread_holder (ts_thread s))"
  shows "sched_inv n (s\<lparr>ts_sched := s1\<rparr>)"
  using inv_thread [OF assms] by simp

lemma inv_split:
  assumes "sched_inv n s"
  obtains as where "timers_are (ts_sched s) as"
    "places (dom (timer_heap (ts_sched s))) (set as) (\<lambda>k. holder (ts_clients s k)) (thread_holder (ts_thread s))"
  using assms by (auto simp: sched_inv_def heap_split_def)

lemma inv_busy: "sched_inv n s \<Longrightarrow> ts_clients s k \<noteq> C_idle \<Longrightarrow> k < n"
  unfolding sched_inv_def by (meson leI)

lemma held_facts:
  assumes "places D L H R" "H k = Some p"
  shows "p \<in> D" "p \<notin> L" "p \<noteq> NULL"
  using assms by (auto simp: places_def ran_def)

section \<open>What the operations do to the places\<close>

text \<open>Inserting a timer that is not in the list.\<close>

lemma insert_ok:
  assumes "timers_are s as" "p \<notin> set as" "p \<noteq> NULL" "p \<in> dom (timer_heap s)"
  obtains s' bs where "insert_timer p s = Ret s'" "timers_are s' bs" "set bs = insert p (set as)"
    "dom (timer_heap s') = dom (timer_heap s)" "same_rest s s'"
proof -
  obtain t where "timer_heap s p = Some t" using assms(4) by auto
  from insert_timer_ok [OF assms(1-3) this] obtain s' where
    "insert_timer p s = Ret s'" "timers_are s' (insert_at (due_of (timer_heap s)) (due_ms t) p as)"
    "contents (timer_heap s') = contents (timer_heap s)" "same_rest s s'" by blast
  then show thesis using that dom_contents by (metis set_insert_at)
qed

lemma finish_ok:
  assumes "timers_are s as" "p \<notin> set as" "p \<noteq> NULL" "p \<in> dom (timer_heap s)"
  shows "\<exists>s' bs. sched_finish now rep iv p s = Ret s' \<and> timers_are s' bs
    \<and> (if rep \<and> g_running s then set bs = insert p (set as) \<and> dom (timer_heap s') = dom (timer_heap s)
       else bs = as \<and> dom (timer_heap s') = dom (timer_heap s) - {p})
    \<and> same_rest s s'"
proof -
  obtain t where t: "timer_heap s p = Some t" using assms(4) by auto
  show ?thesis
  proof (cases "rep \<and> g_running s")
    case True
    let ?s = "s\<lparr>timer_heap := (timer_heap s)(p \<mapsto> t\<lparr>due_ms := now + iv, next_timer := NULL\<rparr>)\<rparr>"
    have "timers_are ?s as" by (rule timers_are_upd(1) [OF assms(1,2) refl])
    then obtain s' bs where "insert_timer p ?s = Ret s'" "timers_are s' bs" "set bs = insert p (set as)"
      "dom (timer_heap s') = dom (timer_heap ?s)" "same_rest ?s s'"
      by (rule insert_ok) (use assms in auto)
    with True t assms(3,4) show ?thesis
      by (intro exI [of _ s'] exI [of _ bs]) (auto simp: sched_finish_def same_rest_def)
  next
    case False
    have "timers_are (s\<lparr>timer_heap := (timer_heap s)(p := None)\<rparr>) as"
      by (rule timers_are_upd(1) [OF assms(1,2) refl])
    with False t show ?thesis by (auto simp: sched_finish_def)
  qed
qed

lemma cancel_ok:
  assumes "timers_are s as"
  shows "\<exists>r s' g' bs A. scheduler_cancel pid i (s, g) = Ret (r, s', g') \<and> timers_are s' bs
    \<and> A \<subseteq> set as \<and> set bs = set as - A \<and> dom (timer_heap s') = dom (timer_heap s) - A"
proof (cases "0 < sint i \<and> find (is_timer pid i (timer_heap s)) as \<noteq> None")
  case True
  then obtain a where a: "find (is_timer pid i (timer_heap s)) as = Some a" by auto
  with True scheduler_cancel_exact [OF assms, of i pid g] obtain s' where s':
    "scheduler_cancel pid i (s, g) = Ret (0, s', g)" "timers_are s' (remove1 a as)"
    "contents (timer_heap s') = (contents (timer_heap s))(a := None)" by auto
  have "distinct as" using assms by (simp add: timers_are_def)
  moreover have "dom (contents h) = dom h" for h by (auto simp: contents_def)
  then have "dom (timer_heap s') = dom (timer_heap s) - {a}" using s'(3) by (metis dom_fun_upd)
  moreover have "a \<in> set as" using a by (auto dest: find_Some_mem)
  ultimately show ?thesis
    using s'(1,2) by (intro exI [of _ "remove1 a as"] exI [of _ "{a}"] exI conjI) auto
next
  case False
  then have "\<exists>g'. scheduler_cancel pid i (s, g) = Ret (-1, s, g')"
    using scheduler_cancel_exact [OF assms, of i pid g] by (auto simp: scheduler_cancel_def not_less)
  then obtain g' where "scheduler_cancel pid i (s, g) = Ret (-1, s, g')" ..
  with assms show ?thesis by (intro exI [of _ "-1"] exI [of _ s] exI [of _ g'] exI [of _ as] exI [of _ "{}"]) simp
qed

lemma poll_ok:
  assumes "timers_are s as"
  shows "\<exists>a s'. sched_poll now tspec s = Ret (a, s')
    \<and> (case a of Sched_fire p \<Rightarrow> \<exists>bs. as = p # bs \<and> p \<notin> set bs \<and> timers_are s' bs
          \<and> timer_heap s' = timer_heap s \<and> g_running s
       | Sched_exit \<Rightarrow> s' = s \<and> \<not> g_running s
       | _ \<Rightarrow> s' = s \<and> g_running s)"
proof (cases "g_running s")
  case True
  show ?thesis
  proof (cases as)
    case Nil
    with assms True show ?thesis by (simp add: sched_poll_def timers_are_def)
  next
    case (Cons p bs)
    with assms obtain t where t: "g_timers s = p" "p \<noteq> NULL" "timer_heap s p = Some t" "p \<notin> set bs"
      by (auto elim: timers_are_Cons)
    show ?thesis
    proof (cases "due_ms t \<le> now")
      case True
      with sched_poll_fire [OF _ t(3) \<open>g_running s\<close>] assms Cons t(4) \<open>g_running s\<close> show ?thesis by simp
    next
      case False
      with t \<open>g_running s\<close> show ?thesis by (simp add: sched_poll_def Let_def)
    qed
  qed
qed (simp add: sched_poll_def)

lemma shutdown_end_ok:
  assumes "timers_are s as"
  shows "\<exists>s'. scheduler_shutdown_end s = Ret s' \<and> timers_are s' []
    \<and> dom (timer_heap s') = dom (timer_heap s) - set as"
proof -
  have "free_timers (g_timers s) (timer_heap s) = Some (Ret (\<lambda>a. if a \<in> set as then None else timer_heap s a))"
    using assms by (intro free_timers_ok) (simp_all add: timers_are_def)
  moreover have "dom (\<lambda>a. if a \<in> set as then None else timer_heap s a) = dom (timer_heap s) - set as"
    by (auto split: if_splits)
  ultimately show ?thesis by (simp add: scheduler_shutdown_end_def timers_are_def)
qed

lemma scheduler_operations_safe:
  assumes "sched_inv n s"
  shows "ts_clients s k = C_ready p c \<Longrightarrow> \<exists>s1. insert_timer p (ts_sched s) = Ret s1"
    and "\<exists>r. scheduler_cancel pid i (ts_sched s, g) = Ret r"
    and "\<exists>r. sched_poll now tspec (ts_sched s) = Ret r"
    and "ts_thread s = T_firing q rep iv \<Longrightarrow> \<exists>s1. sched_finish now rep iv q (ts_sched s) = Ret s1"
    and "\<exists>s1. scheduler_shutdown_end (ts_sched s) = Ret s1"
proof -
  obtain as where as: "timers_are (ts_sched s) as"
    "places (dom (timer_heap (ts_sched s))) (set as) (\<lambda>k. holder (ts_clients s k)) (thread_holder (ts_thread s))"
    using assms by (rule inv_split)
  show "\<exists>s1. insert_timer p (ts_sched s) = Ret s1" if "ts_clients s k = C_ready p c"
  proof -
    have p: "p \<in> dom (timer_heap (ts_sched s))" "p \<notin> set as" "p \<noteq> NULL"
      using held_facts [OF as(2), of k p] that by simp_all
    show ?thesis by (rule insert_ok [OF as(1) p(2,3,1)]) blast
  qed
  show "\<exists>r. scheduler_cancel pid i (ts_sched s, g) = Ret r" using cancel_ok [OF as(1)] by blast
  show "\<exists>r. sched_poll now tspec (ts_sched s) = Ret r" using poll_ok [OF as(1)] by blast
  show "\<exists>s1. sched_finish now rep iv q (ts_sched s) = Ret s1" if "ts_thread s = T_firing q rep iv"
    using as(2) that finish_ok [OF as(1), of q now rep iv] by (auto simp: places_def)
  show "\<exists>s1. scheduler_shutdown_end (ts_sched s) = Ret s1" using shutdown_end_ok [OF as(1)] by blast
qed

section \<open>Preservation\<close>

lemma work_keeps_inv:
  assumes "sched_work s s'" "sched_inv n s"
  shows "sched_inv n s'"
proof -
  obtain as where as: "timers_are (ts_sched s) as"
    "places (dom (timer_heap (ts_sched s))) (set as) (\<lambda>k. holder (ts_clients s k)) (thread_holder (ts_thread s))"
    using assms(2) by (rule inv_split)
  note busy = inv_busy [OF assms(2)]
  show ?thesis using assms(1)
  proof cases
    case (store k p c i now)
    let ?s1 = "add_store p c i now (ts_sched s)"
    have p: "p \<in> dom (timer_heap (ts_sched s))" "p \<notin> set as"
      using held_facts [OF as(2), of k p] store by simp_all
    let ?s2 = "ts_sched s\<lparr>timer_heap := (timer_heap (ts_sched s))(p \<mapsto> new_timer c i (now + call_ms c))\<rparr>"
    have "timers_are ?s2 as" by (rule timers_are_upd(1) [OF as(1) p(2) refl])
    then have "timers_are ?s1 as" by (simp add: add_store_def timers_are_def)
    moreover have "dom (timer_heap ?s1) = dom (timer_heap (ts_sched s))"
      using p(1) by (auto simp: add_store_def)
    moreover have "(\<lambda>j. holder (ts_clients s j))(k := holder (C_ready p c)) = (\<lambda>j. holder (ts_clients s j))"
      using store by auto
    ultimately show ?thesis unfolding store(1)
      using as(2) busy [of k] store by (intro inv_client [OF assms(2)]) simp_all
  next
    case (insert k p c s1)
    have p: "p \<in> dom (timer_heap (ts_sched s))" "p \<notin> set as" "p \<noteq> NULL"
      using held_facts [OF as(2), of k p] insert by simp_all
    obtain bs where bs: "timers_are s1 bs" "set bs = Set.insert p (set as)"
      "dom (timer_heap s1) = dom (timer_heap (ts_sched s))"
      by (rule insert_ok [OF as(1) p(2,3,1)]) (use insert in auto)
    have "places (dom (timer_heap s1)) (set bs) ((\<lambda>j. holder (ts_clients s j))(k := None)) (thread_holder (ts_thread s))"
      unfolding bs(2,3) by (rule places_hand_over [OF as(2)]) (simp add: insert)
    then show ?thesis unfolding insert(1)
      using bs(1) busy [of k] insert p(3) by (intro inv_client [OF assms(2)]) simp_all
  next
    case (return k p c i s1 g)
    then have s1: "s1 = ts_sched s" by (auto simp: call_result_def read_timer_id_def)
    have "(\<lambda>j. holder (ts_clients s j))(k := holder C_idle) = (\<lambda>j. holder (ts_clients s j))"
      using return by auto
    then have "sched_inv n (s\<lparr>ts_sched := s1, ts_clients := (ts_clients s)(k := C_idle)\<rparr>)"
      unfolding s1 using as busy [of k] return by (intro inv_client [OF assms(2)]) simp_all
    then show ?thesis unfolding return(1) by (simp add: sched_inv_def heap_split_def)
  next
    case (crash k p c f)
    have "p \<noteq> NULL" using assms(2) crash unfolding sched_inv_def by (metis client_ok.simps(1))
    then have "f = UseAfterFree" using crash
      by (auto simp: call_result_def read_timer_id_def deref_def split: option.splits)
    moreover have "(\<lambda>j. holder (ts_clients s j))(k := holder (C_fault f)) = (\<lambda>j. holder (ts_clients s j))"
      using crash by auto
    ultimately have "sched_inv n (s\<lparr>ts_sched := ts_sched s, ts_clients := (ts_clients s)(k := C_fault f)\<rparr>)"
      using as busy [of k] crash by (intro inv_client [OF assms(2)]) simp_all
    then show ?thesis unfolding crash(1) by simp
  next
    case (fire now tspec p s1 t)
    then obtain bs where "as = p # bs" "p \<notin> set bs" "timers_are s1 bs" "timer_heap s1 = timer_heap (ts_sched s)"
      using poll_ok [OF as(1), of now tspec] by auto
    then show ?thesis unfolding fire(1)
      using as(2) fire places_thread(1) [of _ p "set bs"] by (intro inv_thread [OF assms(2)]) simp_all
  next
    case (exit now tspec s1)
    then have "s1 = ts_sched s" using poll_ok [OF as(1), of now tspec] by auto
    then show ?thesis unfolding exit(1) using as exit by (intro inv_thread [OF assms(2)]) simp_all
  next
    case (finish p rep iv now s1)
    have p: "p \<in> dom (timer_heap (ts_sched s))" "p \<notin> set as" "p \<noteq> NULL"
      using as(2) finish by (auto simp: places_def)
    from finish_ok [OF as(1) p(2,3,1), of now rep iv] finish obtain bs where bs: "timers_are s1 bs"
      "if rep \<and> g_running (ts_sched s)
       then set bs = Set.insert p (set as) \<and> dom (timer_heap s1) = dom (timer_heap (ts_sched s))
       else bs = as \<and> dom (timer_heap s1) = dom (timer_heap (ts_sched s)) - {p}" by auto
    with as(2) finish have "places (dom (timer_heap s1)) (set bs) (\<lambda>k. holder (ts_clients s k)) None"
      by (auto intro: places_thread split: if_splits)
    with bs(1) show ?thesis unfolding finish(1) by (intro inv_thread [OF assms(2)]) simp_all
  qed
qed

lemma input_keeps_inv:
  assumes "sched_input n s s'" "sched_inv n s"
  shows "sched_inv n s'"
proof -
  obtain as where as: "timers_are (ts_sched s) as"
    "places (dom (timer_heap (ts_sched s))) (set as) (\<lambda>k. holder (ts_clients s k)) (thread_holder (ts_thread s))"
    using assms(2) by (rule inv_split)
  have fields: "timers_are (ts_sched s\<lparr>g_running := b\<rparr>) as" for b
    using as(1) by (simp add: timers_are_def)
  show ?thesis using assms(1)
  proof cases
    case (begin_add k c p i s1)
    have p: "p \<notin> dom (timer_heap (ts_sched s))" "p \<notin> set as"
      using begin_add as(2) by (auto simp: places_def)
    have s1: "s1 = ts_sched s\<lparr>timer_heap := (timer_heap (ts_sched s))(p \<mapsto> new_timer c i 0)\<rparr>"
      using begin_add by (auto simp: add_load_def)
    have "timers_are s1 as" by (rule timers_are_upd(1) [OF as(1) p(2) s1])
    moreover have "dom (timer_heap s1) = Set.insert p (dom (timer_heap (ts_sched s)))" by (simp add: s1)
    moreover note places_make [OF as(2) p(1), of k]
    ultimately show ?thesis unfolding begin_add(1)
      using begin_add by (intro inv_client [OF assms(2)]) simp_all
  next
    case (cancel pid i r s1 g)
    with cancel_ok [OF as(1), of pid i "ts_gw s"] obtain bs A where "timers_are s1 bs" "A \<subseteq> set as"
      "set bs = set as - A" "dom (timer_heap s1) = dom (timer_heap (ts_sched s)) - A" by auto
    moreover from this(2) have "places (dom (timer_heap (ts_sched s)) - A) (set as - A)
        (\<lambda>k. holder (ts_clients s k)) (thread_holder (ts_thread s))"
      by (rule places_remove [OF as(2)])
    ultimately have "sched_inv n (s\<lparr>ts_sched := s1\<rparr>)"
      by (intro inv_sched [OF assms(2), of s1 bs]) simp_all
    then show ?thesis unfolding cancel(1) by (simp add: sched_inv_def heap_split_def)
  next
    case (start r s1)
    then show ?thesis unfolding start(1)
      using as fields by (intro inv_thread [OF assms(2)]) (auto simp: scheduler_init_def Let_def)
  next
    case stop
    show ?thesis unfolding stop
      using as fields by (intro inv_sched [OF assms(2)]) (auto simp: scheduler_shutdown_begin_def)
  next
    case (join s1)
    with shutdown_end_ok [OF as(1)] have "timers_are s1 []"
      "dom (timer_heap s1) = dom (timer_heap (ts_sched s)) - set as" by auto
    then show ?thesis unfolding join(1)
      using places_remove [OF as(2), of "set as"] by (intro inv_sched [OF assms(2), of s1 "[]"]) simp_all
  qed (use assms(2) in simp_all)
qed

lemma step_keeps_inv: "sched_step n s s' \<Longrightarrow> sched_inv n s \<Longrightarrow> sched_inv n s'"
  using work_keeps_inv input_keeps_inv by (auto simp: sched_step_def)

lemma sched_reach_inv: "sched_reach n s \<Longrightarrow> sched_inv n s"
  by (induction rule: sched_reach.induct) (auto intro: sched_inv_initial step_keeps_inv)

section \<open>Coming to rest\<close>

fun client_rank :: "client_pc \<Rightarrow> nat" where
  "client_rank (C_load p c i) = 3"
| "client_rank (C_ready p c) = 2"
| "client_rank (C_read p c) = 1"
| "client_rank _ = 0"

fun thread_rank :: "timer_pc \<Rightarrow> nat" where
  "thread_rank (T_firing p rep iv) = 2"
| "thread_rank T_top = 1"
| "thread_rank T_gone = 0"

definition sched_rank :: "nat \<Rightarrow> timer_sys \<Rightarrow> nat" where
  "sched_rank n s = (\<Sum>k<n. client_rank (ts_clients s k)) + thread_rank (ts_thread s)"

lemma client_rank_le: "client_rank q \<le> 3"
  by (cases q) simp_all

lemma sched_rank_le: "sched_rank n s \<le> 3 * n + 2"
proof -
  have "(\<Sum>k<n. client_rank (ts_clients s k)) \<le> of_nat (card {..<n}) * 3"
    by (rule sum_bounded_above) (simp add: client_rank_le)
  moreover have "thread_rank (ts_thread s) \<le> 2" by (cases "ts_thread s") simp_all
  ultimately show ?thesis by (simp add: sched_rank_def)
qed

definition stopping :: "nat \<Rightarrow> timer_sys \<Rightarrow> bool" where
  "stopping n s \<longleftrightarrow> sched_inv n s \<and> \<not> g_running (ts_sched s)"

definition at_rest :: "timer_sys \<Rightarrow> bool" where
  "at_rest s \<longleftrightarrow> (\<exists>k f. ts_clients s k = C_fault f) \<or> ts_thread s = T_gone \<and> (\<forall>k. ts_clients s k = C_idle)"

lemma client_rank_update:
  fixes c :: "nat \<Rightarrow> client_pc"
  shows "k < n \<Longrightarrow> (\<Sum>j<n. client_rank ((c(k := q)) j)) + client_rank (c k) = (\<Sum>j<n. client_rank (c j)) + client_rank q"
  by (rule sum_fun_upd) simp_all

lemma work_stopping:
  assumes "sched_work s s'" "stopping n s"
  shows "\<not> g_running (ts_sched s') \<and> sched_rank n s' < sched_rank n s"
proof -
  have inv: "sched_inv n s" and run: "\<not> g_running (ts_sched s)" using assms(2) by (simp_all add: stopping_def)
  obtain as where as: "timers_are (ts_sched s) as"
    "places (dom (timer_heap (ts_sched s))) (set as) (\<lambda>k. holder (ts_clients s k)) (thread_holder (ts_thread s))"
    using inv by (rule inv_split)
  have rank: "sched_rank n (s\<lparr>ts_clients := (ts_clients s)(k := q)\<rparr>) < sched_rank n s"
    if "client_rank q < client_rank (ts_clients s k)" for k q
  proof -
    have "k < n" using inv_busy [OF inv, of k] that by (cases "ts_clients s k") auto
    from client_rank_update [OF this, of "ts_clients s" q] that show ?thesis by (simp add: sched_rank_def)
  qed
  have rank_thread: "sched_rank n (s\<lparr>ts_thread := q\<rparr>) < sched_rank n s"
    if "thread_rank q < thread_rank (ts_thread s)" for q
    using that by (simp add: sched_rank_def)
  have sched: "sched_rank n (u\<lparr>ts_sched := s1\<rparr>) = sched_rank n u" "sched_rank n (u\<lparr>ts_gw := g\<rparr>) = sched_rank n u"
    for u s1 g by (simp_all add: sched_rank_def)
  show ?thesis using assms(1)
  proof cases
    case (store k p c i now)
    then show ?thesis using run rank [of "C_ready p c" k] by (simp add: sched_rank_def add_store_def)
  next
    case (insert k p c s1)
    have p: "p \<in> dom (timer_heap (ts_sched s))" "p \<notin> set as" "p \<noteq> NULL"
      using held_facts [OF as(2), of k p] insert by simp_all
    have "same_rest (ts_sched s) s1" by (rule insert_ok [OF as(1) p(2,3,1)]) (use insert in auto)
    then show ?thesis using run insert rank [of "C_read p c" k] by (simp add: sched_rank_def same_rest_def)
  next
    case (return k p c i s1 g)
    then have "s1 = ts_sched s" by (auto simp: call_result_def read_timer_id_def)
    with return show ?thesis using run rank [of C_idle k] by (simp add: sched_rank_def)
  next
    case (crash k p c f)
    then show ?thesis using run rank [of "C_fault f" k] by (simp add: sched_rank_def)
  next
    case (fire now tspec p s1 t)
    then show ?thesis using run poll_ok [OF as(1), of now tspec] by auto
  next
    case (exit now tspec s1)
    then show ?thesis using run poll_ok [OF as(1), of now tspec] rank_thread [of T_gone]
      by (auto simp: sched_rank_def)
  next
    case (finish p rep iv now s1)
    have p: "p \<in> dom (timer_heap (ts_sched s))" "p \<notin> set as" "p \<noteq> NULL"
      using as(2) finish by (auto simp: places_def)
    from finish_ok [OF as(1) p(2,3,1), of now rep iv] finish have "same_rest (ts_sched s) s1" by auto
    with finish show ?thesis using run rank_thread [of T_top] by (simp add: sched_rank_def same_rest_def)
  qed
qed

lemma stuck_at_rest:
  assumes "stopping n s" "\<nexists>s'. sched_work s s'"
  shows "at_rest s"
proof (rule ccontr)
  assume "\<not> at_rest s"
  then have nofault: "\<And>k f. ts_clients s k \<noteq> C_fault f"
    and busy: "ts_thread s \<noteq> T_gone \<or> (\<exists>k. ts_clients s k \<noteq> C_idle)" by (auto simp: at_rest_def)
  have inv: "sched_inv n s" and run: "\<not> g_running (ts_sched s)" using assms(1) by (simp_all add: stopping_def)
  have idle: "ts_clients s k = C_idle" for k
  proof (cases "ts_clients s k")
    case (C_load p c i)
    with assms(2) sched_work.store show ?thesis by blast
  next
    case (C_ready p c)
    with assms(2) scheduler_operations_safe(1) [OF inv] sched_work.insert show ?thesis by blast
  next
    case (C_read p c)
    then have "p \<noteq> NULL" using inv unfolding sched_inv_def by (metis client_ok.simps(1))
    show ?thesis
    proof (cases "timer_heap (ts_sched s) p")
      case None
      with \<open>p \<noteq> NULL\<close> have "call_result p c (ts_sched s, ts_gw s) = Fault UseAfterFree"
        by (simp add: call_result_def read_timer_id_def deref_def)
      with C_read assms(2) sched_work.crash show ?thesis by blast
    next
      case (Some t)
      with \<open>p \<noteq> NULL\<close> obtain r where "call_result p c (ts_sched s, ts_gw s) = Ret r"
        by (simp add: call_result_def read_timer_id_def)
      with C_read assms(2) sched_work.return show ?thesis by (cases r) blast
    qed
  qed (use nofault in simp_all)
  show False
  proof (cases "ts_thread s")
    case T_top
    have "sched_poll 0 (0, 0) (ts_sched s) = Ret (Sched_exit, ts_sched s)" using run by (simp add: sched_poll_def)
    with T_top assms(2) sched_work.exit show False by blast
  next
    case (T_firing p rep iv)
    with assms(2) idle scheduler_operations_safe(4) [OF inv] sched_work.finish show False by blast
  qed (use busy idle in simp)
qed

interpretation timers: draining_system sched_work "stopping n" "sched_rank n" at_rest
proof (unfold_locales, goal_cases)
  case (1 s s')
  then show ?case using work_keeps_inv work_stopping by (auto simp: stopping_def)
next
  case (2 s s')
  then show ?case using work_stopping by blast
next
  case (3 s)
  then show ?case using stuck_at_rest by blast
qed

section \<open>Properties\<close>


lemma sched_reachI:
  "sched_reach n s \<Longrightarrow> sched_work s s' \<Longrightarrow> sched_reach n s'"
  "sched_reach n s \<Longrightarrow> sched_input n s s' \<Longrightarrow> sched_reach n s'"
  by (auto intro: reach_step simp: sched_step_def)

definition demo_call :: "bool \<Rightarrow> add_call" where
  "demo_call rep = \<lparr> call_rep = rep, call_pid = 7, call_ms = 1, call_cb = 100, call_user = 0 \<rparr>"

text \<open>A thread asks for a timer, and is about to read its number; then the timer fires and is freed.\<close>

definition demo_sched :: "bool \<Rightarrow> (addr \<rightharpoonup> scheduler_timer) \<Rightarrow> addr \<Rightarrow> scheduler" where
  "demo_sched run h q =
     \<lparr> timer_heap = h, g_timers = q, g_next_id = 2, g_running = run,
       timer_calls = (if q = NULL then [(100, 0)] else []) \<rparr>"

abbreviation demo_timer :: scheduler_timer where
  "demo_timer \<equiv> new_timer (demo_call False) 1 6"

lemma demo_added:
  "sched_reach 2 (timer_sys_initial g\<lparr>ts_sched := demo_sched True [1 \<mapsto> demo_timer] 1, ts_thread := T_top,
     ts_clients := (\<lambda>k. C_idle)(1 := C_read 1 (demo_call False))\<rparr>)"
proof -
  let ?c = "demo_call False"
  let ?s0 = "timer_sys_initial g"
  let ?r0 = "scheduler_initial\<lparr>g_running := True\<rparr>"
  let ?s1 = "?s0\<lparr>ts_sched := ?r0, ts_thread := T_top\<rparr>"
  have "sched_reach 2 ?s1"
    by (rule sched_reachI(2) [OF reach_start sched_input.start [where r = 0]])
      (simp_all add: timer_sys_initial_def scheduler_init_def)
  let ?r2 = "?r0\<lparr>timer_heap := [1 \<mapsto> new_timer ?c 1 0]\<rparr>"
  let ?s2 = "?s1\<lparr>ts_sched := ?r2, ts_clients := (ts_clients ?s1)(1 := C_load 1 ?c 1)\<rparr>"
  have "sched_reach 2 ?s2"
    by (rule sched_reachI(2) [OF \<open>sched_reach 2 ?s1\<close> sched_input.begin_add])
      (simp_all add: timer_sys_initial_def scheduler_initial_def add_load_def call_allowed_def demo_call_def)
  let ?s3 = "?s2\<lparr>ts_sched := add_store 1 ?c 1 5 ?r2, ts_clients := (ts_clients ?s2)(1 := C_ready 1 ?c)\<rparr>"
  have "sched_reach 2 ?s3"
    using sched_reachI(1) [OF \<open>sched_reach 2 ?s2\<close> sched_work.store [of ?s2 1 1 ?c 1 5]] by simp
  let ?s4 = "?s3\<lparr>ts_sched := demo_sched True [1 \<mapsto> demo_timer] 1, ts_clients := (ts_clients ?s3)(1 := C_read 1 ?c)\<rparr>"
  have "sched_reach 2 ?s4"
    by (rule sched_reachI(1) [OF \<open>sched_reach 2 ?s3\<close> sched_work.insert])
      (simp_all add: insert_timer_def add_store_def scheduler_initial_def demo_sched_def demo_call_def
        new_timer_def set_next_def)
  then show ?thesis by (simp add: timer_sys_initial_def)
qed


text \<open>
  \<open>scheduler_after_ms\<close> reads the number of its timer after it has given the mutex back, and
  \<open>scheduler_get_list\<close> walks over the list without taking it: when the timer fires in between, both
  read freed memory.
\<close>

theorem scheduler_use_after_free:
  "(\<exists>s. sched_reach 2 s \<and> ts_clients s 1 = C_fault UseAfterFree)
    \<and> (\<exists>s. sched_reach 2 s \<and> ts_lister s = L_fault UseAfterFree)"
proof -
  let ?c = "demo_call False"
  let ?s4 = "timer_sys_initial gw_initial\<lparr>ts_sched := demo_sched True [1 \<mapsto> demo_timer] 1, ts_thread := T_top,
     ts_clients := (\<lambda>k. C_idle)(1 := C_read 1 (demo_call False))\<rparr>"
  have after: "sched_reach 2 (u\<lparr>ts_sched := demo_sched True Map.empty NULL, ts_thread := T_top\<rparr>)"
    if "sched_reach 2 u" "ts_sched u = demo_sched True [1 \<mapsto> demo_timer] 1" "ts_thread u = T_top"
      "ts_clients u 0 = C_idle" for u
  proof -
    let ?u = "u\<lparr>ts_sched := demo_sched True [1 \<mapsto> demo_timer] NULL, ts_thread := T_firing 1 False 0\<rparr>"
    have "sched_work u ?u"
      using sched_work.fire [of u 6 "(0, 0)" 1 "demo_sched True [1 \<mapsto> demo_timer] NULL" demo_timer] that(2,3)
      by (simp add: sched_poll_def demo_sched_def new_timer_def demo_call_def)
    from sched_reachI(1) [OF that(1) this] have u: "sched_reach 2 ?u" .
    have "sched_work ?u (?u\<lparr>ts_sched := demo_sched True Map.empty NULL, ts_thread := T_top\<rparr>)"
      by (rule sched_work.finish [of _ 1 False 0 6]) (simp_all add: that(4) sched_finish_def demo_sched_def)
    from sched_reachI(1) [OF u this] show ?thesis by simp
  qed
  have "sched_reach 2 (?s4\<lparr>ts_sched := demo_sched True Map.empty NULL, ts_thread := T_top\<rparr>)" (is "sched_reach 2 ?s6")
    by (rule after [OF demo_added]) simp_all
  moreover have "sched_work ?s6 (?s6\<lparr>ts_clients := (ts_clients ?s6)(1 := C_fault UseAfterFree)\<rparr>)"
    by (rule sched_work.crash [of _ _ 1 ?c])
      (simp_all add: call_result_def read_timer_id_def demo_sched_def deref_def)
  ultimately have "sched_reach 2 (?s6\<lparr>ts_clients := (ts_clients ?s6)(1 := C_fault UseAfterFree)\<rparr>)"
    by (rule sched_reachI(1))
  then have "\<exists>s. sched_reach 2 s \<and> ts_clients s 1 = C_fault UseAfterFree"
    by (intro exI [of _ "?s6\<lparr>ts_clients := (ts_clients ?s6)(1 := C_fault UseAfterFree)\<rparr>"]) simp
  moreover have "\<exists>s. sched_reach 2 s \<and> ts_lister s = L_fault UseAfterFree"
  proof -
    let ?l = "snprintf 100 (''[on_data] [scheduler]'' @ [NL] @ ''[getall]'' @ [NL])"
    have "sched_input 2 ?s4 (?s4\<lparr>ts_lister := L_at 100 1 ?l\<rparr>)"
      using sched_input.list_begin [of ?s4 2 100] by (simp add: demo_sched_def timer_sys_initial_def)
    from sched_reachI(2) [OF demo_added this] have "sched_reach 2 (?s4\<lparr>ts_lister := L_at 100 1 ?l\<rparr>)" .
    from after [OF this]
    have "sched_reach 2 (?s4\<lparr>ts_lister := L_at 100 1 ?l, ts_sched := demo_sched True Map.empty NULL, ts_thread := T_top\<rparr>)"
      (is "sched_reach 2 ?s7") by simp
    moreover have "sched_input 2 ?s7 (?s7\<lparr>ts_lister := L_fault UseAfterFree\<rparr>)"
      by (rule sched_input.list_crash [of _ 100 1 ?l]) (simp_all add: demo_sched_def deref_def)
    ultimately have "sched_reach 2 (?s7\<lparr>ts_lister := L_fault UseAfterFree\<rparr>)" by (rule sched_reachI(2))
    then show ?thesis by (intro exI [of _ "?s7\<lparr>ts_lister := L_fault UseAfterFree\<rparr>"]) simp
  qed
  ultimately show ?thesis by blast
qed



text \<open>
  Two threads that add timers at the same time can get the same number, since \<open>g_next_id\<close> is read
  and written without the mutex. Cancelling it then cancels one of the two timers, and the other goes on.
\<close>

theorem scheduler_numbers_not_unique:
  "\<exists>s t u. sched_reach 3 s \<and> timers_are (ts_sched s) [1, 2]
    \<and> timer_heap (ts_sched s) 1 = Some t \<and> timer_heap (ts_sched s) 2 = Some u
    \<and> timer_id t = timer_id u \<and> timer_plugin_id t = timer_plugin_id u
    \<and> (\<exists>s'. scheduler_cancel (timer_plugin_id t) (timer_id t) (ts_sched s, ts_gw s) = Ret (0, s', ts_gw s)
        \<and> timers_are s' [2])"
proof -
  let ?c = "demo_call True"
  let ?s0 = "timer_sys_initial gw_initial"
  let ?r0 = "scheduler_initial\<lparr>g_running := True\<rparr>"
  let ?s1 = "?s0\<lparr>ts_sched := ?r0, ts_thread := T_top\<rparr>"
  have r1: "sched_reach 3 ?s1"
    by (rule sched_reachI(2) [OF reach_start sched_input.start [where r = 0]])
      (simp_all add: timer_sys_initial_def scheduler_init_def)
  let ?r2 = "?r0\<lparr>timer_heap := [1 \<mapsto> new_timer ?c 1 0]\<rparr>"
  let ?s2 = "?s1\<lparr>ts_sched := ?r2, ts_clients := (ts_clients ?s1)(1 := C_load 1 ?c 1)\<rparr>"
  have r2: "sched_reach 3 ?s2"
    by (rule sched_reachI(2) [OF r1 sched_input.begin_add])
      (simp_all add: timer_sys_initial_def scheduler_initial_def add_load_def call_allowed_def demo_call_def)
  let ?r3 = "?r2\<lparr>timer_heap := (timer_heap ?r2)(2 \<mapsto> new_timer ?c 1 0)\<rparr>"
  let ?s3 = "?s2\<lparr>ts_sched := ?r3, ts_clients := (ts_clients ?s2)(2 := C_load 2 ?c 1)\<rparr>"
  have r3: "sched_reach 3 ?s3"
    by (rule sched_reachI(2) [OF r2 sched_input.begin_add])
      (simp_all add: timer_sys_initial_def scheduler_initial_def add_load_def call_allowed_def demo_call_def)
  let ?r4 = "add_store 1 ?c 1 5 ?r3"
  let ?s4 = "?s3\<lparr>ts_sched := ?r4, ts_clients := (ts_clients ?s3)(1 := C_ready 1 ?c)\<rparr>"
  have r4: "sched_reach 3 ?s4"
    using sched_reachI(1) [OF r3 sched_work.store [of ?s3 1 1 ?c 1 5]] by simp
  let ?r5 = "add_store 2 ?c 1 5 ?r4"
  let ?s5 = "?s4\<lparr>ts_sched := ?r5, ts_clients := (ts_clients ?s4)(2 := C_ready 2 ?c)\<rparr>"
  have r5: "sched_reach 3 ?s5"
    using sched_reachI(1) [OF r4 sched_work.store [of ?s4 2 2 ?c 1 5]] by simp
  let ?t = "new_timer ?c 1 6"
  let ?r6 = "?r0\<lparr>timer_heap := [1 \<mapsto> ?t, 2 \<mapsto> ?t], g_timers := 1, g_next_id := 2\<rparr>"
  let ?s6 = "?s5\<lparr>ts_sched := ?r6, ts_clients := (ts_clients ?s5)(1 := C_read 1 ?c)\<rparr>"
  have r6: "sched_reach 3 ?s6"
    by (rule sched_reachI(1) [OF r5 sched_work.insert])
      (simp_all add: insert_timer_def add_store_def scheduler_initial_def demo_call_def new_timer_def
        set_next_def fun_upd_twist)
  let ?r7 = "?r6\<lparr>timer_heap := [1 \<mapsto> ?t\<lparr>next_timer := 2\<rparr>, 2 \<mapsto> ?t]\<rparr>"
  let ?s7 = "?s6\<lparr>ts_sched := ?r7, ts_clients := (ts_clients ?s6)(2 := C_read 2 ?c)\<rparr>"
  have r7: "sched_reach 3 ?s7"
    by (rule sched_reachI(1) [OF r6 sched_work.insert])
      (simp_all add: insert_timer_def scheduler_initial_def demo_call_def new_timer_def
        set_next_def insert_walk.simps fun_upd_twist)
  have are: "timers_are ?r7 [1, 2]"
    by (simp add: timers_are_def new_timer_def due_of_def)
  have "find (is_timer 7 1 (timer_heap ?r7)) [1, 2] = Some 1"
    by (simp add: is_timer_def new_timer_def demo_call_def)
  with scheduler_cancel_exact [OF are, of 1 7 gw_initial]
  have "\<exists>s'. scheduler_cancel 7 1 (?r7, gw_initial) = Ret (0, s', gw_initial) \<and> timers_are s' [2]"
    by auto
  with r7 are show ?thesis
    by (intro exI [of _ ?s7] exI [of _ "?t\<lparr>next_timer := 2\<rparr>"] exI [of _ ?t])
      (simp add: new_timer_def demo_call_def timer_sys_initial_def)
qed

end
