(* ===== verification/GatewaySystem.thy ===== *)
theory GatewaySystem
  imports Dispatcher
begin

text \<open>
  The dispatcher of src/gateway/gateway_dispatcher.c with its threads: the threads of the core that
  report what they do, the thread that hands the arena to the gateway library, and the one that closes
  the dispatcher.

  A step is what a thread does between two points at which another can come in between. \<open>gateway_d_msg_add\<close>
  looks at \<open>arena_d_instance\<close> before it takes \<open>gateway_d_flush_mutex\<close>, \<open>gateway_d_flush\<close> at
  \<open>current_offset\<close>; \<open>on_data\<close> of the library runs with the mutex held. \<open>react\<close> is what \<open>on_data\<close> makes the
  core report when it is given a text: through \<open>gateway_pm_action_reboot\<close>, for instance, it runs plugins,
  and these subscribe and start timers.
\<close>

section \<open>States\<close>

text \<open>
  The dispatcher thread is at the top of its loop, behind the look at \<open>current_offset\<close>, in front of the
  mutex in \<open>gateway_d_flush\<close>, in \<open>on_data\<close> with these messages to report, or has ended. The mutex is held
  exactly in \<open>on_data\<close>.
\<close>

datatype disp_pc =
    D_top
  | D_flush
  | D_lock
  | D_cb "string list"
  | D_stuck string
  | D_gone
  | D_fault fault

datatype sender_pc =
    S_idle
  | S_lock string
  | S_fault fault

datatype closer_pc =
    K_idle
  | K_join

record gw_sys =
  gs_gw :: gw
  gs_disp :: disp_pc
  gs_senders :: "nat \<Rightarrow> sender_pc"
  gs_closer :: closer_pc

definition gw_sys_initial :: gw_sys where
  "gw_sys_initial =
     \<lparr> gs_gw = gw_initial, gs_disp = D_gone, gs_senders = (\<lambda>k. S_idle), gs_closer = K_idle \<rparr>"

fun mutex_held :: "disp_pc \<Rightarrow> bool" where
  "mutex_held (D_cb todo) = True"
| "mutex_held (D_stuck m) = True"
| "mutex_held _ = False"

section \<open>The parts of the functions\<close>

text \<open>\<open>gateway_d_msg_add\<close> in front of the mutex, and under it.\<close>

definition msg_check :: "string \<Rightarrow> gw \<Rightarrow> bool" where
  "msg_check m g \<longleftrightarrow> arena_d_instance g \<noteq> None \<and> m \<noteq> []"

definition msg_store :: "string \<Rightarrow> gw \<Rightarrow> gw outcome" where
  "msg_store m g =
     (if current_offset g + length m + 1 \<ge> MAX_TOTAL_SIZE then Ret g
      else (case arena_d_instance g of
        None \<Rightarrow> Fault NullDeref
      | Some arena \<Rightarrow>
          let off1 = current_offset g + length m
          in Ret (g\<lparr>arena_d_instance := Some ((arena_write arena (current_offset g) m)(off1 := NL)),
                    current_offset := off1 + 1\<rparr>)))"

text \<open>The functions of the core report only while \<open>g_gateway_connected_flag\<close> is set.\<close>

definition core_reports :: "string \<Rightarrow> gw \<Rightarrow> bool" where
  "core_reports m g \<longleftrightarrow> g_gateway_connected_flag g \<and> msg_check m g"

text \<open>\<open>gateway_d_flush\<close>: the look without the mutex, up to the call of \<open>on_data\<close>, and after it.\<close>

definition flush_check :: "gw \<Rightarrow> bool" where
  "flush_check g \<longleftrightarrow> arena_d_instance g \<noteq> None \<and> current_offset g \<noteq> 0"

definition flush_call :: "gw \<Rightarrow> (string \<times> gw) outcome" where
  "flush_call g =
     (case arena_d_instance g of
        None \<Rightarrow> Fault NullDeref
      | Some arena \<Rightarrow>
          if \<not> gateway_on_data_cb g then Fault NullDeref
          else let msg_buf = map arena [0..<current_offset g] in Ret (msg_buf, gw_call (Gw_on_data msg_buf) g))"

definition flush_end :: "gw \<Rightarrow> gw" where
  "flush_end g = g\<lparr>current_offset := 0\<rparr>"

text \<open>Run without interruption, the parts are the functions.\<close>

lemma msg_add_parts:
  "(if msg_check m g then msg_store m g else Ret g) = Ret (gateway_d_msg_add (Some m) g)"
  by (auto simp: msg_check_def msg_store_def gateway_d_msg_add_def Let_def split: option.split)

lemma flush_parts:
  "(if flush_check g then outcome_bind (flush_call g) (\<lambda>(buf, g1). Ret (flush_end g1)) else Ret g) = gateway_d_flush g"
  by (auto simp: flush_check_def flush_call_def flush_end_def gateway_d_flush_def Let_def split: option.split)

section \<open>Steps\<close>

text \<open>
  What the threads do with a message or a flush they have begun. Taking the mutex is possible only
  while it is free; a thread that holds it and reports waits for itself.
\<close>

inductive gw_work :: "(string \<Rightarrow> string list) \<Rightarrow> gw_sys \<Rightarrow> gw_sys \<Rightarrow> bool" for react where
  store: "gs_senders s k = S_lock m \<Longrightarrow> \<not> mutex_held (gs_disp s) \<Longrightarrow> msg_store m (gs_gw s) = Ret g
    \<Longrightarrow> gw_work react s (s\<lparr>gs_gw := g, gs_senders := (gs_senders s)(k := S_idle)\<rparr>)"
| store_fault: "gs_senders s k = S_lock m \<Longrightarrow> \<not> mutex_held (gs_disp s) \<Longrightarrow> msg_store m (gs_gw s) = Fault f
    \<Longrightarrow> gw_work react s (s\<lparr>gs_senders := (gs_senders s)(k := S_fault f)\<rparr>)"
| flush: "gs_disp s = D_flush
    \<Longrightarrow> gw_work react s (s\<lparr>gs_disp := (if flush_check (gs_gw s) then D_lock else D_top)\<rparr>)"
| call: "gs_disp s = D_lock \<Longrightarrow> flush_call (gs_gw s) = Ret (buf, g)
    \<Longrightarrow> gw_work react s (s\<lparr>gs_gw := g, gs_disp := D_cb (react buf)\<rparr>)"
| call_fault: "gs_disp s = D_lock \<Longrightarrow> flush_call (gs_gw s) = Fault f
    \<Longrightarrow> gw_work react s (s\<lparr>gs_disp := D_fault f\<rparr>)"
| skip: "gs_disp s = D_cb (m # todo) \<Longrightarrow> \<not> core_reports m (gs_gw s)
    \<Longrightarrow> gw_work react s (s\<lparr>gs_disp := D_cb todo\<rparr>)"
| self_lock: "gs_disp s = D_cb (m # todo) \<Longrightarrow> core_reports m (gs_gw s)
    \<Longrightarrow> gw_work react s (s\<lparr>gs_disp := D_stuck m\<rparr>)"
| unlock: "gs_disp s = D_cb []
    \<Longrightarrow> gw_work react s (s\<lparr>gs_gw := flush_end (gs_gw s), gs_disp := D_top\<rparr>)"
| leave: "gs_disp s = D_top \<Longrightarrow> \<not> dispatcher_running (gs_gw s)
    \<Longrightarrow> gw_work react s (s\<lparr>gs_disp := D_gone\<rparr>)"

text \<open>
  What begins something: the clock of the dispatcher, a thread that reports, the thread that opens and
  closes the dispatcher (\<open>gateway_close_lib\<close> clears the flag first).
\<close>

inductive gw_input :: "nat \<Rightarrow> gw_sys \<Rightarrow> gw_sys \<Rightarrow> bool" for n where
  tick: "gs_disp s = D_top \<Longrightarrow> dispatcher_running (gs_gw s)
    \<Longrightarrow> gw_input n s (s\<lparr>gs_disp := (if current_offset (gs_gw s) > 0 then D_flush else D_top)\<rparr>)"
| report: "gs_senders s k = S_idle \<Longrightarrow> k < n \<Longrightarrow> g_gateway_connected_flag (gs_gw s)
    \<Longrightarrow> gw_input n s (s\<lparr>gs_senders := (gs_senders s)(k :=
          if msg_check (safe_buf t l) (gs_gw s) then S_lock (safe_buf t l) else S_idle)\<rparr>)"
| open_lib: "gs_disp s = D_gone \<Longrightarrow> gs_closer s = K_idle
    \<Longrightarrow> gw_input n s (s\<lparr>gs_gw := (gateway_dispatcher_init mok ((gs_gw s)\<lparr>on_data_fn := True\<rparr>))
                                     \<lparr>g_gateway_connected_flag := True\<rparr>, gs_disp := D_top\<rparr>)"
| close_begin: "gs_closer s = K_idle \<Longrightarrow> g_gateway_connected_flag (gs_gw s)
    \<Longrightarrow> gw_input n s (s\<lparr>gs_gw := (gs_gw s)\<lparr>g_gateway_connected_flag := False, dispatcher_running := False\<rparr>,
                          gs_closer := K_join\<rparr>)"
| close_end: "gs_closer s = K_join \<Longrightarrow> gs_disp s = D_gone
    \<Longrightarrow> gw_input n s (s\<lparr>gs_gw := (gs_gw s)\<lparr>arena_d_instance := None, current_offset := 0,
                                               gateway_on_data_cb := False\<rparr>, gs_closer := K_idle\<rparr>)"

definition gw_step :: "nat \<Rightarrow> (string \<Rightarrow> string list) \<Rightarrow> gw_sys \<Rightarrow> gw_sys \<Rightarrow> bool" where
  "gw_step n react s s' \<longleftrightarrow> gw_work react s s' \<or> gw_input n s s'"

inductive gw_reach :: "nat \<Rightarrow> (string \<Rightarrow> string list) \<Rightarrow> gw_sys \<Rightarrow> bool" for n react where
  reach_start: "gw_reach n react gw_sys_initial"
| reach_step: "gw_reach n react s \<Longrightarrow> gw_step n react s s' \<Longrightarrow> gw_reach n react s'"

section \<open>The invariant\<close>

text \<open>
  The dispatcher thread has an arena and a callback while it lives, and what it does between the look
  at \<open>current_offset\<close> and the mutex cannot be undone by others; senders that wait have a message.
\<close>

fun sender_ok :: "sender_pc \<Rightarrow> bool" where
  "sender_ok (S_lock m) = (m \<noteq> [])"
| "sender_ok (S_fault f) = (f = NullDeref)"
| "sender_ok S_idle = True"

definition gw_sys_inv :: "nat \<Rightarrow> gw_sys \<Rightarrow> bool" where
  "gw_sys_inv n s \<longleftrightarrow> gw_inv (gs_gw s)
     \<and> (\<forall>k. sender_ok (gs_senders s k)) \<and> (\<forall>k\<ge>n. gs_senders s k = S_idle)
     \<and> (gs_disp s = D_lock \<or> mutex_held (gs_disp s) \<longrightarrow> arena_d_instance (gs_gw s) \<noteq> None)
     \<and> (\<forall>f. gs_disp s \<noteq> D_fault f)
     \<and> (gs_closer s = K_join \<longrightarrow> \<not> dispatcher_running (gs_gw s))
     \<and> (gs_closer s = K_idle \<longrightarrow> dispatcher_running (gs_gw s)
          \<or> gs_disp s = D_gone \<and> arena_d_instance (gs_gw s) = None)
     \<and> (gs_disp s = D_gone \<longrightarrow> \<not> dispatcher_running (gs_gw s))"

lemma gw_sys_inv_initial: "gw_sys_inv n gw_sys_initial"
  by (simp add: gw_sys_inv_def gw_sys_initial_def gw_inv_initial) (simp add: gw_initial_def)

lemma msg_store_ok:
  assumes "gw_inv g" "m \<noteq> []" "arena_d_instance g \<noteq> None"
  shows "msg_store m g = Ret (gateway_d_msg_add (Some m) g)"
  using msg_add_parts [of m g] assms by (simp add: msg_check_def)

lemma msg_store_cases:
  assumes "gw_inv g" "m \<noteq> []" "msg_store m g = Ret g'"
  shows "g' = gateway_d_msg_add (Some m) g"
proof (cases "arena_d_instance g")
  case None
  with assms(3) show ?thesis by (auto simp: msg_store_def gateway_d_msg_add_def split: if_splits)
next
  case (Some a)
  with assms msg_store_ok [OF assms(1,2)] show ?thesis by simp
qed

lemma arena_msg_add [simp]:
  "(arena_d_instance (gateway_d_msg_add m g) = None) = (arena_d_instance g = None)"
  by (auto simp: gateway_d_msg_add_def Let_def split: option.splits)

lemma running_msg_add [simp]:
  "dispatcher_running (gateway_d_msg_add m g) = dispatcher_running g"
  by (auto simp: gateway_d_msg_add_def Let_def split: option.splits)

lemma gw_work_keeps_inv:
  assumes "gw_work react s s'" "gw_sys_inv n s"
  shows "gw_sys_inv n s'"
  using assms(1)
proof cases
  case (store k m g)
  have "k < n" using assms(2) store unfolding gw_sys_inv_def by (metis not_le sender_pc.distinct(1))
  have "m \<noteq> []" using assms(2) store unfolding gw_sys_inv_def by (metis sender_ok.simps(1))
  with store assms(2) have "g = gateway_d_msg_add (Some m) (gs_gw s)"
    by (intro msg_store_cases) (simp_all add: gw_sys_inv_def)
  with store assms(2) \<open>k < n\<close> show ?thesis by (auto simp: gw_sys_inv_def inv_intros)
next
  case (store_fault k m f)
  have "k < n" using assms(2) store_fault unfolding gw_sys_inv_def by (metis not_le sender_pc.distinct(1))
  moreover have "f = NullDeref" using store_fault by (auto simp: msg_store_def Let_def split: if_splits option.splits)
  ultimately show ?thesis using store_fault assms(2) by (auto simp: gw_sys_inv_def)
next
  case (call buf g)
  then have "gw_inv g" "arena_d_instance g = arena_d_instance (gs_gw s)"
    "dispatcher_running g = dispatcher_running (gs_gw s)"
    using assms(2)
    by (auto simp: flush_call_def gw_sys_inv_def gw_inv_def gw_call_def Let_def split: option.splits if_splits)
  with call assms(2) show ?thesis by (auto simp: gw_sys_inv_def)
next
  case (call_fault f)
  then show ?thesis using assms(2)
    by (auto simp: flush_call_def gw_sys_inv_def gw_inv_def Let_def split: option.splits if_splits)
qed (use assms(2) in \<open>auto simp: gw_sys_inv_def flush_check_def flush_end_def gw_inv_def MAX_TOTAL_SIZE_val\<close>)

lemma gw_input_keeps_inv:
  assumes "gw_input n s s'" "gw_sys_inv n s"
  shows "gw_sys_inv n s'"
  using assms
  by (cases rule: gw_input.cases)
    (auto simp: gw_sys_inv_def gw_inv_def gateway_dispatcher_init_def msg_check_def MAX_TOTAL_SIZE_val)

lemma gw_step_keeps_inv: "gw_step n react s s' \<Longrightarrow> gw_sys_inv n s \<Longrightarrow> gw_sys_inv n s'"
  using gw_work_keeps_inv gw_input_keeps_inv by (auto simp: gw_step_def)

lemma gw_reach_inv: "gw_reach n react s \<Longrightarrow> gw_sys_inv n s"
  by (induction rule: gw_reach.induct) (auto intro: gw_sys_inv_initial gw_step_keeps_inv)

section \<open>The channel seen from outside\<close>

text \<open>
  What the library has received, and what waits for it: while \<open>on_data\<close> runs, the text it was given is
  already delivered.
\<close>

definition channel_view :: "gw_sys \<Rightarrow> string \<times> string" where
  "channel_view s = (delivered (gs_gw s), if mutex_held (gs_disp s) then [] else pending (gs_gw s))"

inductive channel_step :: "string list \<Rightarrow> bool \<Rightarrow> string \<times> string \<Rightarrow> string \<times> string \<Rightarrow> bool" for waiting closing where
  keep: "channel_step waiting closing v v"
| put: "m \<in> set waiting \<Longrightarrow> length p + length m + 1 < MAX_TOTAL_SIZE
    \<Longrightarrow> channel_step waiting closing (d, p) (d, p @ m @ [NL])"
| hand: "channel_step waiting closing (d, p) (d @ p, [])"
| discard: "closing \<Longrightarrow> channel_step waiting closing (d, p) (d, [])"

definition waiting_messages :: "nat \<Rightarrow> gw_sys \<Rightarrow> string list" where
  "waiting_messages n s = [m. k \<leftarrow> [0..<n], S_lock m \<leftarrow> [gs_senders s k]]"

lemma waiting_messages_mem: "m \<in> set (waiting_messages n s) \<longleftrightarrow> (\<exists>k<n. gs_senders s k = S_lock m)"
  by (auto simp: waiting_messages_def split: sender_pc.splits) force

lemma flush_call_Ret:
  "flush_call g = Ret (buf, g') \<Longrightarrow> buf = pending g \<and> g' = gw_call (Gw_on_data buf) g"
  by (auto simp: flush_call_def pending_def Let_def split: option.splits if_splits)

lemma flush_call_ok: "gw_inv g \<Longrightarrow> arena_d_instance g \<noteq> None \<Longrightarrow> \<exists>buf g'. flush_call g = Ret (buf, g')"
  by (auto simp: flush_call_def gw_inv_def Let_def)

lemma delivered_call [simp]: "delivered (gw_call e g) = delivered g @ event_data e"
  by (simp add: delivered_def gw_call_def)

lemma pending_call [simp]: "pending (gw_call e g) = pending g"
  by (cases "arena_d_instance g") (simp_all add: pending_def gw_call_def)

lemma view_fields [simp]:
  "delivered (g\<lparr>current_offset := j\<rparr>) = delivered g" "pending (g\<lparr>current_offset := 0\<rparr>) = []"
  "delivered (g\<lparr>g_gateway_connected_flag := b, dispatcher_running := c\<rparr>) = delivered g"
  "pending (g\<lparr>g_gateway_connected_flag := b, dispatcher_running := c\<rparr>) = pending g"
  "delivered (g\<lparr>arena_d_instance := None, current_offset := j, gateway_on_data_cb := b\<rparr>) = delivered g"
  "pending (g\<lparr>arena_d_instance := None, current_offset := j, gateway_on_data_cb := b\<rparr>) = []"
  by (auto simp: delivered_def pending_def split: option.split)

lemma work_view:
  assumes "gw_work react s s'" "gw_sys_inv n s"
  shows "channel_step (waiting_messages n s) closing (channel_view s) (channel_view s')"
  using assms(1)
proof cases
  case (store k m g)
  have k: "k < n" using assms(2) store unfolding gw_sys_inv_def by (metis not_le sender_pc.distinct(1))
  have "m \<noteq> []" using assms(2) store unfolding gw_sys_inv_def by (metis sender_ok.simps(1))
  with store assms(2) have g: "g = gateway_d_msg_add (Some m) (gs_gw s)"
    by (intro msg_store_cases) (simp_all add: gw_sys_inv_def)
  have "m \<in> set (waiting_messages n s)" using k store by (auto simp: waiting_messages_mem)
  moreover have "gw_inv (gs_gw s)" using assms(2) by (simp add: gw_sys_inv_def)
  ultimately show ?thesis
    using store g pending_msg_add [of "gs_gw s" m]
    by (auto simp: channel_view_def accepts_def intro: channel_step.intros)
next
  case (call buf g)
  with flush_call_Ret [OF call(3)] show ?thesis by (auto simp: channel_view_def intro: channel_step.hand)
qed (auto simp: channel_view_def flush_end_def intro: channel_step.keep)

lemma input_view:
  assumes "gw_input n s s'" "gw_sys_inv n s"
  shows "channel_step (waiting_messages n s) (gs_closer s = K_join) (channel_view s) (channel_view s')"
  using assms(1)
proof cases
  case (open_lib mok)
  then have "arena_d_instance (gs_gw s) = None"
    using assms(2) by (auto simp: gw_sys_inv_def)
  with open_lib show ?thesis
    by (auto simp: channel_view_def gateway_dispatcher_init_def delivered_def pending_def intro: channel_step.keep)
next
  case close_end
  then show ?thesis by (auto simp: channel_view_def intro: channel_step.discard)
qed (auto simp: channel_view_def intro: channel_step.keep)

section \<open>A thread that waits for itself\<close>

text \<open>Once the dispatcher thread waits for the mutex it holds, all who wait for it, wait for ever.\<close>

lemma stuck_disp_step:
  assumes "gw_step n react s s'" "gs_disp s = D_stuck m"
  shows "gs_disp s' = D_stuck m \<and> delivered (gs_gw s') = delivered (gs_gw s)
    \<and> (\<forall>k x. gs_senders s k = S_lock x \<longrightarrow> gs_senders s' k = S_lock x)
    \<and> (gs_closer s = K_join \<longrightarrow> gs_closer s' = K_join)"
  using assms by (auto simp: gw_step_def elim!: gw_work.cases gw_input.cases)

lemma stuck_for_ever:
  assumes "(gw_step n react)\<^sup>*\<^sup>* s s'" "gs_disp s = D_stuck m"
  shows "gs_disp s' = D_stuck m \<and> delivered (gs_gw s') = delivered (gs_gw s)
    \<and> (\<forall>k x. gs_senders s k = S_lock x \<longrightarrow> gs_senders s' k = S_lock x)
    \<and> (gs_closer s = K_join \<longrightarrow> gs_closer s' = K_join)"
  using assms(1)
proof (induction rule: rtranclp_induct)
  case (step u v)
  with stuck_disp_step [OF step.hyps(2)] show ?case by auto
qed (use assms(2) in simp)

section \<open>Closing\<close>

text \<open>A library that does not make the core report from \<open>on_data\<close>, while the dispatcher is being closed.\<close>

fun sender_rank :: "sender_pc \<Rightarrow> nat" where
  "sender_rank (S_lock m) = 1"
| "sender_rank _ = 0"

fun disp_rank :: "disp_pc \<Rightarrow> nat" where
  "disp_rank D_flush = 4"
| "disp_rank D_lock = 3"
| "disp_rank (D_cb todo) = 2"
| "disp_rank D_top = 1"
| "disp_rank _ = 0"

definition gw_rank :: "nat \<Rightarrow> gw_sys \<Rightarrow> nat" where
  "gw_rank n s = (\<Sum>k<n. sender_rank (gs_senders s k)) + disp_rank (gs_disp s)"

definition gw_closing :: "nat \<Rightarrow> gw_sys \<Rightarrow> bool" where
  "gw_closing n s \<longleftrightarrow> gw_sys_inv n s \<and> \<not> dispatcher_running (gs_gw s)
     \<and> (\<forall>m todo. gs_disp s \<noteq> D_stuck m \<and> gs_disp s \<noteq> D_cb (m # todo))"

definition closed_down :: "gw_sys \<Rightarrow> bool" where
  "closed_down s \<longleftrightarrow> gs_disp s = D_gone \<and> (\<forall>k m. gs_senders s k \<noteq> S_lock m)"

lemma gw_rank_le: "gw_rank n s \<le> n + 4"
proof -
  have "sender_rank q \<le> 1" for q by (cases q) simp_all
  then have "(\<Sum>k<n. sender_rank (gs_senders s k)) \<le> of_nat (card {..<n}) * 1"
    by (intro sum_bounded_above) simp
  moreover have "disp_rank (gs_disp s) \<le> 4" by (cases "gs_disp s") simp_all
  ultimately show ?thesis by (simp add: gw_rank_def)
qed

lemma gw_rank_sender:
  assumes "gw_sys_inv n s" "gs_senders s k = S_lock m" "sender_rank q = 0"
  shows "gw_rank n (s\<lparr>gs_senders := (gs_senders s)(k := q)\<rparr>) < gw_rank n s"
proof -
  have "k < n" using assms(1,2) unfolding gw_sys_inv_def by (metis not_le sender_pc.distinct(1))
  then have "(\<Sum>j<n. sender_rank (((gs_senders s)(k := q)) j)) + 1 = (\<Sum>j<n. sender_rank (gs_senders s j))"
    using sum_fun_upd [of "{..<n}" k sender_rank "gs_senders s" q] assms(2,3) by simp
  then show ?thesis by (simp add: gw_rank_def)
qed

lemma running_store: "msg_store m g = Ret g' \<Longrightarrow> dispatcher_running g' = dispatcher_running g"
  by (auto simp: msg_store_def Let_def split: if_splits option.splits)

lemma closing_step:
  assumes "gw_work (\<lambda>_. []) s s'" "gw_closing n s"
  shows "gw_closing n s' \<and> gw_rank n s' < gw_rank n s"
proof -
  have inv: "gw_sys_inv n s" "gw_sys_inv n s'"
    using assms gw_work_keeps_inv by (auto simp: gw_closing_def)
  have rank: "gw_rank n (u\<lparr>gs_gw := g\<rparr>) = gw_rank n u" for u g by (simp add: gw_rank_def)
  from assms(1) have "gw_rank n s' < gw_rank n s \<and> dispatcher_running (gs_gw s') = dispatcher_running (gs_gw s)
      \<and> (\<forall>m todo. gs_disp s' \<noteq> D_stuck m \<and> gs_disp s' \<noteq> D_cb (m # todo))"
  proof cases
    case (store k m g)
    then show ?thesis using gw_rank_sender [OF inv(1) store(2), of S_idle] running_store [OF store(4)] assms(2)
      by (simp add: rank gw_closing_def gw_rank_def)
  next
    case (store_fault k m f)
    then show ?thesis using gw_rank_sender [OF inv(1) store_fault(2), of "S_fault f"] assms(2)
      by (simp add: gw_closing_def)
  next
    case (call buf g)
    with flush_call_Ret [OF call(3)] show ?thesis by (auto simp: gw_rank_def gw_call_def)
  qed (use assms(2) in \<open>auto simp: gw_rank_def flush_end_def gw_closing_def\<close>)
  with inv(2) assms(2) show ?thesis by (simp add: gw_closing_def)
qed

lemma msg_store_ends: "(\<exists>g'. msg_store m g = Ret g') \<or> (\<exists>f. msg_store m g = Fault f)"
  by (auto simp: msg_store_def Let_def split: option.split)

lemma closing_stuck:
  assumes "gw_closing n s" "\<nexists>s'. gw_work (\<lambda>_. []) s s'"
  shows "closed_down s"
proof -
  have disp: "gs_disp s = D_gone"
  proof (cases "gs_disp s")
    case D_top
    with assms gw_work.leave show ?thesis unfolding gw_closing_def by blast
  next
    case D_flush
    with assms(2) gw_work.flush show ?thesis by blast
  next
    case D_lock
    then have "\<exists>buf g. flush_call (gs_gw s) = Ret (buf, g)"
      using assms(1) by (intro flush_call_ok) (simp_all add: gw_closing_def gw_sys_inv_def)
    with D_lock assms(2) gw_work.call show ?thesis by blast
  next
    case (D_cb todo)
    with assms gw_work.unlock show ?thesis unfolding gw_closing_def by (metis neq_Nil_conv)
  qed (use assms(1) in \<open>auto simp: gw_closing_def gw_sys_inv_def\<close>)
  have "gs_senders s k \<noteq> S_lock m" for k m
  proof
    assume k: "gs_senders s k = S_lock m"
    consider g where "msg_store m (gs_gw s) = Ret g" | f where "msg_store m (gs_gw s) = Fault f"
      using msg_store_ends by blast
    then show False
      using k disp assms(2) gw_work.store [of s k m] gw_work.store_fault [of s k m] by cases auto
  qed
  with disp show ?thesis by (simp add: closed_down_def)
qed

interpretation closing_gateway: draining_system "gw_work (\<lambda>_. [])" "gw_closing n" "gw_rank n" closed_down
proof (unfold_locales, goal_cases)
  case (1 s s')
  then show ?case using closing_step by blast
next
  case (2 s s')
  then show ?case using closing_step by blast
next
  case (3 s)
  then show ?case using closing_stuck by blast
qed

text \<open>Without reports from \<open>on_data\<close> the thread never waits for itself.\<close>

lemma reach_silent:
  "gw_reach n (\<lambda>_. []) s \<Longrightarrow> \<forall>m todo. gs_disp s \<noteq> D_stuck m \<and> gs_disp s \<noteq> D_cb (m # todo)"
proof (induction rule: gw_reach.induct)
  case (reach_step s s')
  from reach_step.hyps(2) reach_step.IH show ?case
    by (auto simp: gw_step_def elim!: gw_work.cases gw_input.cases split: if_splits)
qed (simp add: gw_sys_initial_def)

section \<open>Properties\<close>

text \<open>
  C10. However the threads are interleaved, and whatever \<open>on_data\<close> does, the gateway library and the arena
  together are a channel: a step puts the whole message of one waiting sender behind what waits, if it fits,
  or hands everything that waits to the library, or changes nothing that can be seen; only closing
  discards what waits. So nothing is torn, repeated or reordered, and the dispatcher thread never faults.
\<close>

theorem gateway_threads_are_a_channel:
  assumes "gw_reach n react s" "gw_step n react s s'"
  shows "channel_step (waiting_messages n s) (gs_closer s = K_join) (channel_view s) (channel_view s')
    \<and> (\<forall>f. gs_disp s' \<noteq> D_fault f)"
  using assms gw_reach_inv [OF assms(1)] work_view input_view gw_step_keeps_inv [OF assms(2)]
  unfolding gw_step_def gw_sys_inv_def by blast

lemma gw_reachI:
  "gw_reach n react s \<Longrightarrow> gw_work react s s' \<Longrightarrow> gw_reach n react s'"
  "gw_reach n react s \<Longrightarrow> gw_input n s s' \<Longrightarrow> gw_reach n react s'"
  by (auto intro: reach_step simp: gw_step_def)

text \<open>A dispatcher that has been opened, and one thread that reports to it.\<close>

definition opened :: gw where
  "opened = gateway_dispatcher_init True (gw_initial\<lparr>on_data_fn := True\<rparr>) \<lparr>g_gateway_connected_flag := True\<rparr>"

lemma opened_facts:
  "arena_d_instance opened = Some (\<lambda>_. NUL)" "current_offset opened = 0" "dispatcher_running opened"
  "gateway_on_data_cb opened" "g_gateway_connected_flag opened" "gw_inv opened"
  by (simp_all add: opened_def gateway_dispatcher_init_def gw_initial_def gw_inv_def MAX_TOTAL_SIZE_val)

lemma reach_opened: "gw_reach n react (gw_sys_initial\<lparr>gs_gw := opened, gs_disp := D_top\<rparr>)"
proof -
  have "gw_input n gw_sys_initial (gw_sys_initial\<lparr>gs_gw := opened, gs_disp := D_top\<rparr>)"
    using gw_input.open_lib [of gw_sys_initial n True] by (simp add: gw_sys_initial_def opened_def)
  from gw_reachI(2) [OF reach_start this] show ?thesis .
qed

lemma reach_reporting:
  assumes "0 < n"
  shows "gw_reach n react (gw_sys_initial\<lparr>gs_gw := opened, gs_disp := D_top,
     gs_senders := (\<lambda>k. S_idle)(0 := S_lock (safe_buf t l))\<rparr>)"
proof -
  let ?s = "gw_sys_initial\<lparr>gs_gw := opened, gs_disp := D_top\<rparr>"
  have "gw_input n ?s (?s\<lparr>gs_senders := (gs_senders ?s)(0 := S_lock (safe_buf t l))\<rparr>)"
    using gw_input.report [of ?s 0 n t l] assms opened_facts by (simp add: gw_sys_initial_def msg_check_def)
  from gw_reachI(2) [OF reach_opened this] show ?thesis by (simp add: gw_sys_initial_def)
qed

text \<open>
  C13. A gateway library whose \<open>on_data\<close> makes the core report locks the core up. The callback runs with
  \<open>gateway_d_flush_mutex\<close> held, and the report waits for it: from then on nothing is delivered any more,
  every thread of the core that reports waits for ever, and \<open>gateway_close_lib\<close> does not return.
\<close>

theorem reporting_on_data_deadlocks:
  assumes "0 < n" "react (safe_buf t l @ [NL]) = m # todo" "m \<noteq> []"
  shows "\<exists>s. gw_reach n react s \<and> gs_disp s = D_stuck m
    \<and> (\<forall>s'. (gw_step n react)\<^sup>*\<^sup>* s s' \<longrightarrow> gs_disp s' = D_stuck m \<and> delivered (gs_gw s') = delivered (gs_gw s)
         \<and> (\<forall>s'' k x. (gw_step n react)\<^sup>*\<^sup>* s' s'' \<and> gs_senders s' k = S_lock x \<longrightarrow> gs_senders s'' k = S_lock x)
         \<and> (\<forall>s''. (gw_step n react)\<^sup>*\<^sup>* s' s'' \<and> gs_closer s' = K_join \<longrightarrow> gs_closer s'' = K_join))"
proof -
  let ?m = "safe_buf t l"
  let ?s1 = "gw_sys_initial\<lparr>gs_gw := opened, gs_disp := D_top, gs_senders := (\<lambda>k. S_idle)(0 := S_lock ?m)\<rparr>"
  have r1: "gw_reach n react ?s1" using assms(1) by (rule reach_reporting)
  let ?g = "gateway_d_msg_add (Some ?m) opened"
  have g: "msg_store ?m opened = Ret ?g" by (rule msg_store_ok [OF opened_facts(6)]) (simp_all add: opened_facts)
  let ?s2 = "?s1\<lparr>gs_gw := ?g, gs_senders := (gs_senders ?s1)(0 := S_idle)\<rparr>"
  have r2: "gw_reach n react ?s2"
    using gw_reachI(1) [OF r1 gw_work.store [of ?s1 0 ?m ?g react]] g by simp
  have p: "pending opened = []" by (simp add: pending_def opened_facts)
  then have acc: "accepts ?m opened"
    using length_safe_buf [of t l] by (simp add: accepts_def opened_facts MAX_TOTAL_SIZE_val)
  then have pg: "pending ?g = ?m @ [NL]" using p pending_msg_add [OF opened_facts(6), of ?m] by simp
  have inv: "gw_inv ?g" using opened_facts(6) by (rule gw_inv_msg_add)
  have off: "0 < current_offset ?g" using length_pending [OF inv] pg by simp
  have run: "dispatcher_running ?g" "arena_d_instance ?g \<noteq> None" using opened_facts by simp_all
  let ?s3 = "?s2\<lparr>gs_disp := D_flush\<rparr>"
  have "gw_input n ?s2 ?s3" using gw_input.tick [of ?s2 n] run off by simp
  from gw_reachI(2) [OF r2 this] have r3: "gw_reach n react ?s3" .
  let ?s4 = "?s3\<lparr>gs_disp := D_lock\<rparr>"
  have "gw_work react ?s3 ?s4" using gw_work.flush [of ?s3 react] run off by (simp add: flush_check_def)
  from gw_reachI(1) [OF r3 this] have r4: "gw_reach n react ?s4" .
  obtain buf g2 where call: "flush_call ?g = Ret (buf, g2)"
    using flush_call_ok [OF inv run(2)] by blast
  with flush_call_Ret pg have b: "buf = ?m @ [NL]" "g2 = gw_call (Gw_on_data buf) ?g" by auto
  let ?s5 = "?s4\<lparr>gs_gw := g2, gs_disp := D_cb (m # todo)\<rparr>"
  have "gw_work react ?s4 ?s5" using gw_work.call [of ?s4 buf g2 react] call assms(2) b(1) by simp
  from gw_reachI(1) [OF r4 this] have r5: "gw_reach n react ?s5" .
  have "core_reports m g2" using assms(3) run(2) b(2) by (simp add: core_reports_def msg_check_def gw_call_def opened_facts gateway_d_msg_add_def Let_def)
  then have "gw_work react ?s5 (?s5\<lparr>gs_disp := D_stuck m\<rparr>)" by (intro gw_work.self_lock) simp_all
  from gw_reachI(1) [OF r5 this] have "gw_reach n react (?s5\<lparr>gs_disp := D_stuck m\<rparr>)" (is "gw_reach n react ?s6") .
  moreover have "gs_disp ?s6 = D_stuck m" by simp
  ultimately show ?thesis
    using stuck_for_ever [of n react] by (intro exI [of _ ?s6]) blast
qed

theorem reporting_on_data_deadlocks_witness:
  "\<exists>s. gw_reach 1 (\<lambda>_. [''reboot'']) s \<and> gs_disp s = D_stuck ''reboot''"
  using reporting_on_data_deadlocks [of 1 "\<lambda>_. [''reboot'']" PM_API "''x''" "''reboot''" "[]"] by auto


lemma reach_closing:
  assumes "0 < n"
  shows "gw_reach n react (gw_sys_initial\<lparr>gs_gw := opened\<lparr>g_gateway_connected_flag := False, dispatcher_running := False\<rparr>,
     gs_disp := D_top, gs_senders := (\<lambda>k. S_idle)(0 := S_lock (safe_buf t l)), gs_closer := K_join\<rparr>)"
proof -
  let ?s = "gw_sys_initial\<lparr>gs_gw := opened, gs_disp := D_top, gs_senders := (\<lambda>k. S_idle)(0 := S_lock (safe_buf t l))\<rparr>"
  have "gw_input n ?s (?s\<lparr>gs_gw := (gs_gw ?s)\<lparr>g_gateway_connected_flag := False, dispatcher_running := False\<rparr>,
      gs_closer := K_join\<rparr>)"
    by (rule gw_input.close_begin) (simp_all add: opened_facts gw_sys_initial_def)
  from gw_reachI(2) [OF reach_reporting [OF assms] this] show ?thesis by (simp add: gw_sys_initial_def)
qed


text \<open>
  A thread that has found the arena and waits for the mutex while the dispatcher is closed writes
  through a NULL pointer: the arena is freed without the mutex, and not looked at again under it.
\<close>

theorem report_races_with_close:
  "\<exists>s. gw_reach 1 react s \<and> gs_senders s 0 = S_fault NullDeref"
proof -
  let ?m = "safe_buf PM_API ''x''"
  let ?g = "opened\<lparr>g_gateway_connected_flag := False, dispatcher_running := False\<rparr>"
  let ?s1 = "gw_sys_initial\<lparr>gs_gw := ?g, gs_disp := D_top, gs_senders := (\<lambda>k. S_idle)(0 := S_lock ?m), gs_closer := K_join\<rparr>"
  have r1: "gw_reach 1 react ?s1" by (rule reach_closing) simp
  let ?s2 = "?s1\<lparr>gs_disp := D_gone\<rparr>"
  have "gw_work react ?s1 ?s2" by (rule gw_work.leave) simp_all
  from gw_reachI(1) [OF r1 this] have r2: "gw_reach 1 react ?s2" .
  let ?g2 = "?g\<lparr>arena_d_instance := None, current_offset := 0, gateway_on_data_cb := False\<rparr>"
  let ?s3 = "?s2\<lparr>gs_gw := ?g2, gs_closer := K_idle\<rparr>"
  have "gw_input 1 ?s2 ?s3" using gw_input.close_end [of ?s2 1] by simp
  from gw_reachI(2) [OF r2 this] have r3: "gw_reach 1 react ?s3" .
  have "msg_store ?m ?g2 = Fault NullDeref"
    using length_safe_buf [of PM_API "''x''"] by (simp add: msg_store_def MAX_TOTAL_SIZE_val)
  then have "gw_work react ?s3 (?s3\<lparr>gs_senders := (gs_senders ?s3)(0 := S_fault NullDeref)\<rparr>)"
    by (intro gw_work.store_fault [of _ _ ?m]) simp_all
  from gw_reachI(1) [OF r3 this] show ?thesis
    by (intro exI [of _ "?s3\<lparr>gs_senders := (gs_senders ?s3)(0 := S_fault NullDeref)\<rparr>"]) simp
qed

theorem gateway_threads_are_a_channel_witness:
  "\<exists>s s'. gw_reach 1 (\<lambda>_. []) s \<and> gw_step 1 (\<lambda>_. []) s s'
    \<and> channel_step (waiting_messages 1 s) (gs_closer s = K_join) (channel_view s) (channel_view s')"
proof -
  let ?s = "gw_sys_initial\<lparr>gs_gw := opened, gs_disp := D_top,
     gs_senders := (\<lambda>k. S_idle)(0 := S_lock (safe_buf PM_API ''x''))\<rparr>"
  have r: "gw_reach 1 (\<lambda>_. []) ?s" by (rule reach_reporting) simp
  have "msg_store (safe_buf PM_API ''x'') opened = Ret (gateway_d_msg_add (Some (safe_buf PM_API ''x'')) opened)"
    by (rule msg_store_ok [OF opened_facts(6)]) (simp_all add: opened_facts)
  then have "gw_step 1 (\<lambda>_. []) ?s (?s\<lparr>gs_gw := gateway_d_msg_add (Some (safe_buf PM_API ''x'')) opened,
      gs_senders := (gs_senders ?s)(0 := S_idle)\<rparr>)"
    unfolding gw_step_def by (intro disjI1 gw_work.store) simp_all
  from gateway_threads_are_a_channel [OF r this] r this show ?thesis by blast
qed

end
