(* ===== verification/Heapkit.thy ===== *)
theory Heapkit
  imports Dispatcher
begin

text \<open>
  src/core/heapkit.c, first part: the registry of the types a plugin declares, each with one
  instance in memory, and the access to single fields.

  The instance of a type is the list of its bytes; a field is read and written at its offset with
  the little-endian layout of the machine. A \<open>char*\<close> is a word of 64 bits whose target is in
  \<open>hk_strings\<close>, the strings of the process. Names are C strings. A type description is not
  changed after its registration, so the registry holds it where the code holds its address.
\<close>

section \<open>Bytes\<close>

fun le_bytes :: "nat \<Rightarrow> nat \<Rightarrow> byte list" where
  "le_bytes 0 v = []"
| "le_bytes (Suc n) v = of_nat v # le_bytes n (v div 256)"

fun le_val :: "byte list \<Rightarrow> nat" where
  "le_val [] = 0"
| "le_val (b # bs) = unat b + 256 * le_val bs"

lemma length_le_bytes [simp]: "length (le_bytes n v) = n"
  by (induction n arbitrary: v) auto

lemma le_val_le_bytes: "le_val (le_bytes n v) = v mod 256 ^ n"
proof (induction n arbitrary: v)
  case (Suc n)
  have "unat (of_nat v :: byte) = v mod 256" by (simp add: unat_of_nat)
  then show ?case using Suc.IH [of "v div 256"] by (simp add: mod_mult2_eq)
qed simp

text \<open>Access to a block; an access that leaves it is a fault.\<close>

definition mem_read :: "byte list \<Rightarrow> nat \<Rightarrow> nat \<Rightarrow> byte list outcome" where
  "mem_read mem off n = (if off + n \<le> length mem then Ret (take n (drop off mem)) else Fault OutOfBounds)"

definition mem_write :: "byte list \<Rightarrow> nat \<Rightarrow> byte list \<Rightarrow> byte list outcome" where
  "mem_write mem off bs =
     (if off + length bs \<le> length mem
      then Ret (take off mem @ bs @ drop (off + length bs) mem) else Fault OutOfBounds)"

lemma mem_write_length: "mem_write mem off bs = Ret mem' \<Longrightarrow> length mem' = length mem"
  by (auto simp: mem_write_def split: if_splits)

lemma mem_read_write:
  "mem_write mem off bs = Ret mem' \<Longrightarrow> mem_read mem' off (length bs) = Ret bs"
  by (auto simp: mem_write_def mem_read_def split: if_splits)

lemma mem_write_ok: "off + length bs \<le> length mem \<Longrightarrow> \<exists>mem'. mem_write mem off bs = Ret mem'"
  by (simp add: mem_write_def)

lemma mem_read_write_disjoint:
  assumes "mem_write mem off bs = Ret mem'" "o2 + n \<le> off \<or> off + length bs \<le> o2"
  shows "mem_read mem' o2 n = mem_read mem o2 n"
proof -
  have len: "off + length bs \<le> length mem"
    and mem': "mem' = take off mem @ bs @ drop (off + length bs) mem"
    using assms(1) by (auto simp: mem_write_def split: if_splits)
  have "take n (drop o2 mem') = take n (drop o2 mem)" if "o2 + n \<le> length mem"
  proof (rule nth_equalityI)
    show "length (take n (drop o2 mem')) = length (take n (drop o2 mem))"
      using mem_write_length [OF assms(1)] by simp
    fix i
    assume "i < length (take n (drop o2 mem'))"
    then have i: "i < n" by simp
    have "mem' ! (o2 + i) = mem ! (o2 + i)"
    proof (cases "o2 + n \<le> off")
      case True
      with i len show ?thesis by (simp add: mem' nth_append)
    next
      case False
      with assms(2) have "off + length bs \<le> o2" by simp
      moreover from this have "\<not> o2 + i < off" "\<not> o2 + i - off < length bs" by auto
      ultimately show ?thesis using i len that by (simp add: mem' nth_append)
    qed
    with i that mem_write_length [OF assms(1)] show "take n (drop o2 mem') ! i = take n (drop o2 mem) ! i"
      by simp
  qed
  then show ?thesis using mem_write_length [OF assms(1)] by (simp add: mem_read_def)
qed

section \<open>Types\<close>

datatype field_type =
    TYPE_INT | TYPE_FLOAT | TYPE_BOOL | TYPE_CHAR | TYPE_STRING | TYPE_STRUCT | TYPE_PTR | TYPE_UNKNOWN

record field_info =
  field_name :: string
  field_type :: field_type
  field_offset :: nat
  field_size :: nat
  field_type_name :: string

record type_info =
  type_name :: string
  type_size :: nat
  type_fields :: "field_info list"
  is_simple :: bool
  base_type :: field_type

record registered_type =
  reg_plugin_id :: plugin_id
  reg_type_info :: "type_info option"
  d_instance :: "byte list option"

definition MAX_REGISTERED_TYPES :: nat where "MAX_REGISTERED_TYPES = 128"
definition HEAPKIT_MAX_FIELD :: nat where "HEAPKIT_MAX_FIELD = 10"

record hk =
  g_type_registry :: "nat \<Rightarrow> registered_type"
  g_type_count :: nat
  hk_strings :: "u64 \<rightharpoonup> string"

definition registered_zero :: registered_type where
  "registered_zero = \<lparr> reg_plugin_id = 0, reg_type_info = None, d_instance = None \<rparr>"

definition hk_initial :: hk where
  "hk_initial =
     \<lparr> g_type_registry = (\<lambda>_. registered_zero), g_type_count = 0, hk_strings = Map.empty \<rparr>"

definition hk_init :: "hk \<Rightarrow> c_int \<times> hk" where
  "hk_init s = (0, s\<lparr>g_type_registry := \<lambda>_. registered_zero\<rparr>)"

text \<open>The sizes of the C types.\<close>

definition hk_type_size :: "field_type \<Rightarrow> nat" where
  "hk_type_size t =
     (case t of
        TYPE_INT \<Rightarrow> 4 | TYPE_FLOAT \<Rightarrow> 4 | TYPE_BOOL \<Rightarrow> 1 | TYPE_CHAR \<Rightarrow> 1
      | TYPE_STRING \<Rightarrow> 8 | TYPE_PTR \<Rightarrow> 8 | _ \<Rightarrow> 0)"

text \<open>The second result is what \<open>*out_struct_name\<close> is set to, if it is.\<close>

definition hk_parse_type :: "string \<Rightarrow> field_type \<times> string option" where
  "hk_parse_type str =
     (if strcmp str ''int'' = 0 then (TYPE_INT, None)
      else if strcmp str ''float'' = 0 then (TYPE_FLOAT, None)
      else if strcmp str ''bool'' = 0 then (TYPE_BOOL, None)
      else if strcmp str ''char'' = 0 then (TYPE_CHAR, None)
      else if strcmp str ''string'' = 0 then (TYPE_STRING, None)
      else if strcmp str ''ptr'' = 0 then (TYPE_PTR, None)
      else (TYPE_STRUCT, Some str))"

section \<open>The registry\<close>

text \<open>The loops over the registry, on the indices \<open>i\<close> still to come.\<close>

fun find_registered_in ::
    "plugin_id \<Rightarrow> string \<Rightarrow> (nat \<Rightarrow> registered_type) \<Rightarrow> nat list \<Rightarrow> nat option outcome" where
  "find_registered_in pid name reg [] = Ret None"
| "find_registered_in pid name reg (i # js) =
     (if reg_plugin_id (reg i) \<noteq> pid then find_registered_in pid name reg js
      else (case reg_type_info (reg i) of
              None \<Rightarrow> Fault NullDeref
            | Some ti \<Rightarrow>
                if strcmp (type_name ti) name = 0 then Ret (Some i)
                else find_registered_in pid name reg js))"

definition find_registered :: "plugin_id \<Rightarrow> string \<Rightarrow> hk \<Rightarrow> nat option outcome" where
  "find_registered pid name s = find_registered_in pid name (g_type_registry s) [0..<g_type_count s]"

text \<open>\<open>info\<close> is \<open>None\<close> for a NULL pointer; \<open>calloc\<close> gives zero bytes.\<close>

definition hk_add_entry :: "plugin_id \<Rightarrow> type_info \<Rightarrow> hk \<Rightarrow> hk" where
  "hk_add_entry pid ti s =
     (let r = \<lparr> reg_plugin_id = pid, reg_type_info = Some ti,
                d_instance = Some (replicate (type_size ti) 0) \<rparr>
      in s\<lparr>g_type_registry := (g_type_registry s)(g_type_count s := r),
           g_type_count := g_type_count s + 1\<rparr>)"

definition hk_type_register :: "bool \<Rightarrow> plugin_id \<Rightarrow> type_info option \<Rightarrow> hk \<Rightarrow> (c_int \<times> hk) outcome"
where
  "hk_type_register calloc_ok pid info s =
     (case info of
        None \<Rightarrow> Ret (-1, s)
      | Some ti \<Rightarrow>
          outcome_bind (find_registered pid (type_name ti) s) (\<lambda>found.
            if found \<noteq> None then Ret (1, s)
            else if g_type_count s \<ge> MAX_REGISTERED_TYPES then Ret (-2, s)
            else if \<not> calloc_ok then Ret (-3, s)
            else Ret (0, hk_add_entry pid ti s)))"

section \<open>Fields\<close>

fun find_field :: "string \<Rightarrow> field_info list \<Rightarrow> field_info option" where
  "find_field name [] = None"
| "find_field name (f # fs) = (if strcmp (field_name f) name = 0 then Some f else find_field name fs)"

text \<open>A registered type with its description and its instance, as the accesses need them.\<close>

definition with_registered ::
    "plugin_id \<Rightarrow> string \<Rightarrow> hk \<Rightarrow> (nat \<Rightarrow> type_info \<Rightarrow> byte list \<Rightarrow> 'a outcome) \<Rightarrow> 'a \<Rightarrow> 'a outcome" where
  "with_registered pid name s f missing =
     outcome_bind (find_registered pid name s) (\<lambda>found.
       case found of
         None \<Rightarrow> Ret missing
       | Some i \<Rightarrow>
           (case (reg_type_info (g_type_registry s i), d_instance (g_type_registry s i)) of
              (Some ti, Some mem) \<Rightarrow> f i ti mem
            | _ \<Rightarrow> Fault NullDeref))"

lemma with_registered_Ret:
  assumes "with_registered pid name s f missing = Ret r"
  shows "r = missing \<or> (\<exists>i ti mem. find_registered pid name s = Ret (Some i)
    \<and> reg_type_info (g_type_registry s i) = Some ti \<and> d_instance (g_type_registry s i) = Some mem
    \<and> f i ti mem = Ret r)"
proof -
  from assms obtain found where found: "find_registered pid name s = Ret found"
    by (auto simp: with_registered_def)
  with assms show ?thesis
    by (cases found) (auto simp: with_registered_def split: option.splits)
qed

definition hk_field_type :: "plugin_id \<Rightarrow> string \<Rightarrow> string \<Rightarrow> hk \<Rightarrow> field_type outcome" where
  "hk_field_type pid tname fname s =
     with_registered pid tname s
       (\<lambda>_ ti _. Ret (case find_field fname (type_fields ti) of None \<Rightarrow> TYPE_UNKNOWN | Some f \<Rightarrow> field_type f))
       TYPE_UNKNOWN"

definition hk_field_exists :: "plugin_id \<Rightarrow> string \<Rightarrow> string \<Rightarrow> hk \<Rightarrow> bool outcome" where
  "hk_field_exists pid tname fname s =
     outcome_bind (hk_field_type pid tname fname s) (\<lambda>t. Ret (t \<noteq> TYPE_UNKNOWN))"

text \<open>The result is the code and, on success, the bytes written to \<open>out_value\<close>.\<close>

definition hk_get_field :: "plugin_id \<Rightarrow> string \<Rightarrow> string \<Rightarrow> hk \<Rightarrow> (c_int \<times> byte list) outcome" where
  "hk_get_field pid tname fname s =
     with_registered pid tname s
       (\<lambda>_ ti mem.
          case find_field fname (type_fields ti) of
            None \<Rightarrow> Ret (-2, [])
          | Some f \<Rightarrow> outcome_bind (mem_read mem (field_offset f) (field_size f)) (\<lambda>bs. Ret (0, bs)))
       (-1, [])"

section \<open>The text of a value\<close>

text \<open>\<open>%.3f\<close> and \<open>strtof\<close> of the C library, on the 32 bits of a \<open>float\<close>.\<close>

record float_lib =
  fmt_f3 :: "32 word \<Rightarrow> string"
  strtof :: "string \<Rightarrow> 32 word"

text \<open>
  What \<open>snprintf\<close> is given for a field whose value starts the bytes \<open>bs\<close>: \<open>Ret None\<close> is the
  \<open>default\<close> of the switches.
\<close>

definition read_string :: "(u64 \<rightharpoonup> string) \<Rightarrow> u64 \<Rightarrow> string outcome" where
  "read_string strs p =
     (if p = 0 then Ret []
      else case strs p of None \<Rightarrow> Fault UseAfterFree | Some t \<Rightarrow> Ret t)"

definition value_text :: "float_lib \<Rightarrow> (u64 \<rightharpoonup> string) \<Rightarrow> field_type \<Rightarrow> byte list \<Rightarrow> string option outcome"
where
  "value_text fl strs t bs =
     (if length bs < (case t of TYPE_STRUCT \<Rightarrow> 0 | TYPE_PTR \<Rightarrow> 0 | TYPE_UNKNOWN \<Rightarrow> 0 | _ \<Rightarrow> hk_type_size t)
      then Fault OutOfBounds
      else case t of
             TYPE_INT \<Rightarrow> Ret (Some (fmt_d (of_nat (le_val (take 4 bs)))))
           | TYPE_FLOAT \<Rightarrow> Ret (Some (fmt_f3 fl (of_nat (le_val (take 4 bs)))))
           | TYPE_BOOL \<Rightarrow> Ret (Some (if bs ! 0 \<noteq> 0 then ''true'' else ''false''))
           | TYPE_CHAR \<Rightarrow> Ret (Some [char_of (unat (bs ! 0))])
           | TYPE_STRING \<Rightarrow>
               outcome_bind (read_string strs (of_nat (le_val (take 8 bs)))) (\<lambda>t.
                 Ret (Some ([CHR 0x22] @ t @ [CHR 0x22])))
           | _ \<Rightarrow> Ret None)"

definition field_text :: "nat \<Rightarrow> field_info \<Rightarrow> string \<Rightarrow> string" where
  "field_text n f v = snprintf n (field_name f @ ''='' @ v @ '';'')"

text \<open>
  The loop of \<open>hk_set_field\<close>. With a gateway connected, the \<open>default\<close> of its switch continues the
  loop, with the bytes already written. \<open>value\<close> is what can be read from the pointer on.
\<close>

fun set_fields ::
    "float_lib \<Rightarrow> (u64 \<rightharpoonup> string) \<Rightarrow> plugin_id \<Rightarrow> string \<Rightarrow> string \<Rightarrow> byte list \<Rightarrow> field_info list
      \<Rightarrow> byte list \<times> gw \<Rightarrow> (c_int \<times> byte list \<times> gw) outcome" where
  "set_fields fl strs pid tname fname value [] st = Ret (-2, st)"
| "set_fields fl strs pid tname fname value (f # fs) st =
     (case st of (mem, g) \<Rightarrow>
        if strcmp (field_name f) fname \<noteq> 0 then set_fields fl strs pid tname fname value fs st
        else if length value < field_size f then Fault OutOfBounds
        else outcome_bind (mem_write mem (field_offset f) (take (field_size f) value)) (\<lambda>mem1.
               if \<not> g_gateway_connected_flag g then Ret (0, mem1, g)
               else outcome_bind (value_text fl strs (field_type f) value) (\<lambda>v.
                 case v of
                   None \<Rightarrow> set_fields fl strs pid tname fname value fs (mem1, g)
                 | Some v' \<Rightarrow>
                     Ret (0, mem1, gateway_report HK_API
                       (''[set] '' @ fmt_d pid @ '' ['' @ tname @ ''] '' @ field_text 127 f v') g))))"

definition set_instance :: "nat \<Rightarrow> byte list \<Rightarrow> hk \<Rightarrow> hk" where
  "set_instance i mem s =
     s\<lparr>g_type_registry := (g_type_registry s)(i := (g_type_registry s i)\<lparr>d_instance := Some mem\<rparr>)\<rparr>"

definition hk_set_field ::
    "float_lib \<Rightarrow> plugin_id \<Rightarrow> string \<Rightarrow> string \<Rightarrow> byte list \<Rightarrow> hk \<times> gw \<Rightarrow> (c_int \<times> hk \<times> gw) outcome" where
  "hk_set_field fl pid tname fname value st =
     (case st of (s, g) \<Rightarrow>
        with_registered pid tname s
          (\<lambda>i ti mem.
             outcome_bind (set_fields fl (hk_strings s) pid tname fname value (type_fields ti) (mem, g))
               (\<lambda>(r, mem1, g1). Ret (r, set_instance i mem1 s, g1)))
          (-1, s, g))"

section \<open>Lemmas\<close>

text \<open>The registry without the faults: the first entry with this plugin and this name.\<close>

definition hk_inv :: "hk \<Rightarrow> bool" where
  "hk_inv s \<longleftrightarrow>
     g_type_count s \<le> MAX_REGISTERED_TYPES
   \<and> (\<forall>i<g_type_count s. \<exists>ti mem. reg_type_info (g_type_registry s i) = Some ti
        \<and> d_instance (g_type_registry s i) = Some mem
        \<and> length mem = type_size ti \<and> NUL \<notin> set (type_name ti))"

definition entry_is :: "plugin_id \<Rightarrow> string \<Rightarrow> registered_type \<Rightarrow> bool" where
  "entry_is pid name r \<longleftrightarrow>
     reg_plugin_id r = pid \<and> map_option type_name (reg_type_info r) = Some name"

lemma hk_inv_initial: "hk_inv hk_initial"
  by (simp add: hk_inv_def hk_initial_def)

lemma find_registered_in_inv:
  assumes "\<forall>i\<in>set js. \<exists>ti. reg_type_info (reg i) = Some ti \<and> NUL \<notin> set (type_name ti)"
    and "NUL \<notin> set name"
  shows "find_registered_in pid name reg js = Ret (find (\<lambda>i. entry_is pid name (reg i)) js)"
  using assms(1)
proof (induction js)
  case (Cons i js)
  then obtain ti where "reg_type_info (reg i) = Some ti" "NUL \<notin> set (type_name ti)" by auto
  with Cons assms(2) show ?case by (simp add: entry_is_def)
qed simp

lemma find_registered_inv:
  assumes "hk_inv s" "NUL \<notin> set name"
  shows "find_registered pid name s =
    Ret (find (\<lambda>i. entry_is pid name (g_type_registry s i)) [0..<g_type_count s])"
  unfolding find_registered_def using assms
  by (intro find_registered_in_inv) (fastforce simp: hk_inv_def)+

lemma find_registered_Some:
  assumes "hk_inv s" "NUL \<notin> set name" "find_registered pid name s = Ret (Some i)"
  obtains ti mem where "i < g_type_count s" "reg_type_info (g_type_registry s i) = Some ti"
    "d_instance (g_type_registry s i) = Some mem" "length mem = type_size ti" "type_name ti = name"
    "reg_plugin_id (g_type_registry s i) = pid"
proof -
  have "find (\<lambda>i. entry_is pid name (g_type_registry s i)) [0..<g_type_count s] = Some i"
    using assms by (simp add: find_registered_inv)
  from find_Some_mem [OF this] assms(1) that show thesis
    by (fastforce simp: hk_inv_def entry_is_def)
qed

lemma hk_add_entry_ok:
  assumes "hk_inv s" "NUL \<notin> set (type_name ti)" "g_type_count s < MAX_REGISTERED_TYPES"
    and "find_registered pid (type_name ti) s = Ret None"
  shows "hk_inv (hk_add_entry pid ti s)"
    and "find_registered pid (type_name ti) (hk_add_entry pid ti s) = Ret (Some (g_type_count s))"
proof -
  let ?s = "hk_add_entry pid ti s"
  let ?P = "\<lambda>s i. entry_is pid (type_name ti) (g_type_registry s i)"
  show inv: "hk_inv ?s"
    using assms(1-3) by (auto simp: hk_inv_def hk_add_entry_def less_Suc_eq)
  have old: "find (?P s) [0..<g_type_count s] = None"
    using assms(4) find_registered_inv [OF assms(1,2), of pid] by simp
  have same: "\<forall>i\<in>set [0..<g_type_count s]. ?P ?s i = ?P s i" by (simp add: hk_add_entry_def)
  have "find (?P ?s) [0..<g_type_count s] = find (?P s) [0..<g_type_count s]"
    by (rule find_cong) (use same in auto)
  with old have "find (?P ?s) [0..<g_type_count s] = None" by simp
  moreover have "?P ?s (g_type_count s)" by (simp add: entry_is_def hk_add_entry_def)
  moreover have "g_type_count ?s = Suc (g_type_count s)" by (simp add: hk_add_entry_def)
  ultimately show "find_registered pid (type_name ti) ?s = Ret (Some (g_type_count s))"
    using find_registered_inv [OF inv assms(2), of pid] by (simp add: find_append)
qed

lemma hk_inv_set_instance [inv_intros]:
  assumes "hk_inv s" "d_instance (g_type_registry s i) = Some mem" "length mem' = length mem"
  shows "hk_inv (set_instance i mem' s)"
  unfolding hk_inv_def
proof (intro conjI allI impI)
  show "g_type_count (set_instance i mem' s) \<le> MAX_REGISTERED_TYPES"
    using assms(1) by (simp add: hk_inv_def set_instance_def)
  fix j
  assume "j < g_type_count (set_instance i mem' s)"
  then obtain ti m where "reg_type_info (g_type_registry s j) = Some ti"
    "d_instance (g_type_registry s j) = Some m" "length m = type_size ti" "NUL \<notin> set (type_name ti)"
    using assms(1) by (auto simp: hk_inv_def set_instance_def)
  with assms(2,3) show "\<exists>ti m. reg_type_info (g_type_registry (set_instance i mem' s) j) = Some ti
      \<and> d_instance (g_type_registry (set_instance i mem' s) j) = Some m
      \<and> length m = type_size ti \<and> NUL \<notin> set (type_name ti)"
    by (cases "j = i") (simp_all add: set_instance_def)
qed

lemma find_registered_in_cong:
  assumes "\<And>i. reg_plugin_id (r' i) = reg_plugin_id (r i)" "\<And>i. reg_type_info (r' i) = reg_type_info (r i)"
  shows "find_registered_in pid name r' js = find_registered_in pid name r js"
  by (induction js) (auto simp: assms split: option.split)

lemma find_registered_set_instance [simp]:
  "find_registered pid name (set_instance i mem s) = find_registered pid name s"
  unfolding find_registered_def
  by (subst find_registered_in_cong [of "g_type_registry (set_instance i mem s)" "g_type_registry s"])
    (simp_all add: set_instance_def)

lemma find_registered_mem:
  assumes "hk_inv s" "NUL \<notin> set name" "find_registered pid name s = Ret (Some i)"
    and "reg_type_info (g_type_registry s i) = Some ti"
  obtains mem where "d_instance (g_type_registry s i) = Some mem" "length mem = type_size ti"
  using find_registered_Some [OF assms(1-3)] assms(4) by (metis option.inject)

lemma registry_set_instance [simp]:
  "reg_type_info (g_type_registry (set_instance i mem s) j) = reg_type_info (g_type_registry s j)"
  "d_instance (g_type_registry (set_instance i mem s) j) =
    (if j = i then Some mem else d_instance (g_type_registry s j))"
  "hk_strings (set_instance i mem s) = hk_strings s"
  "g_type_count (set_instance i mem s) = g_type_count s"
  by (simp_all add: set_instance_def)

lemma find_field_name:
  "NUL \<notin> set name \<Longrightarrow> \<forall>f\<in>set fs. NUL \<notin> set (field_name f) \<Longrightarrow>
    find_field name fs = find (\<lambda>f. field_name f = name) fs"
  by (induction fs) auto

lemma set_fields_skip:
  "find_field name fs = None \<Longrightarrow> set_fields fl strs pid tn name v fs st = Ret (-2, st)"
  by (induction fs) (auto split: if_splits prod.splits)

lemma set_fields_quiet:
  assumes "\<not> g_gateway_connected_flag g" "find_field name fs = Some f" "length v = field_size f"
    and "field_offset f + field_size f \<le> length mem"
  shows "\<exists>mem'. set_fields fl strs pid tn name v fs (mem, g) = Ret (0, mem', g)
    \<and> mem_write mem (field_offset f) v = Ret mem'"
proof -
  obtain mem' where "mem_write mem (field_offset f) v = Ret mem'"
    using mem_write_ok [of "field_offset f" v mem] assms(3,4) by auto
  with assms(1-3) show ?thesis by (induction fs) (auto split: if_splits)
qed

section \<open>A type with a number and a pointer\<close>

definition sample_field :: "string \<Rightarrow> field_type \<Rightarrow> nat \<Rightarrow> field_info" where
  "sample_field name t off =
     \<lparr> field_name = name, field_type = t, field_offset = off, field_size = hk_type_size t,
       field_type_name = [] \<rparr>"

definition sample_type :: type_info where
  "sample_type =
     \<lparr> type_name = ''cfg'', type_size = 12,
       type_fields = [sample_field ''n'' TYPE_INT 0, sample_field ''p'' TYPE_PTR 4],
       is_simple = False, base_type = TYPE_STRUCT \<rparr>"

definition sample_hk :: hk where
  "sample_hk =
     hk_initial\<lparr>g_type_registry := (\<lambda>_. registered_zero)(0 :=
         \<lparr> reg_plugin_id = 7, reg_type_info = Some sample_type,
           d_instance = Some (replicate 12 0) \<rparr>),
       g_type_count := 1\<rparr>"

lemma sample_hk_facts:
  "hk_inv sample_hk" "find_registered 7 ''cfg'' sample_hk = Ret (Some 0)"
  "reg_type_info (g_type_registry sample_hk 0) = Some sample_type" "g_type_count sample_hk = 1"
  by (simp_all add: hk_inv_def sample_hk_def hk_initial_def sample_type_def MAX_REGISTERED_TYPES_def
      find_registered_def)

definition no_floats :: float_lib where
  "no_floats = \<lparr> fmt_f3 = (\<lambda>_. []), strtof = (\<lambda>_. 0) \<rparr>"

section \<open>Properties\<close>

text \<open>
  C16. Setting a field and reading it back gives the bytes that were set; every field whose bytes
  do not overlap with it and every instance of another type keeps its value; the registry stays
  well formed.
\<close>

theorem hk_get_after_set:
  assumes "hk_inv s" "\<not> g_gateway_connected_flag g" "NUL \<notin> set tname"
    and "find_registered pid tname s = Ret (Some i)" "reg_type_info (g_type_registry s i) = Some ti"
    and "find_field fname (type_fields ti) = Some f" "length v = field_size f"
    and "field_offset f + field_size f \<le> type_size ti"
  shows "\<exists>s'. hk_set_field fl pid tname fname v (s, g) = Ret (0, s', g) \<and> hk_inv s'
    \<and> hk_get_field pid tname fname s' = Ret (0, v)
    \<and> (\<forall>name2 f2. find_field name2 (type_fields ti) = Some f2 \<longrightarrow>
         field_offset f2 + field_size f2 \<le> field_offset f
           \<or> field_offset f + field_size f \<le> field_offset f2 \<longrightarrow>
         hk_get_field pid tname name2 s' = hk_get_field pid tname name2 s)
    \<and> (\<forall>j. j \<noteq> i \<longrightarrow> g_type_registry s' j = g_type_registry s j)"
proof -
  obtain mem where mem: "d_instance (g_type_registry s i) = Some mem" "length mem = type_size ti"
    by (rule find_registered_mem [OF assms(1,3-5)])
  from set_fields_quiet [OF assms(2,6,7), of mem fl "hk_strings s" pid tname] assms(8) mem(2)
  obtain mem' where mem': "set_fields fl (hk_strings s) pid tname fname v (type_fields ti) (mem, g)
      = Ret (0, mem', g)" "mem_write mem (field_offset f) v = Ret mem'" by auto
  let ?s = "set_instance i mem' s"
  have "hk_set_field fl pid tname fname v (s, g) = Ret (0, ?s, g)"
    using assms(4,5) mem(1) mem'(1) by (simp add: hk_set_field_def with_registered_def)
  moreover have "hk_inv ?s"
    using assms(1) mem(1) mem_write_length [OF mem'(2)] by (rule hk_inv_set_instance)
  moreover have "hk_get_field pid tname fname ?s = Ret (0, v)"
    using assms(4-7) mem_read_write [OF mem'(2)] by (simp add: hk_get_field_def with_registered_def)
  moreover have "hk_get_field pid tname name2 ?s = hk_get_field pid tname name2 s"
    if "find_field name2 (type_fields ti) = Some f2" "field_offset f2 + field_size f2 \<le> field_offset f
           \<or> field_offset f + field_size f \<le> field_offset f2" for name2 f2
    using assms(4,5) that mem(1) mem_read_write_disjoint [OF mem'(2), of "field_offset f2" "field_size f2"]
    by (simp add: hk_get_field_def with_registered_def assms(7))
  moreover have "\<forall>j. j \<noteq> i \<longrightarrow> g_type_registry ?s j = g_type_registry s j"
    by (simp add: set_instance_def)
  ultimately show ?thesis by blast
qed

theorem hk_get_after_set_witness:
  "\<exists>s'. hk_set_field no_floats 7 ''cfg'' ''n'' [1, 2, 3, 4] (sample_hk, gw_initial) = Ret (0, s', gw_initial)
    \<and> hk_get_field 7 ''cfg'' ''n'' s' = Ret (0, [1, 2, 3, 4])"
proof -
  have "\<not> g_gateway_connected_flag gw_initial" "NUL \<notin> set ''cfg''"
    "find_field ''n'' (type_fields sample_type) = Some (sample_field ''n'' TYPE_INT 0)"
    "length [1, 2, 3, 4 :: byte] = field_size (sample_field ''n'' TYPE_INT 0)"
    "field_offset (sample_field ''n'' TYPE_INT 0) + field_size (sample_field ''n'' TYPE_INT 0)
      \<le> type_size sample_type"
    by (simp_all add: gw_initial_def sample_type_def sample_field_def hk_type_size_def)
  from hk_get_after_set [OF sample_hk_facts(1) this(1,2) sample_hk_facts(2,3) this(3-5), of no_floats]
  show ?thesis by blast
qed

text \<open>
  Registering a type: a second type of the same plugin with the same name is refused with 1,
  the 129th type with -2, a failed \<open>calloc\<close> with -3, each leaving the registry alone; otherwise the
  type is found from then on, its bytes are zero, and every type that was registered stays what it
  was.
\<close>

theorem hk_type_register_outcomes:
  assumes "hk_inv s" "NUL \<notin> set (type_name ti)"
  shows "hk_type_register calloc_ok pid (Some ti) s =
     (if find (\<lambda>i. entry_is pid (type_name ti) (g_type_registry s i)) [0..<g_type_count s] \<noteq> None
      then Ret (1, s)
      else if g_type_count s = MAX_REGISTERED_TYPES then Ret (-2, s)
      else if \<not> calloc_ok then Ret (-3, s)
      else Ret (0, s\<lparr>g_type_registry := (g_type_registry s)(g_type_count s :=
                      \<lparr> reg_plugin_id = pid, reg_type_info = Some ti,
                        d_instance = Some (replicate (type_size ti) 0) \<rparr>),
                    g_type_count := g_type_count s + 1\<rparr>))
    \<and> (\<forall>s'. hk_type_register calloc_ok pid (Some ti) s = Ret (0, s') \<longrightarrow>
         hk_inv s' \<and> find_registered pid (type_name ti) s' = Ret (Some (g_type_count s)))"
proof -
  let ?P = "\<lambda>i. entry_is pid (type_name ti) (g_type_registry s i)"
  note found = find_registered_inv [OF assms, of pid]
  have le: "g_type_count s \<le> MAX_REGISTERED_TYPES" using assms(1) by (simp add: hk_inv_def)
  have eq: "hk_type_register calloc_ok pid (Some ti) s =
     (if find ?P [0..<g_type_count s] \<noteq> None then Ret (1, s)
      else if g_type_count s = MAX_REGISTERED_TYPES then Ret (-2, s)
      else if \<not> calloc_ok then Ret (-3, s) else Ret (0, hk_add_entry pid ti s))"
    using found le by (simp add: hk_type_register_def)
  moreover have "hk_inv s' \<and> find_registered pid (type_name ti) s' = Ret (Some (g_type_count s))"
    if "hk_type_register calloc_ok pid (Some ti) s = Ret (0, s')" for s'
  proof -
    from that eq have "s' = hk_add_entry pid ti s" "find ?P [0..<g_type_count s] = None"
      "g_type_count s \<noteq> MAX_REGISTERED_TYPES" by (auto split: if_splits)
    with hk_add_entry_ok [OF assms, of pid] found le show ?thesis by simp
  qed
  ultimately show ?thesis by (simp add: hk_add_entry_def)
qed

theorem hk_type_register_outcomes_witness:
  "hk_type_register True 7 (Some sample_type) sample_hk = Ret (1, sample_hk)
    \<and> (\<exists>s'. hk_type_register True 8 (Some sample_type) sample_hk = Ret (0, s')
         \<and> find_registered 8 ''cfg'' s' = Ret (Some 1))"
proof -
  have n: "NUL \<notin> set (type_name sample_type)" by (simp add: sample_type_def)
  have "find (\<lambda>i. entry_is 7 (type_name sample_type) (g_type_registry sample_hk i)) [0..<1] \<noteq> None"
    "find (\<lambda>i. entry_is 8 (type_name sample_type) (g_type_registry sample_hk i)) [0..<1] = None"
    "type_name sample_type = ''cfg''"
    by (simp_all add: entry_is_def sample_hk_def hk_initial_def sample_type_def)
  then show ?thesis
    using hk_type_register_outcomes [OF sample_hk_facts(1) n, of True 7]
      hk_type_register_outcomes [OF sample_hk_facts(1) n, of True 8]
    by (simp add: sample_hk_facts(4) MAX_REGISTERED_TYPES_def)
qed

text \<open>
  With a gateway connected, setting a field of type \<open>ptr\<close> or of a struct type writes the bytes
  and then answers -2, as if there were no such field, and the gateway is not told.
\<close>

theorem hk_set_ptr_with_gateway:
  assumes "hk_inv s" "g_gateway_connected_flag g" "NUL \<notin> set tname"
    and "find_registered pid tname s = Ret (Some i)" "reg_type_info (g_type_registry s i) = Some ti"
    and "type_fields ti = xs @ f # ys" "find_field (field_name f) xs = None"
    and "find_field (field_name f) ys = None" "NUL \<notin> set (field_name f)"
    and "field_type f = TYPE_PTR \<or> field_type f = TYPE_STRUCT" "length v = field_size f"
    and "field_offset f + field_size f \<le> type_size ti"
  shows "\<exists>s'. hk_set_field fl pid tname (field_name f) v (s, g) = Ret (-2, s', g)
    \<and> hk_get_field pid tname (field_name f) s' = Ret (0, v)"
proof -
  obtain mem where mem: "d_instance (g_type_registry s i) = Some mem" "length mem = type_size ti"
    by (rule find_registered_mem [OF assms(1,3-5)])
  obtain mem' where mem': "mem_write mem (field_offset f) v = Ret mem'"
    using mem_write_ok [of "field_offset f" v mem] assms(11,12) mem(2) by auto
  have skip: "find_field (field_name f) xs = None \<Longrightarrow>
      set_fields fl (hk_strings s) pid tname (field_name f) v (xs @ f # ys) st
      = set_fields fl (hk_strings s) pid tname (field_name f) v (f # ys) st" for st
    by (induction xs) (auto split: if_splits prod.splits)
  have "set_fields fl (hk_strings s) pid tname (field_name f) v (type_fields ti) (mem, g) = Ret (-2, mem', g)"
    using assms(2,9-11) mem' set_fields_skip [OF assms(8)]
    by (auto simp: assms(6) skip [OF assms(7)] value_text_def)
  then have "hk_set_field fl pid tname (field_name f) v (s, g) = Ret (-2, set_instance i mem' s, g)"
    using assms(4,5) mem(1) by (simp add: hk_set_field_def with_registered_def)
  moreover have "find_field (field_name f) (xs @ f # ys) = Some f"
    using assms(7,9) by (induction xs) (auto split: if_splits)
  then have "hk_get_field pid tname (field_name f) (set_instance i mem' s) = Ret (0, v)"
    using assms(4-6,11) mem_read_write [OF mem'] by (simp add: hk_get_field_def with_registered_def)
  ultimately show ?thesis by blast
qed

theorem hk_set_ptr_with_gateway_witness:
  "\<exists>s'. hk_set_field no_floats 7 ''cfg'' ''p'' (replicate 8 5)
      (sample_hk, gw_initial\<lparr>g_gateway_connected_flag := True\<rparr>)
      = Ret (-2, s', gw_initial\<lparr>g_gateway_connected_flag := True\<rparr>)
    \<and> hk_get_field 7 ''cfg'' ''p'' s' = Ret (0, replicate 8 5)"
proof -
  let ?f = "sample_field ''p'' TYPE_PTR 4"
  have "g_gateway_connected_flag (gw_initial\<lparr>g_gateway_connected_flag := True\<rparr>)" "NUL \<notin> set ''cfg''"
    "type_fields sample_type = [sample_field ''n'' TYPE_INT 0] @ ?f # []"
    "find_field (field_name ?f) [sample_field ''n'' TYPE_INT 0] = None"
    "find_field (field_name ?f) [] = None" "NUL \<notin> set (field_name ?f)"
    "field_type ?f = TYPE_PTR \<or> field_type ?f = TYPE_STRUCT" "length (replicate 8 (5::byte)) = field_size ?f"
    "field_offset ?f + field_size ?f \<le> type_size sample_type"
    by (simp_all add: sample_type_def sample_field_def hk_type_size_def)
  from hk_set_ptr_with_gateway [OF sample_hk_facts(1) this(1,2) sample_hk_facts(2,3) this(3-9),
      of no_floats]
  show ?thesis by (simp add: sample_field_def)
qed

text \<open>
  \<open>hk_init\<close> clears the registry but not the number of its entries. The plugins' types are gone,
  yet a full registry stays full, and a lookup for plugin 0 reads a NULL description.
\<close>

theorem hk_init_keeps_count:
  assumes "0 < g_type_count s" "pid \<noteq> 0"
  shows "let s' = snd (hk_init s)
    in find_registered pid name s' = Ret None \<and> find_registered 0 name s' = Fault NullDeref
     \<and> (g_type_count s = MAX_REGISTERED_TYPES \<longrightarrow>
          hk_type_register calloc_ok pid (Some ti) s' = Ret (-2, s'))"
proof -
  let ?s = "snd (hk_init s)"
  have none: "find_registered_in pid nm (\<lambda>_. registered_zero) js = Ret None" for nm js
    by (induction js) (auto simp: registered_zero_def assms(2))
  have cnt: "g_type_count ?s = g_type_count s" "g_type_registry ?s = (\<lambda>_. registered_zero)"
    by (simp_all add: hk_init_def)
  have "find_registered 0 name ?s = Fault NullDeref"
    using assms(1) by (simp add: find_registered_def cnt upt_conv_Cons registered_zero_def)
  then show ?thesis
    by (simp add: find_registered_def cnt none hk_type_register_def Let_def)
qed

theorem hk_init_keeps_count_witness:
  "find_registered 0 ''cfg'' (snd (hk_init sample_hk)) = Fault NullDeref
    \<and> find_registered 7 ''cfg'' (snd (hk_init sample_hk)) = Ret None"
  using hk_init_keeps_count [of sample_hk 7 "''cfg''" True sample_type]
  by (simp add: sample_hk_facts(4) Let_def)

end
