(* ===== verification/JitStub.thy ===== *)
theory JitStub
  imports CorePrelude
begin

text \<open>
  libs/jit/jit_stub_generator.cpp: the six functions that generate, for one plugin and one function
  of the core, a function that passes the plugin's identifier on as an additional first argument.

  LLVM is not part of the program. What the code hands to it, a module with one function, is data:
  the part of LLVM's intermediate representation that the code uses, with the constants, types and
  names it uses. \<open>check_fn\<close> is LLVM's typing of it and \<open>run_fn\<close> its meaning; the addresses at which
  the compiled functions are found are a parameter. A function type built in the code is a record,
  \<open>getPtrTy\<close> is \<open>Ptr\<close>.
\<close>

section \<open>The intermediate representation\<close>

datatype ir_type = I32 | I64 | Ptr

record fn_type =
  ret_type :: ir_type
  param_types :: "ir_type list"

text \<open>An argument of the function, a constant, a constant address, the result of an instruction.\<close>

datatype ir_value = Argument nat | Int32 "32 word" | Int64 u64 | IntToPtr ir_value | Result nat

datatype ir_instr = Call fn_type ir_value "ir_value list" | Return ir_value

record ir_fn =
  fn_name :: string
  fn_type :: fn_type
  fn_entry :: "ir_instr list"

text \<open>Types. A block ends with its only return.\<close>

fun value_type :: "ir_type list \<Rightarrow> ir_type list \<Rightarrow> ir_value \<Rightarrow> ir_type option" where
  "value_type params results (Argument i) = (if i < length params then Some (params ! i) else None)"
| "value_type params results (Int32 c) = Some I32"
| "value_type params results (Int64 c) = Some I64"
| "value_type params results (IntToPtr v) = (if value_type params results v = Some I64 then Some Ptr else None)"
| "value_type params results (Result i) = (if i < length results then Some (results ! i) else None)"

fun check_block :: "fn_type \<Rightarrow> ir_type list \<Rightarrow> ir_instr list \<Rightarrow> bool" where
  "check_block ty results [Return v] = (value_type (param_types ty) results v = Some (ret_type ty))"
| "check_block ty results (Call cty f args # rest) =
     (value_type (param_types ty) results f = Some Ptr
      \<and> map (value_type (param_types ty) results) args = map Some (param_types cty)
      \<and> check_block ty (results @ [ret_type cty]) rest)"
| "check_block ty results _ = False"

definition check_fn :: "ir_fn \<Rightarrow> bool" where
  "check_fn f = check_block (fn_type f) [] (fn_entry f)"

text \<open>
  Meaning. \<open>callee\<close> is what a call of the function at an address does to the rest of the program.
  \<open>None\<close> is a block that has no meaning.
\<close>

datatype ir_val = V32 "32 word" | V64 u64 | VPtr u64

fun type_of :: "ir_val \<Rightarrow> ir_type" where
  "type_of (V32 _) = I32"
| "type_of (V64 _) = I64"
| "type_of (VPtr _) = Ptr"

fun eval_value :: "ir_val list \<Rightarrow> ir_val list \<Rightarrow> ir_value \<Rightarrow> ir_val option" where
  "eval_value args results (Argument i) = (if i < length args then Some (args ! i) else None)"
| "eval_value args results (Int32 c) = Some (V32 c)"
| "eval_value args results (Int64 c) = Some (V64 c)"
| "eval_value args results (IntToPtr v) =
     (case eval_value args results v of Some (V64 a) \<Rightarrow> Some (VPtr a) | _ \<Rightarrow> None)"
| "eval_value args results (Result i) = (if i < length results then Some (results ! i) else None)"

type_synonym 's callee = "u64 \<Rightarrow> ir_val list \<Rightarrow> 's \<Rightarrow> (ir_val \<times> 's) outcome"

fun run_block :: "'s callee \<Rightarrow> ir_val list \<Rightarrow> ir_val list \<Rightarrow> ir_instr list \<Rightarrow> 's \<Rightarrow> (ir_val \<times> 's) outcome option" where
  "run_block callee args results [] s = None"
| "run_block callee args results (Return v # rest) s =
     map_option (\<lambda>r. Ret (r, s)) (eval_value args results v)"
| "run_block callee args results (Call cty f vs # rest) s =
     (case (eval_value args results f, those (map (eval_value args results) vs)) of
        (Some (VPtr a), Some xs) \<Rightarrow>
          if map type_of xs \<noteq> param_types cty then None
          else (case callee a xs s of
            Ret (r, s1) \<Rightarrow>
              if type_of r \<noteq> ret_type cty then None else run_block callee args (results @ [r]) rest s1
          | Blocked \<Rightarrow> Some Blocked
          | Diverges \<Rightarrow> Some Diverges
          | Fault e \<Rightarrow> Some (Fault e))
      | _ \<Rightarrow> None)"

definition run_fn :: "'s callee \<Rightarrow> ir_fn \<Rightarrow> ir_val list \<Rightarrow> 's \<Rightarrow> (ir_val \<times> 's) outcome option" where
  "run_fn callee f args s =
     (if map type_of args \<noteq> param_types (fn_type f) then None else run_block callee args [] (fn_entry f) s)"

section \<open>The generator\<close>

text \<open>
  \<open>JITStub\<close>: the compiled module, and the address of the function. \<open>jit_env\<close> is whether the JIT can
  be made and takes the module, and where it puts a function. \<open>lookup\<close> finds the functions of the
  module by their names.
\<close>

record jit_env =
  jit_created :: bool
  jit_added :: bool
  jit_place :: "string \<Rightarrow> u64"

record jit_stub =
  stub_module :: "ir_fn list"
  stub_fn_ptr :: u64

definition jit_lookup :: "jit_env \<Rightarrow> ir_fn list \<Rightarrow> string \<Rightarrow> u64 option" where
  "jit_lookup env module name = (if name \<in> fn_name ` set module then Some (jit_place env name) else None)"

definition jit_compile :: "jit_env \<Rightarrow> ir_fn list \<Rightarrow> string \<Rightarrow> jit_stub option" where
  "jit_compile env module name =
     (if \<not> jit_created env then None
      else if \<not> jit_added env then None
      else (case jit_lookup env module name of
        None \<Rightarrow> None
      | Some addr \<Rightarrow> Some \<lparr> stub_module = module, stub_fn_ptr = addr \<rparr>))"

definition get_stub_function :: "jit_stub option \<Rightarrow> u64" where
  "get_stub_function stub = (case stub of None \<Rightarrow> 0 | Some s \<Rightarrow> stub_fn_ptr s)"

definition create_api_subscribe_stub :: "jit_env \<Rightarrow> 32 word \<Rightarrow> u64 \<Rightarrow> jit_stub option" where
  "create_api_subscribe_stub env plugin_id real_fn =
     (let stubFnType = \<lparr> ret_type = I32, param_types = [Ptr, Ptr, Ptr] \<rparr>;
          eventName = Argument 0; cb = Argument 1; user = Argument 2;
          pidVal = Int32 plugin_id;
          busType = \<lparr> ret_type = I32, param_types = [I32, Ptr, Ptr, Ptr] \<rparr>;
          fnPtr = IntToPtr (Int64 real_fn);
          entry = [Call busType fnPtr [pidVal, eventName, cb, user], Return (Result 0)];
          stubFn = \<lparr> fn_name = ''api_subscribe_stub'', fn_type = stubFnType, fn_entry = entry \<rparr>
      in jit_compile env [stubFn] ''api_subscribe_stub'')"

definition create_api_scheduler_after_stub :: "jit_env \<Rightarrow> 32 word \<Rightarrow> u64 \<Rightarrow> jit_stub option" where
  "create_api_scheduler_after_stub env plugin_id real_fn =
     (let stubFnType = \<lparr> ret_type = I32, param_types = [I64, Ptr, Ptr] \<rparr>;
          ms = Argument 0; cb = Argument 1; user = Argument 2;
          pidVal = Int32 plugin_id;
          busType = \<lparr> ret_type = I32, param_types = [I32, I64, Ptr, Ptr] \<rparr>;
          fnPtr = IntToPtr (Int64 real_fn);
          entry = [Call busType fnPtr [pidVal, ms, cb, user], Return (Result 0)];
          stubFn = \<lparr> fn_name = ''api_scheduler_after_ms_stub'', fn_type = stubFnType, fn_entry = entry \<rparr>
      in jit_compile env [stubFn] ''api_scheduler_after_ms_stub'')"

definition create_api_scheduler_every_ms_stub :: "jit_env \<Rightarrow> 32 word \<Rightarrow> u64 \<Rightarrow> jit_stub option" where
  "create_api_scheduler_every_ms_stub env plugin_id real_fn =
     (let stubFnType = \<lparr> ret_type = I32, param_types = [I64, Ptr, Ptr] \<rparr>;
          ms = Argument 0; cb = Argument 1; user = Argument 2;
          pidVal = Int32 plugin_id;
          busType = \<lparr> ret_type = I32, param_types = [I32, I64, Ptr, Ptr] \<rparr>;
          fnPtr = IntToPtr (Int64 real_fn);
          entry = [Call busType fnPtr [pidVal, ms, cb, user], Return (Result 0)];
          stubFn = \<lparr> fn_name = ''api_scheduler_every_ms_stub'', fn_type = stubFnType, fn_entry = entry \<rparr>
      in jit_compile env [stubFn] ''api_scheduler_every_ms_stub'')"

definition create_api_scheduler_cancel_stub :: "jit_env \<Rightarrow> 32 word \<Rightarrow> u64 \<Rightarrow> jit_stub option" where
  "create_api_scheduler_cancel_stub env plugin_id real_fn =
     (let stubFnType = \<lparr> ret_type = I32, param_types = [I32] \<rparr>;
          cancel_id = Argument 0;
          pidVal = Int32 plugin_id;
          busType = \<lparr> ret_type = I32, param_types = [I32, I32] \<rparr>;
          fnPtr = IntToPtr (Int64 real_fn);
          entry = [Call busType fnPtr [pidVal, cancel_id], Return (Result 0)];
          stubFn = \<lparr> fn_name = ''api_scheduler_cancel_stub'', fn_type = stubFnType, fn_entry = entry \<rparr>
      in jit_compile env [stubFn] ''api_scheduler_cancel_stub'')"

definition create_api_hk_getter_stub :: "jit_env \<Rightarrow> 32 word \<Rightarrow> u64 \<Rightarrow> jit_stub option" where
  "create_api_hk_getter_stub env plugin_id real_fn =
     (let stubFnType = \<lparr> ret_type = I32, param_types = [Ptr, Ptr, Ptr] \<rparr>;
          type_name = Argument 0; field_name = Argument 1; d_value = Argument 2;
          pidVal = Int32 plugin_id;
          busType = \<lparr> ret_type = I32, param_types = [I32, Ptr, Ptr, Ptr] \<rparr>;
          fnPtr = IntToPtr (Int64 real_fn);
          entry = [Call busType fnPtr [pidVal, type_name, field_name, d_value], Return (Result 0)];
          stubFn = \<lparr> fn_name = ''api_get_field_stub'', fn_type = stubFnType, fn_entry = entry \<rparr>
      in jit_compile env [stubFn] ''api_get_field_stub'')"

definition create_api_hk_setter_stub :: "jit_env \<Rightarrow> 32 word \<Rightarrow> u64 \<Rightarrow> jit_stub option" where
  "create_api_hk_setter_stub env plugin_id real_fn =
     (let stubFnType = \<lparr> ret_type = I32, param_types = [Ptr, Ptr, Ptr] \<rparr>;
          type_name = Argument 0; field_name = Argument 1; set_value = Argument 2;
          pidVal = Int32 plugin_id;
          busType = \<lparr> ret_type = I32, param_types = [I32, Ptr, Ptr, Ptr] \<rparr>;
          fnPtr = IntToPtr (Int64 real_fn);
          entry = [Call busType fnPtr [pidVal, type_name, field_name, set_value], Return (Result 0)];
          stubFn = \<lparr> fn_name = ''api_set_field_stub'', fn_type = stubFnType, fn_entry = entry \<rparr>
      in jit_compile env [stubFn] ''api_set_field_stub'')"

section \<open>The C types on both sides\<close>

datatype c_type = C_int | C_uint32 | C_uint64 | C_pointer

fun lower :: "c_type \<Rightarrow> ir_type" where
  "lower C_int = I32"
| "lower C_uint32 = I32"
| "lower C_uint64 = I64"
| "lower C_pointer = Ptr"

text \<open>
  The six functions, with the parameters that the member of \<open>core_api_t\<close> has and those of the
  function of the core. All of them return \<open>int\<close>.
\<close>

datatype stub_kind = Stub_subscribe | Stub_every | Stub_after | Stub_cancel | Stub_getter | Stub_setter

fun api_params :: "stub_kind \<Rightarrow> c_type list" where
  "api_params Stub_subscribe = [C_pointer, C_pointer, C_pointer]"
| "api_params Stub_every = [C_uint64, C_pointer, C_pointer]"
| "api_params Stub_after = [C_uint64, C_pointer, C_pointer]"
| "api_params Stub_cancel = [C_int]"
| "api_params Stub_getter = [C_pointer, C_pointer, C_pointer]"
| "api_params Stub_setter = [C_pointer, C_pointer, C_pointer]"

fun core_params :: "stub_kind \<Rightarrow> c_type list" where
  "core_params Stub_subscribe = [C_uint32, C_pointer, C_pointer, C_pointer]"
| "core_params Stub_every = [C_uint32, C_uint64, C_pointer, C_pointer]"
| "core_params Stub_after = [C_uint32, C_uint64, C_pointer, C_pointer]"
| "core_params Stub_cancel = [C_uint32, C_int]"
| "core_params Stub_getter = [C_uint32, C_pointer, C_pointer, C_pointer]"
| "core_params Stub_setter = [C_uint32, C_pointer, C_pointer, C_pointer]"

text \<open>The generator that plugin_stub.c uses for each of them.\<close>

fun create_stub :: "stub_kind \<Rightarrow> jit_env \<Rightarrow> 32 word \<Rightarrow> u64 \<Rightarrow> jit_stub option" where
  "create_stub Stub_subscribe = create_api_subscribe_stub"
| "create_stub Stub_every = create_api_scheduler_every_ms_stub"
| "create_stub Stub_after = create_api_scheduler_after_stub"
| "create_stub Stub_cancel = create_api_scheduler_cancel_stub"
| "create_stub Stub_getter = create_api_hk_getter_stub"
| "create_stub Stub_setter = create_api_hk_setter_stub"

lemmas create_stub_defs =
  create_api_subscribe_stub_def create_api_scheduler_every_ms_stub_def create_api_scheduler_after_stub_def
  create_api_scheduler_cancel_stub_def create_api_hk_getter_stub_def create_api_hk_setter_stub_def

section \<open>Lemmas\<close>

lemma those_map_Some: "those (map Some xs) = Some xs"
  by (induction xs) auto

text \<open>Typed values evaluate to values of their types.\<close>

lemma eval_value_typed:
  assumes "value_type (map type_of args) (map type_of results) v = Some t"
  shows "\<exists>x. eval_value args results v = Some x \<and> type_of x = t"
  using assms
proof (induction v arbitrary: t)
  case (IntToPtr v)
  then have "value_type (map type_of args) (map type_of results) v = Some I64" "t = Ptr" by (auto split: if_splits)
  with IntToPtr.IH obtain x where "eval_value args results v = Some x" "type_of x = I64" "t = Ptr" by blast
  then show ?case by (cases x) auto
qed (auto split: if_splits)

lemma eval_values_typed:
  assumes "map (value_type (map type_of args) (map type_of results)) vs = map Some ts"
  shows "\<exists>xs. those (map (eval_value args results) vs) = Some xs \<and> map type_of xs = ts"
  using assms
proof (induction vs arbitrary: ts)
  case (Cons v vs)
  then obtain t us where "ts = t # us" "value_type (map type_of args) (map type_of results) v = Some t"
    "map (value_type (map type_of args) (map type_of results)) vs = map Some us" by (cases ts) auto
  with Cons.IH [of us] eval_value_typed show ?case by fastforce
qed simp

text \<open>The functions that a block calls return values of the declared types.\<close>

definition callee_typed :: "'s callee \<Rightarrow> ir_instr list \<Rightarrow> bool" where
  "callee_typed callee is \<longleftrightarrow> (\<forall>cty f vs. Call cty f vs \<in> set is \<longrightarrow>
     (\<forall>a xs s r s1. map type_of xs = param_types cty \<longrightarrow> callee a xs s = Ret (r, s1) \<longrightarrow> type_of r = ret_type cty))"

lemma run_block_typed:
  assumes "check_block ty (map type_of results) is" "param_types ty = map type_of args" "callee_typed callee is"
  shows "\<exists>out. run_block callee args results is s = Some out
    \<and> (\<forall>r s'. out = Ret (r, s') \<longrightarrow> type_of r = ret_type ty)"
  using assms
proof (induction ty "map type_of results" "is" arbitrary: results s rule: check_block.induct)
  case (1 ty v)
  then have "value_type (map type_of args) (map type_of results) v = Some (ret_type ty)" by simp
  from eval_value_typed [OF this] show ?case by auto
next
  case (2 ty cty f vs rest)
  then have vt: "value_type (map type_of args) (map type_of results) f = Some Ptr"
    "map (value_type (map type_of args) (map type_of results)) vs = map Some (param_types cty)"
    by simp_all
  from eval_value_typed [OF vt(1)] obtain x where x: "eval_value args results f = Some x" "type_of x = Ptr" by blast
  then obtain a where f: "eval_value args results f = Some (VPtr a)" by (cases x) auto
  from eval_values_typed [OF vt(2)] obtain xs where
    xs: "those (map (eval_value args results) vs) = Some xs" "map type_of xs = param_types cty" by blast
  show ?case
  proof (cases "callee a xs s")
    case (Ret rs)
    obtain r s1 where rs: "rs = (r, s1)" by (cases rs)
    have r: "type_of r = ret_type cty"
      using "2.prems"(3) xs(2) Ret rs unfolding callee_typed_def by (metis list.set_intros(1))
    then have "map type_of (results @ [r]) = map type_of results @ [ret_type cty]" by simp
    moreover have "callee_typed callee rest" using "2.prems"(3) by (auto simp: callee_typed_def)
    ultimately have "\<exists>out. run_block callee args (results @ [r]) rest s1 = Some out
        \<and> (\<forall>r s'. out = Ret (r, s') \<longrightarrow> type_of r = ret_type ty)"
      using "2.hyps" [of "results @ [r]" s1] "2.prems"(1,2) by simp
    with f xs r Ret rs show ?thesis by simp
  qed (use f xs in simp_all)
qed simp_all

text \<open>What the generator makes.\<close>

definition stub_fn :: "stub_kind \<Rightarrow> 32 word \<Rightarrow> u64 \<Rightarrow> string \<Rightarrow> ir_fn" where
  "stub_fn k plugin_id real_fn name =
     \<lparr> fn_name = name,
       fn_type = \<lparr> ret_type = lower C_int, param_types = map lower (api_params k) \<rparr>,
       fn_entry =
         [Call \<lparr> ret_type = lower C_int, param_types = map lower (core_params k) \<rparr> (IntToPtr (Int64 real_fn))
            (Int32 plugin_id # map Argument [0..<length (api_params k)]), Return (Result 0)] \<rparr>"

lemma create_stub_fn:
  "\<exists>name. create_stub k env plugin_id real_fn =
     (if jit_created env \<and> jit_added env
      then Some \<lparr> stub_module = [stub_fn k plugin_id real_fn name], stub_fn_ptr = jit_place env name \<rparr> else None)"
  by (cases k)
    (auto simp: create_stub_defs Let_def jit_compile_def jit_lookup_def stub_fn_def upt_rec numeral_eq_Suc)

lemma core_params_api: "core_params k = C_uint32 # api_params k"
  by (cases k) simp_all

lemma stub_fn_checks: "check_fn (stub_fn k plugin_id real_fn name)"
  by (cases k) (simp_all add: check_fn_def stub_fn_def upt_rec numeral_eq_Suc)

lemma eval_arguments:
  "those (map (eval_value args results \<circ> Argument) [0..<length args]) = Some args"
proof -
  have "map (eval_value args results \<circ> Argument) [0..<length args] = map Some (map (nth args) [0..<length args])"
    by (rule nth_equalityI) simp_all
  then show ?thesis by (simp only: those_map_Some map_nth)
qed

lemma stub_fn_calls:
  assumes "callee_typed callee (fn_entry (stub_fn k plugin_id real_fn name))" "map type_of args = map lower (api_params k)"
  shows "run_fn callee (stub_fn k plugin_id real_fn name) args s = Some (callee real_fn (V32 plugin_id # args) s)"
proof -
  have len: "length (api_params k) = length args" using assms(2) by (metis length_map)
  have ret: "type_of r = I32" if "callee real_fn (V32 plugin_id # args) s = Ret (r, s1)" for r s1
  proof -
    have "map type_of (V32 plugin_id # args) = map lower (core_params k)" using assms(2) by (simp add: core_params_api)
    moreover have "callee_typed callee
        [Call \<lparr> ret_type = I32, param_types = map lower (core_params k) \<rparr> (IntToPtr (Int64 real_fn))
          (Int32 plugin_id # map Argument [0..<length (api_params k)]), Return (Result 0)]"
      using assms(1) by (simp add: stub_fn_def)
    ultimately show ?thesis using that unfolding callee_typed_def by (metis list.set_intros(1) fn_type.select_convs)
  qed
  show ?thesis
    using assms(2) ret
    by (auto simp: run_fn_def stub_fn_def len eval_arguments core_params_api split: outcome.splits)
qed

section \<open>Properties\<close>


text \<open>
  C20. Calling a stub is calling the function of the core with the plugin's identifier in front: same
  effect, same result, for each of the six functions and all arguments.
\<close>

theorem stub_calls_core:
  assumes "create_stub k env plugin_id real_fn = Some stub" "f \<in> set (stub_module stub)"
    and "callee_typed callee (fn_entry f)" "map type_of args = map lower (api_params k)"
  shows "run_fn callee f args s = Some (callee real_fn (V32 plugin_id # args) s)"
proof -
  obtain name where f: "f = stub_fn k plugin_id real_fn name"
    using assms(1,2) create_stub_fn [of k env plugin_id real_fn] by (auto split: if_splits)
  show ?thesis using assms(3,4) unfolding f by (rule stub_fn_calls)
qed

text \<open>A JIT that works, and functions that note how they were called.\<close>

definition sample_jit :: jit_env where
  "sample_jit = \<lparr> jit_created = True, jit_added = True, jit_place = (\<lambda>_. 4096) \<rparr>"

definition sample_callee :: "(u64 \<times> ir_val list) list callee" where
  "sample_callee a xs calls = Ret (V32 0, calls @ [(a, xs)])"

lemma sample_stub:
  "\<exists>name stub. create_stub k sample_jit p a = Some stub \<and> stub_module stub = [stub_fn k p a name]
    \<and> callee_typed sample_callee (fn_entry (stub_fn k p a name))"
proof -
  obtain name where "create_stub k sample_jit p a = Some \<lparr> stub_module = [stub_fn k p a name], stub_fn_ptr = 4096 \<rparr>"
    using create_stub_fn [of k sample_jit p a] by (auto simp: sample_jit_def)
  moreover have "callee_typed sample_callee (fn_entry (stub_fn k p a name))"
    by (simp add: callee_typed_def stub_fn_def sample_callee_def)
  ultimately show ?thesis by (intro exI [of _ name]) simp
qed

theorem stub_calls_core_witness:
  "\<exists>stub f. create_stub Stub_cancel sample_jit 7 64 = Some stub \<and> f \<in> set (stub_module stub)
    \<and> run_fn sample_callee f [V32 3] [] = Some (Ret (V32 0, [(64, [V32 7, V32 3])]))"
proof -
  obtain name stub where st: "create_stub Stub_cancel sample_jit 7 64 = Some stub"
    "stub_module stub = [stub_fn Stub_cancel 7 64 name]"
    "callee_typed sample_callee (fn_entry (stub_fn Stub_cancel 7 64 name))"
    using sample_stub by blast
  have f: "stub_fn Stub_cancel 7 64 name \<in> set (stub_module stub)" using st(2) by simp
  have "map type_of [V32 3] = map lower (api_params Stub_cancel)" by simp
  from stub_calls_core [OF st(1) f st(3) this, of "[]"]
  have "run_fn sample_callee (stub_fn Stub_cancel 7 64 name) [V32 3] [] = Some (Ret (V32 0, [(64, [V32 7, V32 3])]))"
    by (simp add: sample_callee_def)
  with st(1) f show ?thesis by blast
qed


end
