(* ===== verification/PluginView.thy ===== *)
theory PluginView
  imports EventBus Scheduler Heapkit JitStub
begin

text \<open>
  What a plugin can do to the core, and to the other plugins, through the six functions of its
  \<open>core_api_t\<close> that src/plugin/plugin_stub.c generates for it.

  A stub is run as the generator made it (JitStub); what it calls is the function of the core
  (EventBus, Scheduler, Heapkit), with pointers followed in the memory of the process. A call is not
  interrupted here; SchedSystem and BusSystem have the interleavings.
\<close>

section \<open>The core behind the stubs\<close>

record core_state =
  cs_bus :: bus
  cs_sched :: scheduler
  cs_hk :: hk
  cs_gw :: gw
  cs_written :: "(u64 \<times> byte list) list"

text \<open>
  What the environment of a call answers: the allocations, the clock, and what stands in memory: the
  C string at an address, and the bytes readable from an address on. \<open>cs_written\<close> above is what was
  written to a plugin's own memory.
\<close>

record call_env =
  env_malloc_ok :: bool
  env_strdup :: "string option"
  env_new_timer :: "(addr \<rightharpoonup> scheduler_timer) \<Rightarrow> addr"
  env_now :: u64
  env_floats :: float_lib
  env_string :: "u64 \<Rightarrow> string option"
  env_bytes :: "u64 \<Rightarrow> byte list"

text \<open>\<open>malloc\<close> returns NULL or memory that is not in use.\<close>

definition malloc_fresh :: "call_env \<Rightarrow> bool" where
  "malloc_fresh env \<longleftrightarrow> (\<forall>h. env_new_timer env h = NULL \<or> h (env_new_timer env h) = None)"

definition core_subscribe :: "call_env \<Rightarrow> plugin_id \<Rightarrow> u64 \<Rightarrow> u64 \<Rightarrow> u64 \<Rightarrow> core_state \<Rightarrow> (c_int \<times> core_state) outcome" where
  "core_subscribe env pid event cb' user' s =
     (case bus_subscribe (env_malloc_ok env) (env_strdup env) pid (env_string env event) cb' user' (cs_bus s, cs_gw s) of
        (r, b, g) \<Rightarrow> Ret (r, s\<lparr>cs_bus := b, cs_gw := g\<rparr>))"

definition core_add_timer ::
    "bool \<Rightarrow> call_env \<Rightarrow> plugin_id \<Rightarrow> u64 \<Rightarrow> u64 \<Rightarrow> u64 \<Rightarrow> core_state \<Rightarrow> (c_int \<times> core_state) outcome" where
  "core_add_timer rep env pid ms cb' user' s =
     outcome_bind ((if rep then scheduler_every_ms else scheduler_after_ms)
         (env_new_timer env (timer_heap (cs_sched s))) (env_now env) (\<lambda>u. u) pid ms cb' user' (cs_sched s, cs_gw s))
       (\<lambda>(r, u, g). Ret (r, s\<lparr>cs_sched := u, cs_gw := g\<rparr>))"

definition core_cancel :: "plugin_id \<Rightarrow> c_int \<Rightarrow> core_state \<Rightarrow> (c_int \<times> core_state) outcome" where
  "core_cancel pid i s =
     outcome_bind (scheduler_cancel pid i (cs_sched s, cs_gw s)) (\<lambda>(r, u, g).
       Ret (r, s\<lparr>cs_sched := u, cs_gw := g\<rparr>))"

text \<open>A NULL name is an error of the caller; the model does not go on with it.\<close>

definition core_hk_get :: "call_env \<Rightarrow> plugin_id \<Rightarrow> u64 \<Rightarrow> u64 \<Rightarrow> u64 \<Rightarrow> core_state \<Rightarrow> (c_int \<times> core_state) outcome" where
  "core_hk_get env pid tname fname out s =
     (case (env_string env tname, env_string env fname) of
        (Some t, Some f) \<Rightarrow>
          outcome_bind (hk_get_field pid (cstr t) (cstr f) (cs_hk s)) (\<lambda>(r, bs).
            Ret (r, if r = 0 then s\<lparr>cs_written := cs_written s @ [(out, bs)]\<rparr> else s))
      | _ \<Rightarrow> Fault NullDeref)"

definition core_hk_set :: "call_env \<Rightarrow> plugin_id \<Rightarrow> u64 \<Rightarrow> u64 \<Rightarrow> u64 \<Rightarrow> core_state \<Rightarrow> (c_int \<times> core_state) outcome" where
  "core_hk_set env pid tname fname v s =
     (case (env_string env tname, env_string env fname) of
        (Some t, Some f) \<Rightarrow>
          outcome_bind (hk_set_field (env_floats env) pid (cstr t) (cstr f) (env_bytes env v) (cs_hk s, cs_gw s))
            (\<lambda>(r, h, g). Ret (r, s\<lparr>cs_hk := h, cs_gw := g\<rparr>))
      | _ \<Rightarrow> Fault NullDeref)"

text \<open>
  The functions of the core by the values they are called with, and the code at an address: \<open>syms\<close>
  says which of them it is.
\<close>

definition core_fn :: "call_env \<Rightarrow> stub_kind \<Rightarrow> ir_val list \<Rightarrow> core_state \<Rightarrow> (c_int \<times> core_state) outcome" where
  "core_fn env k xs s =
     (case k of
        Stub_subscribe \<Rightarrow>
          (case xs of [V32 pid, VPtr e, VPtr cb', VPtr u] \<Rightarrow> core_subscribe env pid e cb' u s | _ \<Rightarrow> Fault UninitRead)
      | Stub_every \<Rightarrow>
          (case xs of [V32 pid, V64 ms, VPtr cb', VPtr u] \<Rightarrow> core_add_timer True env pid ms cb' u s | _ \<Rightarrow> Fault UninitRead)
      | Stub_after \<Rightarrow>
          (case xs of [V32 pid, V64 ms, VPtr cb', VPtr u] \<Rightarrow> core_add_timer False env pid ms cb' u s | _ \<Rightarrow> Fault UninitRead)
      | Stub_cancel \<Rightarrow>
          (case xs of [V32 pid, V32 i] \<Rightarrow> core_cancel pid i s | _ \<Rightarrow> Fault UninitRead)
      | Stub_getter \<Rightarrow>
          (case xs of [V32 pid, VPtr t, VPtr f, VPtr v] \<Rightarrow> core_hk_get env pid t f v s | _ \<Rightarrow> Fault UninitRead)
      | Stub_setter \<Rightarrow>
          (case xs of [V32 pid, VPtr t, VPtr f, VPtr v] \<Rightarrow> core_hk_set env pid t f v s | _ \<Rightarrow> Fault UninitRead))"

definition core_callee :: "(u64 \<rightharpoonup> stub_kind) \<Rightarrow> call_env \<Rightarrow> core_state callee" where
  "core_callee syms env a xs s =
     (case syms a of
        None \<Rightarrow> Fault NullDeref
      | Some k \<Rightarrow> outcome_bind (core_fn env k xs s) (\<lambda>(r, s1). Ret (V32 r, s1)))"

text \<open>A plugin calls a member of its \<open>core_api_t\<close>.\<close>

definition api_call ::
    "(u64 \<rightharpoonup> stub_kind) \<Rightarrow> jit_env \<Rightarrow> plugin_id \<Rightarrow> stub_kind \<Rightarrow> u64 \<Rightarrow> call_env \<Rightarrow> ir_val list \<Rightarrow> core_state
      \<Rightarrow> (ir_val \<times> core_state) outcome option" where
  "api_call syms jit pid k real_fn env args s =
     (case create_stub k jit pid real_fn of
        None \<Rightarrow> None
      | Some stub \<Rightarrow> run_fn (core_callee syms env) (hd (stub_module stub)) args s)"

lemma core_callee_typed: "callee_typed (core_callee syms env) (fn_entry (stub_fn k pid a name))"
  by (auto simp: callee_typed_def stub_fn_def core_callee_def split: option.splits)

text \<open>Through the stub, the call is the function of the core with the plugin's own identifier.\<close>

lemma api_call_core:
  assumes "jit_created jit" "jit_added jit" "syms a = Some k" "map type_of args = map lower (api_params k)"
  shows "api_call syms jit pid k a env args s =
    Some (outcome_bind (core_fn env k (V32 pid # args) s) (\<lambda>(r, s1). Ret (V32 r, s1)))"
proof -
  obtain name where "create_stub k jit pid a = Some \<lparr> stub_module = [stub_fn k pid a name], stub_fn_ptr = jit_place jit name \<rparr>"
    using create_stub_fn [of k jit pid a] assms(1,2) by auto
  then show ?thesis
    using stub_fn_calls [OF core_callee_typed assms(4)] assms(3) by (simp add: api_call_def core_callee_def)
qed

section \<open>What belongs to a plugin\<close>

definition subs_of :: "plugin_id \<Rightarrow> bus \<Rightarrow> sub list" where
  "subs_of q b = filter (\<lambda>x. sub_plugin_id x = q) (g_head b)"

definition types_of :: "plugin_id \<Rightarrow> hk \<Rightarrow> registered_type list" where
  "types_of q h = filter (\<lambda>r. reg_plugin_id r = q) (map (g_type_registry h) [0..<g_type_count h])"

definition timer_of :: "plugin_id \<Rightarrow> (addr \<rightharpoonup> scheduler_timer) \<Rightarrow> addr \<Rightarrow> bool" where
  "timer_of q h a = (case h a of None \<Rightarrow> False | Some t \<Rightarrow> timer_plugin_id t = q)"

text \<open>The timers of a plugin in the order they will fire.\<close>

definition timers_of :: "plugin_id \<Rightarrow> scheduler \<Rightarrow> addr list \<Rightarrow> scheduler_timer list" where
  "timers_of q u as = map (\<lambda>a. the (contents (timer_heap u) a)) (filter (timer_of q (timer_heap u)) as)"

text \<open>The well-formed states, and that plugin \<open>q\<close> has the same in two of them.\<close>

definition core_ok :: "core_state \<Rightarrow> addr list \<Rightarrow> bool" where
  "core_ok s as \<longleftrightarrow> bus_inv (cs_bus s) \<and> hk_inv (cs_hk s) \<and> timers_are (cs_sched s) as"

definition same_view :: "plugin_id \<Rightarrow> core_state \<Rightarrow> addr list \<Rightarrow> core_state \<Rightarrow> addr list \<Rightarrow> bool" where
  "same_view q s as s' bs \<longleftrightarrow> subs_of q (cs_bus s') = subs_of q (cs_bus s)
     \<and> types_of q (cs_hk s') = types_of q (cs_hk s)
     \<and> timers_of q (cs_sched s') bs = timers_of q (cs_sched s) as"

lemma same_view_trans: "same_view q s as s1 bs \<Longrightarrow> same_view q s1 bs s2 cs \<Longrightarrow> same_view q s as s2 cs"
  by (simp add: same_view_def)

lemma timer_of_alt: "timer_of q h a = (case contents h a of None \<Rightarrow> False | Some t \<Rightarrow> timer_plugin_id t = q)"
  by (simp add: timer_of_def contents_def split: option.split)

lemma timers_of_cong:
  assumes "\<And>a. a \<in> set as \<Longrightarrow> contents (timer_heap u') a = contents (timer_heap u) a"
  shows "timers_of q u' as = timers_of q u as"
proof -
  have "filter (timer_of q (timer_heap u')) as = filter (timer_of q (timer_heap u)) as"
    by (rule filter_cong) (simp_all add: timer_of_alt assms)
  then show ?thesis using assms by (simp only: timers_of_def) simp
qed

lemma timers_of_append: "timers_of q u (as @ bs) = timers_of q u as @ timers_of q u bs"
  by (simp add: timers_of_def)

lemma timers_of_Cons_other: "\<not> timer_of q (timer_heap u) a \<Longrightarrow> timers_of q u (a # as) = timers_of q u as"
  by (simp add: timers_of_def)

text \<open>A timer of another plugin comes in or goes.\<close>

lemma timers_of_insert:
  assumes "contents (timer_heap u') = (contents (timer_heap u))(p \<mapsto> t)" "timer_plugin_id t \<noteq> q" "p \<notin> set as"
  shows "timers_of q u' (insert_at due d p as) = timers_of q u as"
proof -
  obtain xs ys where split: "as = xs @ ys" "insert_at due d p as = xs @ p # ys"
    using insert_at_split by blast
  have "\<not> timer_of q (timer_heap u') p" using assms(1,2) by (simp add: timer_of_alt)
  then have "timers_of q u' (insert_at due d p as) = timers_of q u' as"
    unfolding split(2) timers_of_append by (simp add: split(1) timers_of_append timers_of_Cons_other)
  also have "\<dots> = timers_of q u as" using assms(1,3) by (intro timers_of_cong) auto
  finally show ?thesis .
qed

lemma timers_of_remove:
  assumes "contents (timer_heap u') = (contents (timer_heap u))(p := None)" "\<not> timer_of q (timer_heap u) p"
    and "distinct as"
  shows "timers_of q u' (remove1 p as) = timers_of q u as"
proof -
  have "timers_of q u' (remove1 p as) = timers_of q u (remove1 p as)"
    using assms(1,3) by (intro timers_of_cong) auto
  also have "\<dots> = timers_of q u as"
  proof (cases "p \<in> set as")
    case True
    then obtain xs ys where as: "as = xs @ p # ys" by (auto simp: in_set_conv_decomp)
    then have "remove1 p as = xs @ ys" using assms(3) by (simp add: remove1_append)
    with as assms(2) show ?thesis by (simp only: timers_of_append) (simp add: timers_of_Cons_other)
  qed (simp add: remove1_idem)
  finally show ?thesis .
qed

section \<open>Each function keeps what others have\<close>

lemma subscribe_keeps:
  assumes "core_ok s as" "core_subscribe env pid e cb' u s = Ret (r, s')"
  shows "core_ok s' as \<and> (\<forall>q. q \<noteq> pid \<longrightarrow> same_view q s as s' as)"
proof -
  obtain b g where b: "bus_subscribe (env_malloc_ok env) (env_strdup env) pid (env_string env e) cb' u (cs_bus s, cs_gw s)
      = (r, b, g)" "s' = s\<lparr>cs_bus := b, cs_gw := g\<rparr>"
    using assms(2) by (auto simp: core_subscribe_def split: prod.splits)
  with bus_inv_subscribe [of "cs_bus s" "env_malloc_ok env" "env_strdup env" pid "env_string env e" cb' u "cs_gw s"]
  have "bus_inv b" using assms(1) by (simp add: core_ok_def)
  moreover have "subs_of q b = subs_of q (cs_bus s)" if "q \<noteq> pid" for q
    using b(1) that by (auto simp: bus_subscribe_def subs_of_def Let_def split: option.splits if_splits)
  ultimately show ?thesis using assms(1) b(2) by (simp add: core_ok_def same_view_def)
qed

lemma add_timer_keeps:
  assumes "core_ok s as" "malloc_fresh env" "core_add_timer rep env pid ms cb' u s = Ret (r, s')"
  shows "\<exists>bs. core_ok s' bs \<and> (\<forall>q. q \<noteq> pid \<longrightarrow> same_view q s as s' bs)"
proof -
  let ?p = "env_new_timer env (timer_heap (cs_sched s))"
  have are: "timers_are (cs_sched s) as" using assms(1) by (simp add: core_ok_def)
  show ?thesis
  proof (cases "cb' = 0 \<or> rep \<and> ms = 0 \<or> ?p = NULL")
    case True
    then have "s' = s" using assms(3)
      by (cases rep) (auto simp: core_add_timer_def scheduler_after_ms_def scheduler_every_ms_def split: if_splits)
    with assms(1) show ?thesis by (auto simp: same_view_def)
  next
    case False
    then have p: "timer_heap (cs_sched s) ?p = None" "?p \<noteq> NULL" "cb' \<noteq> 0" "rep \<longrightarrow> ms \<noteq> 0"
      using assms(2) unfolding malloc_fresh_def by metis+
    from scheduler_adds [OF are p, of "env_now env" pid u "cs_gw s"] obtain u' g' where u':
      "(if rep then scheduler_every_ms else scheduler_after_ms) ?p (env_now env) (\<lambda>s. s) pid ms cb' u
        (cs_sched s, cs_gw s) = Ret (g_next_id (cs_sched s), u', g')"
      "timers_are u' (insert_at (due_of (timer_heap (cs_sched s))) (env_now env + ms) ?p as)"
      "contents (timer_heap u') = (contents (timer_heap (cs_sched s)))(?p \<mapsto>
        \<lparr> timer_id = g_next_id (cs_sched s), due_ms = env_now env + ms, interval_ms = (if rep then ms else 0),
          timer_cb = cb', timer_plugin_id = pid, timer_user = u, repeating = rep, next_timer = NULL \<rparr>)" by blast
    have s': "s' = s\<lparr>cs_sched := u', cs_gw := g'\<rparr>"
      using assms(3) by (simp add: core_add_timer_def u'(1))
    have "?p \<notin> set as"
      using are p(1) lseg_dom [of "timer_heap (cs_sched s)" "g_timers (cs_sched s)" as NULL ?p]
      by (auto simp: timers_are_def)
    with timers_of_insert [OF u'(3)]
    have "timers_of q u' (insert_at (due_of (timer_heap (cs_sched s))) (env_now env + ms) ?p as)
        = timers_of q (cs_sched s) as" if "q \<noteq> pid" for q using that by simp
    with u'(2) assms(1) show ?thesis unfolding s'
      by (intro exI [of _ "insert_at (due_of (timer_heap (cs_sched s))) (env_now env + ms) ?p as"])
        (simp add: core_ok_def same_view_def)
  qed
qed

lemma cancel_keeps:
  assumes "core_ok s as" "core_cancel pid i s = Ret (r, s')"
  shows "\<exists>bs. core_ok s' bs \<and> (\<forall>q. q \<noteq> pid \<longrightarrow> same_view q s as s' bs)"
proof -
  have are: "timers_are (cs_sched s) as" using assms(1) by (simp add: core_ok_def)
  obtain u g where u: "scheduler_cancel pid i (cs_sched s, cs_gw s) = Ret (r, u, g)" "s' = s\<lparr>cs_sched := u, cs_gw := g\<rparr>"
    using assms(2) by (auto simp: core_cancel_def)
  consider "u = cs_sched s"
    | a where "timers_are u (remove1 a as)" "contents (timer_heap u) = (contents (timer_heap (cs_sched s)))(a := None)"
        "is_timer pid i (timer_heap (cs_sched s)) a"
  proof (cases "0 < sint i")
    case False
    then show ?thesis using that(1) u(1) by (auto simp: scheduler_cancel_def)
  next
    case True
    show ?thesis
    proof (cases "find (is_timer pid i (timer_heap (cs_sched s))) as")
      case None
      with scheduler_cancel_exact [OF are True, of pid "cs_gw s"] u(1) that(1) show ?thesis by auto
    next
      case (Some a)
      with find_Some_mem have "is_timer pid i (timer_heap (cs_sched s)) a" by fastforce
      with Some scheduler_cancel_exact [OF are True, of pid "cs_gw s"] u(1) that(2) show ?thesis by auto
    qed
  qed
  then show ?thesis
  proof cases
    case 1
    with assms(1) u(2) show ?thesis by (auto simp: core_ok_def same_view_def)
  next
    case (2 a)
    have "\<not> timer_of q (timer_heap (cs_sched s)) a" if "q \<noteq> pid" for q
      using 2(3) that by (auto simp: timer_of_def is_timer_def split: option.splits)
    moreover have "distinct as" using are by (simp add: timers_are_def)
    ultimately have "timers_of q u (remove1 a as) = timers_of q (cs_sched s) as" if "q \<noteq> pid" for q
      using that timers_of_remove [OF 2(2)] by blast
    with 2(1) assms(1) u(2) show ?thesis
      by (intro exI [of _ "remove1 a as"]) (simp add: core_ok_def same_view_def)
  qed
qed

lemma hk_get_keeps:
  assumes "core_ok s as" "core_hk_get env pid t f v s = Ret (r, s')"
  shows "core_ok s' as \<and> (\<forall>q. q \<noteq> pid \<longrightarrow> same_view q s as s' as)"
  using assms by (auto simp: core_hk_get_def core_ok_def same_view_def split: option.splits if_splits)

lemma set_fields_length:
  "set_fields fl strs pid tn fn v fs (mem, g) = Ret (r, mem', g') \<Longrightarrow> length mem' = length mem"
proof (induction fs arbitrary: mem)
  case (Cons f fs)
  show ?case
  proof (cases "strcmp (field_name f) fn \<noteq> 0")
    case False
    with Cons.prems obtain mem1 where m: "mem_write mem (field_offset f) (take (field_size f) v) = Ret mem1"
      "mem' = mem1 \<or> set_fields fl strs pid tn fn v fs (mem1, g) = Ret (r, mem', g')"
      by (auto split: if_splits option.splits)
    from mem_write_length [OF m(1)] m(2) Cons.IH show ?thesis by auto
  qed (use Cons in simp)
qed simp

lemma types_of_set_instance:
  assumes "reg_plugin_id (g_type_registry h i) \<noteq> q"
  shows "types_of q (set_instance i mem h) = types_of q h"
proof -
  have "filter (\<lambda>r. reg_plugin_id r = q) (map (g_type_registry (set_instance i mem h)) js)
      = filter (\<lambda>r. reg_plugin_id r = q) (map (g_type_registry h) js)" for js
    using assms by (induction js) (auto simp: set_instance_def)
  then show ?thesis by (simp add: types_of_def)
qed

lemma hk_set_keeps:
  assumes "core_ok s as" "core_hk_set env pid t f v s = Ret (r, s')"
  shows "core_ok s' as \<and> (\<forall>q. q \<noteq> pid \<longrightarrow> same_view q s as s' as)"
proof -
  obtain tn fn h g where h: "hk_set_field (env_floats env) pid (cstr tn) fn (env_bytes env v) (cs_hk s, cs_gw s) = Ret (r, h, g)"
    "s' = s\<lparr>cs_hk := h, cs_gw := g\<rparr>"
    using assms(2) by (auto simp: core_hk_set_def split: option.splits)
  have inv: "hk_inv (cs_hk s)" using assms(1) by (simp add: core_ok_def)
  have "hk_inv h \<and> (\<forall>q. q \<noteq> pid \<longrightarrow> types_of q h = types_of q (cs_hk s))"
  proof -
    from h(1) have "with_registered pid (cstr tn) (cs_hk s)
        (\<lambda>i ti mem. outcome_bind (set_fields (env_floats env) (hk_strings (cs_hk s)) pid (cstr tn) fn (env_bytes env v)
             (type_fields ti) (mem, cs_gw s)) (\<lambda>(r, mem1, g1). Ret (r, set_instance i mem1 (cs_hk s), g1)))
        (-1, cs_hk s, cs_gw s) = Ret (r, h, g)" by (simp add: hk_set_field_def)
    from with_registered_Ret [OF this] consider "h = cs_hk s"
      | i ti mem mem1 where "find_registered pid (cstr tn) (cs_hk s) = Ret (Some i)"
          "d_instance (g_type_registry (cs_hk s) i) = Some mem" "h = set_instance i mem1 (cs_hk s)"
          "set_fields (env_floats env) (hk_strings (cs_hk s)) pid (cstr tn) fn (env_bytes env v)
             (type_fields ti) (mem, cs_gw s) = Ret (r, mem1, g)"
          "reg_type_info (g_type_registry (cs_hk s) i) = Some ti" by auto
    then show ?thesis
    proof cases
      case (2 i ti mem mem1)
      have "hk_inv h" unfolding 2(3) using inv 2(2) set_fields_length [OF 2(4)] by (rule hk_inv_set_instance)
      moreover
      have "reg_plugin_id (g_type_registry (cs_hk s) i) = pid"
        using find_registered_Some [OF inv _ 2(1)] by (metis cstr_no_nul)
      then have "types_of q (set_instance i mem1 (cs_hk s)) = types_of q (cs_hk s)" if "q \<noteq> pid" for q
        using that by (intro types_of_set_instance) simp
      ultimately show ?thesis unfolding 2(3) by blast
    qed (simp add: inv)
  qed
  with assms(1) h(2) show ?thesis by (simp add: core_ok_def same_view_def)
qed

text \<open>The shapes of the argument lists.\<close>

lemma api_args:
  assumes "map type_of args = map lower (api_params k)"
  shows "case k of
      Stub_subscribe \<Rightarrow> \<exists>a b c. args = [VPtr a, VPtr b, VPtr c]
    | Stub_every \<Rightarrow> \<exists>a b c. args = [V64 a, VPtr b, VPtr c]
    | Stub_after \<Rightarrow> \<exists>a b c. args = [V64 a, VPtr b, VPtr c]
    | Stub_cancel \<Rightarrow> \<exists>a. args = [V32 a]
    | Stub_getter \<Rightarrow> \<exists>a b c. args = [VPtr a, VPtr b, VPtr c]
    | Stub_setter \<Rightarrow> \<exists>a b c. args = [VPtr a, VPtr b, VPtr c]"
proof -
  have ptr: "type_of x = Ptr \<longleftrightarrow> (\<exists>a. x = VPtr a)" "type_of x = I64 \<longleftrightarrow> (\<exists>a. x = V64 a)"
    "type_of x = I32 \<longleftrightarrow> (\<exists>a. x = V32 a)" for x by (cases x; simp)+
  from assms show ?thesis by (cases k) (auto simp: map_eq_Cons_conv ptr)
qed

lemma core_fn_keeps:
  assumes "core_ok s as" "malloc_fresh env" "core_fn env k (V32 pid # args) s = Ret (r, s')"
    and "map type_of args = map lower (api_params k)"
  shows "\<exists>bs. core_ok s' bs \<and> (\<forall>q. q \<noteq> pid \<longrightarrow> same_view q s as s' bs)"
proof (cases k)
  case Stub_subscribe
  with assms api_args [OF assms(4)] subscribe_keeps [OF assms(1)] show ?thesis by (auto simp: core_fn_def) blast
next
  case Stub_every
  with assms api_args [OF assms(4)] add_timer_keeps [OF assms(1,2)] show ?thesis by (auto simp: core_fn_def)
next
  case Stub_after
  with assms api_args [OF assms(4)] add_timer_keeps [OF assms(1,2)] show ?thesis by (auto simp: core_fn_def)
next
  case Stub_cancel
  with assms api_args [OF assms(4)] cancel_keeps [OF assms(1)] show ?thesis by (auto simp: core_fn_def)
next
  case Stub_getter
  with assms api_args [OF assms(4)] hk_get_keeps [OF assms(1)] show ?thesis by (auto simp: core_fn_def) blast
next
  case Stub_setter
  with assms api_args [OF assms(4)] hk_set_keeps [OF assms(1)] show ?thesis by (auto simp: core_fn_def) blast
qed

section \<open>Sequences of calls\<close>

record stub_call =
  pc_plugin :: plugin_id
  pc_kind :: stub_kind
  pc_env :: call_env
  pc_args :: "ir_val list"

text \<open>
  The plugins call one after the other; \<open>None\<close> is a call that does not come back. \<open>fn_of\<close> is where
  the functions of the core are.
\<close>

definition run_call :: "(stub_kind \<Rightarrow> u64) \<Rightarrow> (u64 \<rightharpoonup> stub_kind) \<Rightarrow> jit_env \<Rightarrow> stub_call \<Rightarrow> core_state
    \<Rightarrow> (ir_val \<times> core_state) outcome option" where
  "run_call fn_of syms jit c s =
     api_call syms jit (pc_plugin c) (pc_kind c) (fn_of (pc_kind c)) (pc_env c) (pc_args c) s"

fun run_calls :: "(stub_kind \<Rightarrow> u64) \<Rightarrow> (u64 \<rightharpoonup> stub_kind) \<Rightarrow> jit_env \<Rightarrow> stub_call list \<Rightarrow> core_state
    \<Rightarrow> core_state option" where
  "run_calls fn_of syms jit [] s = Some s"
| "run_calls fn_of syms jit (c # cs) s =
     (case run_call fn_of syms jit c s of
        Some (Ret (r, s1)) \<Rightarrow> run_calls fn_of syms jit cs s1
      | _ \<Rightarrow> None)"

definition call_ok :: "stub_call \<Rightarrow> bool" where
  "call_ok c \<longleftrightarrow> map type_of (pc_args c) = map lower (api_params (pc_kind c)) \<and> malloc_fresh (pc_env c)"

definition linked :: "(stub_kind \<Rightarrow> u64) \<Rightarrow> (u64 \<rightharpoonup> stub_kind) \<Rightarrow> jit_env \<Rightarrow> bool" where
  "linked fn_of syms jit \<longleftrightarrow> jit_created jit \<and> jit_added jit \<and> (\<forall>k. syms (fn_of k) = Some k)"

lemma run_call_core:
  assumes "linked fn_of syms jit" "call_ok c"
  shows "run_call fn_of syms jit c s =
    Some (outcome_bind (core_fn (pc_env c) (pc_kind c) (V32 (pc_plugin c) # pc_args c) s) (\<lambda>(r, s1). Ret (V32 r, s1)))"
  using assms api_call_core [of jit syms "fn_of (pc_kind c)" "pc_kind c" "pc_args c"]
  by (simp add: run_call_def linked_def call_ok_def)

lemma run_calls_keep:
  assumes "linked fn_of syms jit" "run_calls fn_of syms jit cs s = Some s'" "core_ok s as"
    and "\<forall>c\<in>set cs. call_ok c"
  shows "\<exists>bs. core_ok s' bs \<and> (\<forall>q. (\<forall>c\<in>set cs. pc_plugin c \<noteq> q) \<longrightarrow> same_view q s as s' bs)"
  using assms(2-4)
proof (induction cs arbitrary: s as)
  case Nil
  then show ?case by (auto simp: same_view_def)
next
  case (Cons c cs)
  have c: "call_ok c" using Cons.prems(3) by simp
  obtain r s1 where r: "run_call fn_of syms jit c s = Some (Ret (r, s1))" "run_calls fn_of syms jit cs s1 = Some s'"
    using Cons.prems(1) by (auto split: option.splits outcome.splits)
  then obtain r' where "core_fn (pc_env c) (pc_kind c) (V32 (pc_plugin c) # pc_args c) s = Ret (r', s1)"
    using run_call_core [OF assms(1) c, of s] by auto
  with core_fn_keeps [OF Cons.prems(2)] c obtain bs where bs: "core_ok s1 bs"
    "\<forall>q. q \<noteq> pc_plugin c \<longrightarrow> same_view q s as s1 bs" unfolding call_ok_def by blast
  from Cons.IH [OF r(2) bs(1)] Cons.prems(3) obtain bs' where "core_ok s' bs'"
    "\<forall>q. (\<forall>c\<in>set cs. pc_plugin c \<noteq> q) \<longrightarrow> same_view q s1 bs s' bs'" by auto
  with bs(2) show ?case by (intro exI [of _ bs']) (auto intro: same_view_trans [of _ s as s1 bs s' bs'])
qed

section \<open>What a plugin sees\<close>

text \<open>The answer of the getter from the plugin's own types.\<close>

definition hk_get_view :: "registered_type list \<Rightarrow> string \<Rightarrow> string \<Rightarrow> (c_int \<times> byte list) outcome" where
  "hk_get_view rs tname fname =
     (case find (\<lambda>r. map_option type_name (reg_type_info r) = Some tname) rs of
        None \<Rightarrow> Ret (-1, [])
      | Some r \<Rightarrow>
          (case (reg_type_info r, d_instance r) of
            (Some ti, Some mem) \<Rightarrow>
              (case find_field fname (type_fields ti) of
                None \<Rightarrow> Ret (-2, [])
              | Some f \<Rightarrow> outcome_bind (mem_read mem (field_offset f) (field_size f)) (\<lambda>bs. Ret (0, bs)))
          | _ \<Rightarrow> Fault NullDeref))"

lemma find_map: "find P (map f xs) = map_option f (find (P \<circ> f) xs)"
  by (induction xs) auto

lemma find_filter: "find P (filter Q xs) = find (\<lambda>x. Q x \<and> P x) xs"
  by (induction xs) auto

lemma hk_get_field_view:
  assumes "hk_inv h" "NUL \<notin> set tname"
  shows "hk_get_field pid tname fname h = hk_get_view (types_of pid h) tname fname"
proof -
  have "find (\<lambda>r. map_option type_name (reg_type_info r) = Some tname) (types_of pid h)
      = map_option (g_type_registry h) (find (\<lambda>i. entry_is pid tname (g_type_registry h i)) [0..<g_type_count h])"
    by (simp add: types_of_def find_filter find_map comp_def entry_is_def)
  then show ?thesis
    using find_registered_inv [OF assms, of pid]
    by (auto simp: hk_get_field_def with_registered_def hk_get_view_def split: option.split)
qed

text \<open>So is the answer to a cancellation.\<close>

lemma cancel_view:
  assumes "timers_are u as"
  shows "\<exists>u' g'. scheduler_cancel q i (u, g)
    = Ret (if 0 < sint i \<and> i \<in> timer_id ` set (timers_of q u as) then 0 else -1, u', g')"
proof (cases "0 < sint i")
  case True
  have ids: "i \<in> timer_id ` set (timers_of q u as) \<longleftrightarrow> (\<exists>a\<in>set as. is_timer q i (timer_heap u) a)"
    by (auto simp: timers_of_def timer_of_def is_timer_def contents_def image_iff split: option.splits)
  show ?thesis
  proof (cases "find (is_timer q i (timer_heap u)) as")
    case None
    then have "\<not> (\<exists>a\<in>set as. is_timer q i (timer_heap u) a)" by (auto simp: find_None_iff)
    with ids scheduler_cancel_exact [OF assms True, of q g] None show ?thesis by auto
  next
    case (Some a)
    then have "\<exists>a\<in>set as. is_timer q i (timer_heap u) a" using find_Some_mem by fastforce
    with ids scheduler_cancel_exact [OF assms True, of q g] Some True show ?thesis by auto
  qed
qed (simp add: scheduler_cancel_def)

section \<open>Properties\<close>

text \<open>
  C5. Plugins are isolated from each other: whatever sequence of calls the other plugins make through
  their \<open>core_api_t\<close>, with any arguments, the subscriptions, the types with their bytes and the timers
  with their order that belong to a plugin stay as they were; reading a field gives this plugin the same
  bytes as before, and cancelling a timer the same answer. The core stays well formed.
\<close>

theorem plugins_isolated:
  assumes "linked fn_of syms jit" "run_calls fn_of syms jit cs s = Some s'" "core_ok s as"
    and "\<forall>c\<in>set cs. call_ok c \<and> pc_plugin c \<noteq> q"
  shows "\<exists>bs. core_ok s' bs \<and> same_view q s as s' bs
    \<and> (\<forall>tname fname. NUL \<notin> set tname \<longrightarrow>
          hk_get_field q tname fname (cs_hk s') = hk_get_field q tname fname (cs_hk s))
    \<and> (\<forall>i g. \<exists>r u g1 u' g1'. scheduler_cancel q i (cs_sched s, g) = Ret (r, u, g1)
          \<and> scheduler_cancel q i (cs_sched s', g) = Ret (r, u', g1'))"
proof -
  from run_calls_keep [OF assms(1-3)] assms(4) obtain bs where bs: "core_ok s' bs" "same_view q s as s' bs" by auto
  have "hk_get_field q tname fname (cs_hk s') = hk_get_field q tname fname (cs_hk s)" if "NUL \<notin> set tname"
    for tname fname
    using bs assms(3) hk_get_field_view [OF _ that] by (simp add: core_ok_def same_view_def)
  moreover have "\<exists>r u g1 u' g1'. scheduler_cancel q i (cs_sched s, g) = Ret (r, u, g1)
      \<and> scheduler_cancel q i (cs_sched s', g) = Ret (r, u', g1')" for i g
    using bs assms(3) cancel_view [of "cs_sched s" as q i g] cancel_view [of "cs_sched s'" bs q i g]
    unfolding core_ok_def same_view_def by metis
  ultimately show ?thesis using bs by blast
qed


section \<open>Two plugins\<close>

definition sample_call_env :: call_env where
  "sample_call_env =
     \<lparr> env_malloc_ok = True, env_strdup = Some [], env_new_timer = (\<lambda>h. if h 9 = None then 9 else NULL),
       env_now = 5, env_floats = no_floats,
       env_string = (\<lambda>p. if p = 16 then Some (''tick'' @ [NUL]) else if p = 32 then Some (''cfg'' @ [NUL])
                          else if p = 48 then Some (''n'' @ [NUL]) else None),
       env_bytes = (\<lambda>_. [1, 2, 3, 4]) \<rparr>"

fun sample_fn_of :: "stub_kind \<Rightarrow> u64" where
  "sample_fn_of Stub_subscribe = 1"
| "sample_fn_of Stub_every = 2"
| "sample_fn_of Stub_after = 3"
| "sample_fn_of Stub_cancel = 4"
| "sample_fn_of Stub_getter = 5"
| "sample_fn_of Stub_setter = 6"

definition sample_syms :: "u64 \<rightharpoonup> stub_kind" where
  "sample_syms = [1 \<mapsto> Stub_subscribe, 2 \<mapsto> Stub_every, 3 \<mapsto> Stub_after, 4 \<mapsto> Stub_cancel,
     5 \<mapsto> Stub_getter, 6 \<mapsto> Stub_setter]"

definition sample_core :: core_state where
  "sample_core =
     \<lparr> cs_bus = bus_initial (\<lambda>_. undefined), cs_sched = sample_scheduler, cs_hk = sample_hk, cs_gw = gw_initial,
       cs_written = [] \<rparr>"

lemma sample_linked: "linked sample_fn_of sample_syms sample_jit"
proof -
  have "sample_syms (sample_fn_of k) = Some k" for k by (cases k) (simp_all add: sample_syms_def)
  then show ?thesis by (simp add: linked_def sample_jit_def)
qed

lemma sample_core_ok: "core_ok sample_core [1, 2]"
  using sample_timers by (simp add: core_ok_def sample_core_def bus_inv_initial sample_hk_facts(1))

text \<open>Plugin 8 tries to cancel the timers of plugin 7 and to read and write its field.\<close>

definition sample_calls :: "stub_call list" where
  "sample_calls =
     [\<lparr> pc_plugin = 8, pc_kind = Stub_cancel, pc_env = sample_call_env, pc_args = [V32 1] \<rparr>,
      \<lparr> pc_plugin = 8, pc_kind = Stub_setter, pc_env = sample_call_env, pc_args = [VPtr 32, VPtr 48, VPtr 64] \<rparr>]"

theorem plugins_isolated_witness:
  "\<exists>s' bs. run_calls sample_fn_of sample_syms sample_jit sample_calls sample_core = Some s'
    \<and> core_ok s' bs \<and> same_view 7 sample_core [1, 2] s' bs"
proof -
  have ok: "\<forall>c\<in>set sample_calls. call_ok c \<and> pc_plugin c \<noteq> 7"
    by (simp add: sample_calls_def call_ok_def malloc_fresh_def sample_call_env_def)
  have calls: "call_ok c" if "c \<in> set sample_calls" for c using ok that by blast
  obtain u g where c: "scheduler_cancel 8 1 (sample_scheduler, gw_initial) = Ret (-1, u, g)"
    using cancel_view [OF sample_timers, of 8 1 gw_initial]
    by (auto simp: timers_of_def timer_of_def sample_scheduler_def sample_timer_def)
  let ?s1 = "sample_core\<lparr>cs_sched := u, cs_gw := g\<rparr>"
  have r1: "run_call sample_fn_of sample_syms sample_jit (hd sample_calls) sample_core = Some (Ret (V32 (-1), ?s1))"
    using run_call_core [OF sample_linked calls, of "hd sample_calls" sample_core] c
    by (simp add: sample_calls_def core_fn_def core_cancel_def sample_core_def)
  have "hk_set_field no_floats 8 ''cfg'' ''n'' [1, 2, 3, 4] (sample_hk, g) = Ret (-1, sample_hk, g)"
    by (simp add: hk_set_field_def with_registered_def find_registered_def sample_hk_def hk_initial_def)
  then have "run_call sample_fn_of sample_syms sample_jit (sample_calls ! 1) ?s1 = Some (Ret (V32 (-1), ?s1))"
    using run_call_core [OF sample_linked calls, of "sample_calls ! 1" ?s1]
    by (simp add: sample_calls_def core_fn_def core_hk_set_def sample_core_def sample_call_env_def)
  with r1 have run: "run_calls sample_fn_of sample_syms sample_jit sample_calls sample_core = Some ?s1"
    by (simp add: sample_calls_def)
  from plugins_isolated [OF sample_linked run sample_core_ok ok] run show ?thesis by blast
qed


end
