(* ===== verification/Headers.thy ===== *)
theory Headers
  imports Heapkit JitStub CrashLog
begin

text \<open>
  The headers that plugins, the core and the generated stubs have in common: include/core_utils.h,
  include/core_api.h, include/plugin_api.h, include/platform.h, and the header a plugin is compiled with,
  public_headers/plugin/include/CoreCDTL/plugin_api.h.

  A structure is its list of members with their types; \<open>layout\<close> is where a compiler for the x86-64 and
  AArch64 ABIs puts them. The two declarations of \<open>core_api_t\<close> are compiled separately, and the types of the
  generated code are written down a third time, so that they agree is something to prove.
\<close>

section \<open>C types\<close>

text \<open>\<open>Ty_block\<close> is a structure inside another, of which only the size and the alignment matter.\<close>

datatype c_ty =
    Ty_void
  | Ty_char
  | Ty_u8
  | Ty_u32
  | Ty_u64
  | Ty_int
  | Ty_size
  | Ty_const c_ty
  | Ty_ptr c_ty
  | Ty_fn c_ty "c_ty list"
  | Ty_array nat c_ty
  | Ty_block nat nat
  | Ty_opaque string

abbreviation Ty_string :: c_ty where "Ty_string \<equiv> Ty_ptr (Ty_const Ty_char)"
abbreviation Ty_voidp :: c_ty where "Ty_voidp \<equiv> Ty_ptr Ty_void"

fun ty_size :: "c_ty \<Rightarrow> nat" where
  "ty_size Ty_void = 1"
| "ty_size Ty_char = 1"
| "ty_size Ty_u8 = 1"
| "ty_size Ty_u32 = 4"
| "ty_size Ty_u64 = 8"
| "ty_size Ty_int = 4"
| "ty_size Ty_size = 8"
| "ty_size (Ty_const t) = ty_size t"
| "ty_size (Ty_ptr t) = 8"
| "ty_size (Ty_fn r ps) = 8"
| "ty_size (Ty_opaque n) = 1"
| "ty_size (Ty_array n t) = n * ty_size t"
| "ty_size (Ty_block s a) = s"

fun ty_align :: "c_ty \<Rightarrow> nat" where
  "ty_align (Ty_const t) = ty_align t"
| "ty_align (Ty_array n t) = ty_align t"
| "ty_align (Ty_block s a) = a"
| "ty_align t = ty_size t"

section \<open>Layout\<close>

type_synonym c_member = "string \<times> c_ty"

text \<open>\<open>__attribute__((packed))\<close> and \<open>aligned(n)\<close>.\<close>

record c_struct =
  st_packed :: bool
  st_aligned :: nat
  st_members :: "c_member list"

definition round_up :: "nat \<Rightarrow> nat \<Rightarrow> nat" where
  "round_up n a = (if a = 0 \<or> n mod a = 0 then n else (n div a + 1) * a)"

fun place :: "bool \<Rightarrow> nat \<Rightarrow> c_member list \<Rightarrow> (c_member \<times> nat) list" where
  "place packed off [] = []"
| "place packed off (mb # ms) =
     (let o1 = (if packed then off else round_up off (ty_align (snd mb)))
      in (mb, o1) # place packed (o1 + ty_size (snd mb)) ms)"

fun place_end :: "nat \<Rightarrow> (c_member \<times> nat) list \<Rightarrow> nat" where
  "place_end off [] = off"
| "place_end off ((mb, o1) # ms) = place_end (o1 + ty_size (snd mb)) ms"

definition layout :: "c_struct \<Rightarrow> (c_member \<times> nat) list" where
  "layout st = place (st_packed st) 0 (st_members st)"

definition struct_align :: "c_struct \<Rightarrow> nat" where
  "struct_align st =
     fold max (if st_packed st then [] else map (ty_align \<circ> snd) (st_members st)) (max 1 (st_aligned st))"

definition struct_size :: "c_struct \<Rightarrow> nat" where
  "struct_size st = round_up (place_end 0 (layout st)) (struct_align st)"

definition struct_ty :: "c_struct \<Rightarrow> c_ty" where
  "struct_ty st = Ty_block (struct_size st) (struct_align st)"

lemma round_up_ge: "n \<le> round_up n a"
proof (cases "a = 0 \<or> n mod a = 0")
  case False
  then have "n \<le> n div a * a + a"
    using mod_less_divisor [of a n] div_mult_mod_eq [of n a] by linarith
  then show ?thesis using False by (simp add: round_up_def)
qed (auto simp: round_up_def)

lemma round_up_dvd: "0 < a \<Longrightarrow> a dvd round_up n a"
  by (simp add: round_up_def mod_0_imp_dvd)

lemma place_end_ge:
  "off \<le> place_end off (place pk off ms)"
  "(mb, o1) \<in> set (place pk off ms) \<Longrightarrow> off \<le> o1 \<and> o1 + ty_size (snd mb) \<le> place_end off (place pk off ms)"
proof (induction pk off ms rule: place.induct)
  case (2 packed off m ms)
  let ?o = "if packed then off else round_up off (ty_align (snd m))"
  have o: "off \<le> ?o" by (simp add: round_up_ge)
  {
    case 1
    show ?case using "2.IH"(1) [OF refl] o by (simp add: Let_def)
  next
    case 2
    show ?case using 2 "2.IH" [OF refl] o by (auto simp: Let_def)
  }
qed simp_all

text \<open>Members lie inside the structure, one behind the other, aligned unless it is packed.\<close>

lemma layout_sound:
  shows "sorted_wrt (\<lambda>(m, o1) (m', o2). o1 + ty_size (snd m) \<le> o2) (layout st)"
    and "(mb, o1) \<in> set (layout st) \<Longrightarrow> o1 + ty_size (snd mb) \<le> struct_size st"
    and "(mb, o1) \<in> set (layout st) \<Longrightarrow> \<not> st_packed st \<Longrightarrow> 0 < ty_align (snd mb) \<Longrightarrow> ty_align (snd mb) dvd o1"
proof -
  have "sorted_wrt (\<lambda>(m, o1) (m', o2). o1 + ty_size (snd m) \<le> o2) (place pk off ms)" for pk off ms
  proof (induction pk off ms rule: place.induct)
    case (2 packed off m ms)
    let ?o = "if packed then off else round_up off (ty_align (snd m))"
    have "?o + ty_size (snd m) \<le> o2" if "(m', o2) \<in> set (place packed (?o + ty_size (snd m)) ms)" for m' o2
      using place_end_ge(2) [OF that] by simp
    with "2.IH" [OF refl] show ?case by (auto simp: Let_def)
  qed simp
  then show "sorted_wrt (\<lambda>(m, o1) (m', o2). o1 + ty_size (snd m) \<le> o2) (layout st)" by (simp add: layout_def)
  show "o1 + ty_size (snd mb) \<le> struct_size st" if "(mb, o1) \<in> set (layout st)"
    using place_end_ge(2) [OF that [unfolded layout_def]] round_up_ge [of "place_end 0 (layout st)" "struct_align st"]
    by (simp add: struct_size_def layout_def)
  have "ty_align (snd mb) dvd o1" if "(mb, o1) \<in> set (place False off ms)" "0 < ty_align (snd mb)" for off ms
    using that by (induction ms arbitrary: off) (auto simp: Let_def round_up_dvd)
  then show "ty_align (snd mb) dvd o1" if "(mb, o1) \<in> set (layout st)" "\<not> st_packed st" "0 < ty_align (snd mb)"
    using that by (simp add: layout_def)
qed

section \<open>The structures\<close>

definition plain_struct :: "c_member list \<Rightarrow> c_struct" where
  "plain_struct ms = \<lparr> st_packed = False, st_aligned = 1, st_members = ms \<rparr>"

definition packed_struct :: "c_member list \<Rightarrow> c_struct" where
  "packed_struct ms = \<lparr> st_packed = True, st_aligned = 1, st_members = ms \<rparr>"

definition plugin_info_t :: c_struct where
  "plugin_info_t =
     plain_struct [(''id'', Ty_u32), (''name'', Ty_string), (''version'', Ty_string), (''code'', Ty_int)]"

definition plugin_param_t :: c_struct where
  "plugin_param_t = plain_struct [(''key'', Ty_string), (''value'', Ty_string)]"

definition public_plugin_param_t :: c_struct where
  "public_plugin_param_t = plain_struct [(''key'', Ty_string), (''value'', Ty_string)]"

text \<open>\<open>core_event_cb\<close>, \<open>bus_cb_t\<close> and \<open>sched_cb_t\<close>.\<close>

definition core_event_cb :: c_ty where
  "core_event_cb = Ty_fn Ty_void [Ty_ptr (Ty_const Ty_void), Ty_size, Ty_voidp]"

definition bus_cb_t :: c_ty where
  "bus_cb_t = Ty_fn Ty_void [Ty_ptr (Ty_const Ty_void), Ty_size, Ty_voidp]"

definition sched_cb_t :: c_ty where
  "sched_cb_t = Ty_fn Ty_void [Ty_ptr (Ty_const Ty_void), Ty_size, Ty_voidp]"

text \<open>\<open>core_api_t\<close> as the core has it, and as a plugin has it.\<close>

definition core_api_t :: c_struct where
  "core_api_t =
     plain_struct
      [(''abi_version'', Ty_size),
       (''hk_getter'', Ty_fn Ty_int [Ty_string, Ty_string, Ty_voidp]),
       (''hk_setter'', Ty_fn Ty_int [Ty_string, Ty_string, Ty_voidp]),
       (''subscribe'', Ty_fn Ty_int [Ty_string, core_event_cb, Ty_voidp]),
       (''publish'', Ty_fn Ty_int [Ty_u32, Ty_string, Ty_ptr (Ty_const Ty_void), Ty_size]),
       (''get_plugin_id'', Ty_fn Ty_u32 [Ty_string]),
       (''timer_after_ms'', Ty_fn Ty_int [Ty_u64, core_event_cb, Ty_voidp]),
       (''timer_every_ms'', Ty_fn Ty_int [Ty_u64, core_event_cb, Ty_voidp]),
       (''timer_cancel'', Ty_fn Ty_int [Ty_int])]"

definition public_event_cb :: c_ty where
  "public_event_cb = Ty_fn Ty_void [Ty_ptr (Ty_const Ty_void), Ty_size, Ty_voidp]"

definition public_core_api_t :: c_struct where
  "public_core_api_t =
     plain_struct
      [(''abi_version'', Ty_size),
       (''hk_getter'', Ty_fn Ty_int [Ty_string, Ty_string, Ty_voidp]),
       (''hk_setter'', Ty_fn Ty_int [Ty_string, Ty_string, Ty_voidp]),
       (''subscribe'', Ty_fn Ty_int [Ty_string, public_event_cb, Ty_voidp]),
       (''publish'', Ty_fn Ty_int [Ty_u32, Ty_string, Ty_ptr (Ty_const Ty_void), Ty_size]),
       (''get_plugin_id'', Ty_fn Ty_u32 [Ty_string]),
       (''timer_after_ms'', Ty_fn Ty_int [Ty_u64, public_event_cb, Ty_voidp]),
       (''timer_every_ms'', Ty_fn Ty_int [Ty_u64, public_event_cb, Ty_voidp]),
       (''timer_cancel'', Ty_fn Ty_int [Ty_int])]"

definition plugin_hot_meta_t :: c_struct where
  "plugin_hot_meta_t =
     packed_struct [(''id'', Ty_u32), (''state'', Ty_u8), (''flags'', Ty_u8), (''padding'', Ty_array 2 Ty_char)]"

definition plugin_funcs_t :: c_struct where
  "plugin_funcs_t =
     packed_struct
      [(''initialize'', Ty_fn Ty_int [Ty_ptr (struct_ty core_api_t), Ty_ptr (struct_ty plugin_param_t), Ty_size]),
       (''start'', Ty_fn Ty_int []), (''stop'', Ty_fn Ty_void []), (''shutdown'', Ty_fn Ty_void [])]"

definition plugin_cold_data_t :: c_struct where
  "plugin_cold_data_t =
     packed_struct
      [(''path'', Ty_ptr Ty_char), (''manifest_path'', Ty_ptr Ty_char), (''data_path'', Ty_ptr Ty_char),
       (''so'', Ty_voidp), (''params'', Ty_ptr (struct_ty plugin_param_t)), (''param_count'', Ty_u8),
       (''padding'', Ty_array 3 Ty_char)]"

definition plugin_handle_t :: c_struct where
  "plugin_handle_t =
     \<lparr> st_packed = False, st_aligned = 64,
       st_members =
        [(''hot_meta'', struct_ty plugin_hot_meta_t), (''funcs'', struct_ty plugin_funcs_t),
         (''info'', struct_ty plugin_info_t), (''cold_data'', struct_ty plugin_cold_data_t),
         (''core_api'', struct_ty core_api_t), (''__padding'', Ty_array 16 Ty_char)] \<rparr>"

definition gateway_entry_t :: c_struct where
  "gateway_entry_t =
     plain_struct
      [(''hk_get_type'', Ty_fn Ty_int [Ty_u32, Ty_string, Ty_ptr Ty_char, Ty_size]),
       (''hk_field_exists'', Ty_fn Ty_int [Ty_u32, Ty_string, Ty_string]),
       (''hk_set_type'', Ty_fn Ty_int [Ty_u32, Ty_string, Ty_string]),
       (''hk_get_list'', Ty_fn Ty_int [Ty_ptr Ty_char, Ty_size]),
       (''pm_get_list'', Ty_fn Ty_int [Ty_ptr Ty_char, Ty_size]),
       (''pm_action_reboot'', Ty_fn Ty_int [Ty_u32, Ty_u8]),
       (''eb_get_list'', Ty_fn Ty_int [Ty_ptr Ty_char, Ty_size]),
       (''sc_get_list'', Ty_fn Ty_int [Ty_ptr Ty_char, Ty_size])]"

section \<open>The functions of the core\<close>

text \<open>
  The prototypes in event_bus.h, scheduler.h, heapkit.h and plugin_manager.h of the functions a plugin
  reaches. A \<open>const\<close> parameter is one of its type.
\<close>

definition bus_prototypes :: "c_member list" where
  "bus_prototypes =
     [(''bus_subscribe'', Ty_fn Ty_int [Ty_u32, Ty_string, bus_cb_t, Ty_voidp]),
      (''bus_publish'', Ty_fn Ty_int [Ty_u32, Ty_string, Ty_ptr (Ty_const Ty_void), Ty_size])]"

definition scheduler_prototypes :: "c_member list" where
  "scheduler_prototypes =
     [(''scheduler_after_ms'', Ty_fn Ty_int [Ty_u32, Ty_u64, sched_cb_t, Ty_voidp]),
      (''scheduler_every_ms'', Ty_fn Ty_int [Ty_u32, Ty_u64, sched_cb_t, Ty_voidp]),
      (''scheduler_cancel'', Ty_fn Ty_int [Ty_u32, Ty_int])]"

definition hk_prototypes :: "c_member list" where
  "hk_prototypes =
     [(''hk_set_field'', Ty_fn Ty_int [Ty_u32, Ty_string, Ty_string, Ty_voidp]),
      (''hk_get_field'', Ty_fn Ty_int [Ty_u32, Ty_string, Ty_string, Ty_voidp])]"

definition pm_prototypes :: "c_member list" where
  "pm_prototypes = [(''plugin_get_p_id'', Ty_fn Ty_u32 [Ty_string])]"

definition core_prototypes :: "c_member list" where
  "core_prototypes = bus_prototypes @ scheduler_prototypes @ hk_prototypes @ pm_prototypes"

text \<open>
  The same functions as the generator's header and llvm_jit.h declare them once more, as the types
  \<open>bus_subscribe_t\<close>, \<open>scheduler_every_ms_t\<close> and so on of the pointer a stub is made for.
\<close>

definition generator_cb :: c_ty where
  "generator_cb = Ty_fn Ty_void [Ty_ptr (Ty_const Ty_void), Ty_size, Ty_voidp]"

fun generator_fn :: "stub_kind \<Rightarrow> c_ty" where
  "generator_fn Stub_subscribe = Ty_fn Ty_int [Ty_u32, Ty_string, generator_cb, Ty_voidp]"
| "generator_fn Stub_after = Ty_fn Ty_int [Ty_u32, Ty_u64, generator_cb, Ty_voidp]"
| "generator_fn Stub_every = Ty_fn Ty_int [Ty_u32, Ty_u64, generator_cb, Ty_voidp]"
| "generator_fn Stub_cancel = Ty_fn Ty_int [Ty_u32, Ty_int]"
| "generator_fn Stub_getter = Ty_fn Ty_int [Ty_u32, Ty_string, Ty_string, Ty_voidp]"
| "generator_fn Stub_setter = Ty_fn Ty_int [Ty_u32, Ty_string, Ty_string, Ty_voidp]"

definition llvm_jit_cb :: c_ty where
  "llvm_jit_cb = Ty_fn Ty_void [Ty_ptr (Ty_const Ty_void), Ty_size, Ty_voidp]"

fun llvm_jit_fn :: "stub_kind \<Rightarrow> c_ty" where
  "llvm_jit_fn Stub_subscribe = Ty_fn Ty_int [Ty_u32, Ty_string, llvm_jit_cb, Ty_voidp]"
| "llvm_jit_fn Stub_after = Ty_fn Ty_int [Ty_u32, Ty_u64, llvm_jit_cb, Ty_voidp]"
| "llvm_jit_fn Stub_every = Ty_fn Ty_int [Ty_u32, Ty_u64, llvm_jit_cb, Ty_voidp]"
| "llvm_jit_fn Stub_cancel = Ty_fn Ty_int [Ty_u32, Ty_int]"
| "llvm_jit_fn Stub_getter = Ty_fn Ty_int [Ty_u32, Ty_string, Ty_string, Ty_voidp]"
| "llvm_jit_fn Stub_setter = Ty_fn Ty_int [Ty_u32, Ty_string, Ty_string, Ty_voidp]"

text \<open>The functions of the generated library, as its header and as \<open>LLVMJITSymbols\<close> have them.\<close>

abbreviation Ty_stub :: c_ty where "Ty_stub \<equiv> Ty_ptr (Ty_opaque ''JITStub'')"

definition generator_prototypes :: "c_member list" where
  "generator_prototypes =
     [(''create_api_subscribe_stub'', Ty_fn Ty_stub [Ty_u32, generator_fn Stub_subscribe]),
      (''create_api_scheduler_after_stub'', Ty_fn Ty_stub [Ty_u32, generator_fn Stub_after]),
      (''create_api_scheduler_every_ms_stub'', Ty_fn Ty_stub [Ty_u32, generator_fn Stub_every]),
      (''create_api_scheduler_cancel_stub'', Ty_fn Ty_stub [Ty_u32, generator_fn Stub_cancel]),
      (''create_api_hk_getter_stub'', Ty_fn Ty_stub [Ty_u32, generator_fn Stub_getter]),
      (''create_api_hk_setter_stub'', Ty_fn Ty_stub [Ty_u32, generator_fn Stub_setter]),
      (''get_stub_function'', Ty_fn Ty_voidp [Ty_stub]),
      (''destroy_stub_function'', Ty_fn Ty_void [Ty_stub])]"

definition LLVMJITSymbols :: c_struct where
  "LLVMJITSymbols =
     plain_struct
      [(''create_api_subscribe_stub'', Ty_fn Ty_stub [Ty_u32, llvm_jit_fn Stub_subscribe]),
       (''create_api_scheduler_after_stub'', Ty_fn Ty_stub [Ty_u32, llvm_jit_fn Stub_after]),
       (''create_api_scheduler_every_ms_stub'', Ty_fn Ty_stub [Ty_u32, llvm_jit_fn Stub_every]),
       (''create_api_scheduler_cancel_stub'', Ty_fn Ty_stub [Ty_u32, llvm_jit_fn Stub_cancel]),
       (''create_api_hk_getter_stub'', Ty_fn Ty_stub [Ty_u32, llvm_jit_fn Stub_getter]),
       (''create_api_hk_setter_stub'', Ty_fn Ty_stub [Ty_u32, llvm_jit_fn Stub_setter]),
       (''get_stub_function'', Ty_fn Ty_voidp [Ty_stub])]"

text \<open>
  The types \<open>api_bus_subscribe_fn\<close>, \<open>api_scheduler_after_ms_fn\<close> and so on, to which plugin_stub.c casts the
  address of the generated code.
\<close>

fun api_fn :: "stub_kind \<Rightarrow> c_ty" where
  "api_fn Stub_subscribe = Ty_fn Ty_int [Ty_string, bus_cb_t, Ty_voidp]"
| "api_fn Stub_after = Ty_fn Ty_int [Ty_u64, sched_cb_t, Ty_voidp]"
| "api_fn Stub_every = Ty_fn Ty_int [Ty_u64, sched_cb_t, Ty_voidp]"
| "api_fn Stub_cancel = Ty_fn Ty_int [Ty_int]"
| "api_fn Stub_getter = Ty_fn Ty_int [Ty_string, Ty_string, Ty_voidp]"
| "api_fn Stub_setter = Ty_fn Ty_int [Ty_string, Ty_string, Ty_voidp]"

text \<open>The member plugin_stub.c sets for each kind of stub, and the function the stub calls.\<close>

fun stub_member :: "stub_kind \<Rightarrow> string" where
  "stub_member Stub_subscribe = ''subscribe''"
| "stub_member Stub_every = ''timer_every_ms''"
| "stub_member Stub_after = ''timer_after_ms''"
| "stub_member Stub_cancel = ''timer_cancel''"
| "stub_member Stub_getter = ''hk_getter''"
| "stub_member Stub_setter = ''hk_setter''"

fun stub_core_fn :: "stub_kind \<Rightarrow> string" where
  "stub_core_fn Stub_subscribe = ''bus_subscribe''"
| "stub_core_fn Stub_every = ''scheduler_every_ms''"
| "stub_core_fn Stub_after = ''scheduler_after_ms''"
| "stub_core_fn Stub_cancel = ''scheduler_cancel''"
| "stub_core_fn Stub_getter = ''hk_get_field''"
| "stub_core_fn Stub_setter = ''hk_set_field''"

text \<open>How a parameter of a C type is passed, in LLVM's types.\<close>

fun lower_ty :: "c_ty \<Rightarrow> ir_type option" where
  "lower_ty (Ty_const t) = lower_ty t"
| "lower_ty Ty_int = Some I32"
| "lower_ty Ty_u32 = Some I32"
| "lower_ty Ty_u64 = Some I64"
| "lower_ty Ty_size = Some I64"
| "lower_ty (Ty_ptr t) = Some Ptr"
| "lower_ty (Ty_fn r ps) = Some Ptr"
| "lower_ty _ = None"

lemmas core_prototype_defs =
  core_prototypes_def bus_prototypes_def scheduler_prototypes_def hk_prototypes_def pm_prototypes_def

lemmas callback_defs = core_event_cb_def bus_cb_t_def sched_cb_t_def generator_cb_def llvm_jit_cb_def

section \<open>The plugin's side\<close>

text \<open>
  The two variables the public header gives a plugin, the address of its \<open>core_api_t\<close> and whether it has a
  logger, and \<open>CORE_PLUGIN_INIT_API\<close> in \<open>plugin_initialize\<close>, whose argument is \<open>p_core_api\<close>. \<open>found\<close> is
  whether the program exports \<open>get_plugin_log_internal\<close>.
\<close>

record plugin_side =
  ps_core_api :: u64
  ps_plugin_log :: bool

definition plugin_side_initial :: plugin_side where
  "plugin_side_initial = \<lparr> ps_core_api = 0, ps_plugin_log = False \<rparr>"

definition core_plugin_init_api :: "bool \<Rightarrow> u64 \<Rightarrow> plugin_side \<Rightarrow> plugin_side" where
  "core_plugin_init_api found p_core_api ps =
     (if ps_core_api ps = 0 then
        let ps1 = ps\<lparr>ps_core_api := p_core_api\<rparr>
        in if found then ps1\<lparr>ps_plugin_log := True\<rparr> else ps1
      else ps)"

text \<open>\<open>p_log_info\<close> and the other two macros call through \<open>plugin_log\<close>.\<close>

definition plugin_side_log ::
    "log_config \<Rightarrow> bool \<Rightarrow> plugin_log_level \<Rightarrow> string \<Rightarrow> string \<Rightarrow> string \<Rightarrow> plugin_side \<Rightarrow> log_out \<Rightarrow> log_out outcome" where
  "plugin_side_log cfg fopen_ok l name ts msg ps out =
     (if \<not> ps_plugin_log ps then Fault NullDeref else Ret (p_log cfg fopen_ok l name ts msg out))"

section \<open>The parameters of a handle\<close>

text \<open>
  \<open>plugin_free_params\<close> takes the number of the parameters as a \<open>size_t*\<close>, and \<open>FREE_PLUGIN\<close> passes it the
  address of \<open>param_count\<close>, which is one byte. So the function reads and writes eight bytes of the handle
  from there on. \<open>big\<close> is the byte order of the machine; the entries are the array behind \<open>params\<close>, or
  \<open>None\<close> for NULL; the result has the entries whose strings were freed.
\<close>

definition member_offset :: "c_struct \<Rightarrow> string \<Rightarrow> nat" where
  "member_offset st name = the (map_of (map (\<lambda>(mb, off). (fst mb, off)) (layout st)) name)"

definition param_count_offset :: nat where
  "param_count_offset = member_offset plugin_handle_t ''cold_data'' + member_offset plugin_cold_data_t ''param_count''"

definition plugin_free_params ::
    "bool \<Rightarrow> nat \<Rightarrow> (string \<times> string) list option \<Rightarrow> byte list \<Rightarrow> ((string \<times> string) list \<times> byte list) outcome" where
  "plugin_free_params big off entries handle =
     (case entries of
        None \<Rightarrow> Ret ([], handle)
      | Some es \<Rightarrow>
          outcome_bind (mem_read handle off 8) (\<lambda>bs.
            let n = le_val (if big then rev bs else bs)
            in if length es < n then Fault OutOfBounds
               else outcome_bind (mem_write handle off (replicate 8 0)) (\<lambda>h1. Ret (take n es, h1))))"

text \<open>A handle as \<open>calloc\<close> and the loader leave it: the padding behind the count is still zero.\<close>

definition handle_bytes :: "byte list \<Rightarrow> byte \<Rightarrow> byte list \<Rightarrow> byte list" where
  "handle_bytes front c back = front @ [c] @ replicate 7 0 @ back"

lemma param_count_offset_val: "param_count_offset = 112" by code_simp

lemma handle_api_offset: "member_offset plugin_handle_t ''core_api'' = 120" by code_simp

lemma handle_size: "struct_size plugin_handle_t = 256" by code_simp

lemma le_val_zeros [simp]: "le_val (replicate n 0) = 0" by (induction n) simp_all

lemma le_val_zeros_append: "le_val (replicate n 0 @ bs) = 256 ^ n * le_val bs" by (induction n) simp_all

lemma count_bytes:
  assumes "length front = 112"
  shows "take 8 (drop 112 (handle_bytes front c back)) = c # replicate 7 0"
    "take 112 (handle_bytes front c back) = front" "drop 120 (handle_bytes front c back) = back"
  using assms by (simp_all add: handle_bytes_def)

section \<open>Platforms\<close>

datatype compile_target = On_linux | On_unix | On_windows | On_apple | On_other

text \<open>\<open>OS_WINDOWS\<close>, \<open>OS_LINUX\<close> and \<open>OS_DARWIN\<close>; \<open>None\<close> is the \<open>#error\<close>.\<close>

definition os_macros :: "compile_target \<Rightarrow> (nat \<times> nat \<times> nat) option" where
  "os_macros t =
     (case t of
        On_linux \<Rightarrow> Some (0, 1, 0) | On_unix \<Rightarrow> Some (0, 1, 0) | On_windows \<Rightarrow> Some (1, 0, 0)
      | On_apple \<Rightarrow> Some (0, 0, 1) | On_other \<Rightarrow> None)"

definition PLUGIN_LIB_EXTENSION :: "compile_target \<Rightarrow> string option" where
  "PLUGIN_LIB_EXTENSION t =
     (case os_macros t of
        None \<Rightarrow> None
      | Some (win, lin, dar) \<Rightarrow>
          if lin \<noteq> 0 then Some ''.so'' else if win \<noteq> 0 then Some ''.dll''
          else if dar \<noteq> 0 then Some ''.dylib'' else None)"

definition PATH_SEPARATOR :: "compile_target \<Rightarrow> string option" where
  "PATH_SEPARATOR t =
     (case os_macros t of
        None \<Rightarrow> None
      | Some (win, lin, dar) \<Rightarrow>
          if lin \<noteq> 0 then Some ''/'' else if win \<noteq> 0 then Some [CHR 0x5C]
          else if dar \<noteq> 0 then Some ''/'' else None)"

text \<open>
  \<open>#if OS_LINUX || OS_DARWIN\<close>, as src/plugin/plugin_loader.c has it around \<open>dlopen\<close> and, with an
  \<open>#error\<close> in the other branch, around the entry points; and \<open>#ifdef OS_LINUX\<close> around \<open>dlclose\<close> in
  \<open>plugin_unload\<close>. The macro is defined on every platform, so the branch for \<open>__APPLE__\<close> is never taken.
\<close>

definition loader_compiles :: "compile_target \<Rightarrow> bool" where
  "loader_compiles t = (case os_macros t of None \<Rightarrow> False | Some (win, lin, dar) \<Rightarrow> lin \<noteq> 0 \<or> dar \<noteq> 0)"

definition ifdef_os_linux :: "compile_target \<Rightarrow> bool" where
  "ifdef_os_linux t = (os_macros t \<noteq> None)"

lemma unload_closes_everywhere:
  "loader_compiles t \<Longrightarrow> ifdef_os_linux t" "loader_compiles t \<longleftrightarrow> t \<in> {On_linux, On_unix, On_apple}"
  by (cases t; simp add: ifdef_os_linux_def loader_compiles_def os_macros_def)+

section \<open>Properties\<close>

text \<open>
  C21. What a plugin, the generated code and the core take each other's functions to be is the same, though
  it is written down six times. The two declarations of \<open>core_api_t\<close> and of \<open>plugin_param_t\<close> have the same
  members at the same offsets. For each of the six stubs the function of the core has the parameters of
  the member with the plugin's identifier in front; the generator's header and llvm_jit.h declare this
  function alike, the cast of the generated code is to the type of the member, and the types of the code
  itself are those of the two C types. What is loaded from the library of the generator has the types of
  its header, and the two members that are functions of the core themselves have the types of these functions.
\<close>

theorem api_types_agree:
  "layout public_core_api_t = layout core_api_t \<and> struct_size public_core_api_t = struct_size core_api_t
    \<and> layout public_plugin_param_t = layout plugin_param_t
    \<and> (\<forall>k. \<exists>ps. map_of (st_members core_api_t) (stub_member k) = Some (Ty_fn Ty_int ps)
         \<and> map_of core_prototypes (stub_core_fn k) = Some (Ty_fn Ty_int (Ty_u32 # ps))
         \<and> generator_fn k = Ty_fn Ty_int (Ty_u32 # ps) \<and> llvm_jit_fn k = Ty_fn Ty_int (Ty_u32 # ps)
         \<and> api_fn k = Ty_fn Ty_int ps
         \<and> map lower_ty ps = map (Some \<circ> lower) (api_params k)
         \<and> map lower_ty (Ty_u32 # ps) = map (Some \<circ> lower) (core_params k)
         \<and> lower_ty Ty_int = Some (lower C_int))
    \<and> st_members LLVMJITSymbols = butlast generator_prototypes
    \<and> map_of (st_members core_api_t) ''publish'' = map_of core_prototypes ''bus_publish''
    \<and> map_of (st_members core_api_t) ''get_plugin_id'' = map_of core_prototypes ''plugin_get_p_id''"
proof -
  have "st_members public_core_api_t = st_members core_api_t" "st_packed public_core_api_t = st_packed core_api_t"
    "st_aligned public_core_api_t = st_aligned core_api_t"
    by (simp_all add: public_core_api_t_def core_api_t_def plain_struct_def public_event_cb_def core_event_cb_def)
  then have same: "layout public_core_api_t = layout core_api_t" "struct_size public_core_api_t = struct_size core_api_t"
    by (simp_all add: struct_size_def struct_align_def layout_def)
  have params: "layout public_plugin_param_t = layout plugin_param_t"
    by (simp add: public_plugin_param_t_def plugin_param_t_def)
  have "\<exists>ps. map_of (st_members core_api_t) (stub_member k) = Some (Ty_fn Ty_int ps)
      \<and> map_of core_prototypes (stub_core_fn k) = Some (Ty_fn Ty_int (Ty_u32 # ps))
      \<and> generator_fn k = Ty_fn Ty_int (Ty_u32 # ps) \<and> llvm_jit_fn k = Ty_fn Ty_int (Ty_u32 # ps)
      \<and> api_fn k = Ty_fn Ty_int ps
      \<and> map lower_ty ps = map (Some \<circ> lower) (api_params k)
      \<and> map lower_ty (Ty_u32 # ps) = map (Some \<circ> lower) (core_params k)
      \<and> lower_ty Ty_int = Some (lower C_int)" for k
    by (cases k) (simp_all add: core_api_t_def plain_struct_def core_prototype_defs callback_defs)
  moreover have "st_members LLVMJITSymbols = butlast generator_prototypes"
    by (simp add: LLVMJITSymbols_def plain_struct_def generator_prototypes_def callback_defs)
  ultimately show ?thesis
    using same params by (simp add: core_api_t_def plain_struct_def core_prototype_defs)
qed

text \<open>
  The structures have the sizes and the alignment that the static assertions of include/plugin_api.h
  demand, also the handle with its members at 0, 8, 40, 72, 120 and 192; \<open>core_api_t\<close> in it is
  aligned although the two structures in front are packed.
\<close>

theorem plugin_handle_layout:
  "struct_size plugin_info_t = 32 \<and> struct_size plugin_hot_meta_t = 8 \<and> struct_size plugin_funcs_t = 32
    \<and> struct_size plugin_cold_data_t = 44 \<and> struct_size core_api_t = 72 \<and> struct_size gateway_entry_t = 64
    \<and> struct_size plugin_handle_t = 256 \<and> struct_align plugin_handle_t = 64
    \<and> map snd (layout plugin_handle_t) = [0, 8, 40, 72, 120, 192]"
  by code_simp



text \<open>
  A plugin logs after \<open>CORE_PLUGIN_INIT_API\<close> if the program exports \<open>get_plugin_log_internal\<close>, and calls
  a NULL pointer if it does not, or before; a second \<open>CORE_PLUGIN_INIT_API\<close> changes nothing, even if the
  first one found no logger.
\<close>

theorem plugin_init_api_gives_logger:
  assumes "p \<noteq> 0" "ps = core_plugin_init_api found p plugin_side_initial"
  shows "ps_core_api ps = p \<and> core_plugin_init_api found' p' ps = ps
    \<and> plugin_side_log cfg ok l name ts msg ps out
        = (if found then Ret (p_log cfg ok l name ts msg out) else Fault NullDeref)
    \<and> plugin_side_log cfg ok l name ts msg plugin_side_initial out = Fault NullDeref"
  using assms by (auto simp: core_plugin_init_api_def plugin_side_initial_def plugin_side_log_def Let_def)

theorem plugin_init_api_gives_logger_witness:
  "plugin_side_log cfg ok l ''p'' ''t'' ''m'' (core_plugin_init_api True 64 plugin_side_initial) out
    = Ret (p_log cfg ok l ''p'' ''t'' ''m'' out)"
  using plugin_init_api_gives_logger [of 64 _ True, OF _ refl] by simp

end
