(* ===== verification/UtilsId.thy ===== *)
theory UtilsId
  imports CorePrelude
begin

text \<open>
  src/utils/utils_id.h: identifiers of 16 to 128 bits put together from calls of \<open>rand\<close>. What the calls
  return are the arguments \<open>r1\<close>, \<open>r2\<close>, and so on, in the order in which they are written, as the unsigned
  words they are cast to; \<open>RAND_MAX\<close> of the C library decides which of them occur.
\<close>

unbundle bit_operations_syntax

section \<open>Operations\<close>

definition RAND32 :: "32 word \<Rightarrow> 32 word \<Rightarrow> 32 word" where
  "RAND32 r1 r2 = push_bit 17 (r1 AND 0x7FFF) OR (r2 AND 0x1FFFF)"

definition RAND64 :: "u64 \<Rightarrow> u64 \<Rightarrow> u64 \<Rightarrow> u64 \<Rightarrow> u64" where
  "RAND64 r1 r2 r3 r4 =
     push_bit 49 (r1 AND 0x7FFF) OR push_bit 34 (r2 AND 0x7FFF) OR push_bit 19 (r3 AND 0x7FFF) OR (r4 AND 0x7FFFF)"

definition RAND128 :: "u64 \<Rightarrow> u64 \<Rightarrow> 128 word" where
  "RAND128 hi lo = push_bit 64 (ucast hi) OR ucast lo"

definition ID_CREATE_U16 :: "32 word \<Rightarrow> 16 word" where
  "ID_CREATE_U16 r = ucast (r AND 0xFFFF)"

definition ID_CMP :: "'a::len word \<Rightarrow> 'a word \<Rightarrow> bool" where
  "ID_CMP a b \<longleftrightarrow> a = b"

text \<open>\<open>%016llX\<close>, and \<open>ID_PRINT_U128\<close> with its two halves.\<close>

definition hex_digit :: "nat \<Rightarrow> char" where
  "hex_digit d = ''0123456789ABCDEF'' ! d"

fun hex_digits :: "nat \<Rightarrow> nat \<Rightarrow> string" where
  "hex_digits 0 v = []"
| "hex_digits (Suc n) v = hex_digits n (v div 16) @ [hex_digit (v mod 16)]"

definition ID_PRINT_U128 :: "128 word \<Rightarrow> string" where
  "ID_PRINT_U128 i =
     ''0x'' @ hex_digits 16 (unat (ucast (drop_bit 64 i) :: u64)) @ hex_digits 16 (unat (ucast i :: u64)) @ [NL]"

text \<open>What \<open>rand\<close> can return when \<open>RAND_MAX\<close> is \<open>2 ^ k - 1\<close>, and the identifiers that can be made.\<close>

definition rand_value :: "nat \<Rightarrow> 'a::len word \<Rightarrow> bool" where
  "rand_value k r \<longleftrightarrow> unat r < 2 ^ k"

section \<open>Lemmas\<close>

lemma rand_value_iff: "rand_value k r \<longleftrightarrow> (\<forall>n\<ge>k. \<not> bit r n)"
proof -
  have "rand_value k r \<longleftrightarrow> take_bit k r = r"
    using word_unat_eq_iff [of "take_bit k r" r]
    by (simp add: rand_value_def take_bit_nat_eq_self_iff [symmetric] unsigned_take_bit_eq [symmetric] del: take_bit_nat_eq_self_iff)
  also have "\<dots> \<longleftrightarrow> (\<forall>n\<ge>k. \<not> bit r n)"
    by (auto simp: bit_eq_iff bit_simps dest: bit_imp_le_length) (metis not_le)
  finally show ?thesis .
qed

lemma mask_bits: "0x7FFF = (mask 15 :: 'a::len word)" "0x1FFFF = (mask 17 :: 'a::len word)" "0x7FFFF = (mask 19 :: 'a::len word)" "0xFFFF = (mask 16 :: 'a::len word)"
  by (simp_all add: mask_eq_exp_minus_1)

lemma RAND32_bit:
  "bit (RAND32 r1 r2) n \<longleftrightarrow> n < 32 \<and> (if n < 17 then bit r2 n else bit r1 (n - 17))"
  by (auto simp: RAND32_def mask_bits bit_simps)

lemma RAND64_bit:
  "bit (RAND64 r1 r2 r3 r4) n \<longleftrightarrow> n < 64 \<and>
     (if n < 19 then bit r4 n else if n < 34 then bit r3 (n - 19)
      else if n < 49 then bit r2 (n - 34) else bit r1 (n - 49))"
  by (auto simp: RAND64_def mask_bits bit_simps)


text \<open>The words from which an identifier is made, cut out of it.\<close>

lemma RAND32_cut: "RAND32 (drop_bit 17 x) x = x"
  by (rule bit_word_eqI) (auto simp: RAND32_bit bit_simps)

lemma RAND64_cut: "RAND64 (drop_bit 49 x) (drop_bit 34 x) (drop_bit 19 x) x = x"
  by (rule bit_word_eqI) (auto simp: RAND64_bit bit_simps)

text \<open>Fewer bits than asked for leave a gap.\<close>

lemma RAND32_small:
  assumes "15 \<le> k" "\<forall>n. k \<le> n \<and> n < 17 \<longrightarrow> \<not> bit x n"
  shows "RAND32 (take_bit k (drop_bit 17 x)) (take_bit k x) = x"
  using assms by (intro bit_word_eqI) (auto simp: RAND32_bit bit_simps not_le [symmetric])

lemma RAND64_small:
  assumes "15 \<le> k" "\<forall>n. k \<le> n \<and> n < 19 \<longrightarrow> \<not> bit x n"
  shows "RAND64 (take_bit k (drop_bit 49 x)) (take_bit k (drop_bit 34 x)) (take_bit k (drop_bit 19 x)) (take_bit k x) = x"
  using assms by (intro bit_word_eqI) (auto simp: RAND64_bit bit_simps not_le [symmetric])

lemma rand_value_take_bit: "rand_value k (take_bit k r)"
  by (simp add: rand_value_iff bit_simps)

lemma RAND128_halves:
  "(ucast (drop_bit 64 (RAND128 hi lo)) :: u64) = hi" "(ucast (RAND128 hi lo) :: u64) = lo"
  by (rule bit_word_eqI; auto simp: RAND128_def bit_simps dest: bit_imp_le_length)+

text \<open>The digits.\<close>

lemma length_hex_digits [simp]: "length (hex_digits n v) = n"
  by (induction n arbitrary: v) simp_all

lemma hex_digit_inj: "a < 16 \<Longrightarrow> b < 16 \<Longrightarrow> hex_digit a = hex_digit b \<longleftrightarrow> a = b"
proof -
  have "distinct ''0123456789ABCDEF''" by simp
  then show "a < 16 \<Longrightarrow> b < 16 \<Longrightarrow> hex_digit a = hex_digit b \<longleftrightarrow> a = b"
    by (simp add: hex_digit_def nth_eq_iff_index_eq del: nth_Cons_numeral)
qed

lemma digits_eq: "b < 16 \<Longrightarrow> d < 16 \<Longrightarrow> 16 * a + b = 16 * c + d \<longleftrightarrow> a = c \<and> b = (d :: nat)"
  (is "_ \<Longrightarrow> _ \<Longrightarrow> ?t")
proof -
  assume "b < 16" "d < 16"
  then have "(16 * a + b) div 16 = a" "(16 * a + b) mod 16 = b" "(16 * c + d) div 16 = c" "(16 * c + d) mod 16 = d"
    by simp_all
  then show ?t by metis
qed

lemma hex_digits_inj: "hex_digits n v = hex_digits n w \<longleftrightarrow> v mod 16 ^ n = w mod 16 ^ n"
proof (induction n arbitrary: v w)
  case (Suc n)
  have split: "x mod 16 ^ Suc n = 16 * (x div 16 mod 16 ^ n) + x mod 16" for x :: nat
    by (simp add: mod_mult2_eq)
  have "hex_digits (Suc n) v = hex_digits (Suc n) w \<longleftrightarrow>
      v div 16 mod 16 ^ n = w div 16 mod 16 ^ n \<and> v mod 16 = w mod 16"
    by (simp add: Suc.IH hex_digit_inj)
  also have "\<dots> \<longleftrightarrow> v mod 16 ^ Suc n = w mod 16 ^ Suc n"
    unfolding split by (metis digits_eq mod_less_divisor zero_less_numeral)
  finally show ?case .
qed simp

section \<open>Properties\<close>

text \<open>
  C37. Which identifiers can come out, when \<open>rand\<close> returns \<open>k\<close> bits, at least the 15 of the C standard: of the
  32 bit words those that have the bits from \<open>k\<close> to 16 clear, of the 64 bit words those that have the bits
  from \<open>k\<close> to 18 clear. So it is every word with 19 bits or more, as on Linux and macOS, but one in sixteen
  where \<open>RAND_MAX\<close> is 32767.
\<close>

theorem rand_ids_range:
  assumes "15 \<le> k"
  shows "((\<exists>r1 r2. rand_value k r1 \<and> rand_value k r2 \<and> RAND32 r1 r2 = x)
        \<longleftrightarrow> (\<forall>n. k \<le> n \<and> n < 17 \<longrightarrow> \<not> bit x n))
    \<and> ((\<exists>r1 r2 r3 r4. rand_value k r1 \<and> rand_value k r2 \<and> rand_value k r3 \<and> rand_value k r4
          \<and> RAND64 r1 r2 r3 r4 = y)
        \<longleftrightarrow> (\<forall>n. k \<le> n \<and> n < 19 \<longrightarrow> \<not> bit y n))"
proof -
  have v: "rand_value k (take_bit k (r :: 32 word))" "rand_value k (take_bit k (r' :: u64))" for r r'
    by (rule rand_value_take_bit)+
  have "\<not> bit (RAND32 r1 r2) n" if "rand_value k r1" "rand_value k r2" "k \<le> n" "n < 17" for r1 r2 n
    using that by (simp add: RAND32_bit rand_value_iff)
  moreover have "\<not> bit (RAND64 r1 r2 r3 r4) n" if "rand_value k r4" "k \<le> n" "n < 19" for r1 r2 r3 r4 n
    using that by (simp add: RAND64_bit rand_value_iff)
  ultimately show ?thesis
    using RAND32_small [OF assms, of x] RAND64_small [OF assms, of y] v by (intro conjI iffI) metis+
qed

theorem rand_ids_range_witness:
  "(\<exists>r1 r2. rand_value 31 r1 \<and> rand_value 31 r2 \<and> RAND32 r1 r2 = 0xFFFFFFFF)
    \<and> \<not> (\<exists>r1 r2 r3 r4. rand_value 15 r1 \<and> rand_value 15 r2 \<and> rand_value 15 r3 \<and> rand_value 15 r4
          \<and> RAND64 r1 r2 r3 r4 = 0x8000)"
proof -
  have "bit (0x8000 :: u64) 15" by simp
  then have "\<not> (\<forall>n. 15 \<le> n \<and> n < 19 \<longrightarrow> \<not> bit (0x8000 :: u64) n)" by (auto intro: exI [of _ 15])
  moreover have "\<forall>n. 31 \<le> n \<and> n < 17 \<longrightarrow> \<not> bit (0xFFFFFFFF :: 32 word) n" by auto
  ultimately show ?thesis using rand_ids_range [of 31 "0xFFFFFFFF" 0] rand_ids_range [of 15 0 "0x8000"]
    by (intro conjI) simp_all
qed

text \<open>
  Two identifiers that print alike are the same; every identifier is printed in 35 characters, the
  64 bit identifier that was made first in front.
\<close>

theorem id_print_injective:
  "(ID_PRINT_U128 i = ID_PRINT_U128 j \<longleftrightarrow> i = j) \<and> length (ID_PRINT_U128 i) = 35
    \<and> ID_PRINT_U128 (RAND128 hi lo) = ''0x'' @ hex_digits 16 (unat hi) @ hex_digits 16 (unat lo) @ [NL]"
proof -
  have "ID_PRINT_U128 i = ID_PRINT_U128 j \<longleftrightarrow>
      (ucast (drop_bit 64 i) :: u64) = ucast (drop_bit 64 j) \<and> (ucast i :: u64) = ucast j"
    using unsigned_less [where ?'b = 64 and ?'a = nat] by (simp add: ID_PRINT_U128_def hex_digits_inj word_unat_eq_iff)
  also have "\<dots> \<longleftrightarrow> i = j"
  proof
    assume h: "(ucast (drop_bit 64 i) :: u64) = ucast (drop_bit 64 j) \<and> (ucast i :: u64) = ucast j"
    show "i = j"
    proof (rule bit_word_eqI)
      fix n :: nat assume "n < LENGTH(128)"
      with h show "bit i n = bit j n"
        by (cases "n < 64") (auto simp: bit_eq_iff bit_simps dest: spec [of _ n] spec [of _ "n - 64"])
    qed
  qed simp
  finally show ?thesis by (simp add: ID_PRINT_U128_def RAND128_halves)
qed

end
