(* ===== verification/HeapkitText.thy ===== *)
theory HeapkitText
  imports Heapkit
begin

text \<open>
  src/core/heapkit.c, second part: an instance as text (\<open>hk_serialize\<close>, \<open>hk_get_list\<close>) and back
  (\<open>hk_deserialize\<close>). An output buffer is its size and the C string it holds. \<open>alloc\<close> is the
  address that \<open>strdup\<close> and \<open>strndup\<close> return when the strings of the process are the given ones,
  0 when they fail.
\<close>

section \<open>Writing\<close>

fun serialize_fields ::
    "float_lib \<Rightarrow> (u64 \<rightharpoonup> string) \<Rightarrow> byte list \<Rightarrow> nat \<Rightarrow> field_info list \<Rightarrow> string
      \<Rightarrow> (c_int \<times> string) outcome" where
  "serialize_fields fl strs mem n [] out = Ret (0, out)"
| "serialize_fields fl strs mem n (f # fs) out =
     outcome_bind (value_text fl strs (field_type f) (drop (field_offset f) mem)) (\<lambda>v.
       case v of
         None \<Rightarrow> serialize_fields fl strs mem n fs out
       | Some v' \<Rightarrow>
           let temp = field_text 256 f v'
           in if length out + length temp \<ge> n then Ret (-3, out)
              else serialize_fields fl strs mem n fs (out @ temp))"

text \<open>\<open>out_buf\<close> is \<open>None\<close> for a NULL buffer, otherwise its size.\<close>

definition hk_serialize ::
    "float_lib \<Rightarrow> plugin_id \<Rightarrow> string \<Rightarrow> nat option \<Rightarrow> hk \<Rightarrow> (c_int \<times> string) outcome" where
  "hk_serialize fl pid tname out_buf s =
     with_registered pid tname s
       (\<lambda>_ ti mem.
          case out_buf of
            None \<Rightarrow> Ret (-2, [])
          | Some n \<Rightarrow>
              if n = 0 then Fault OutOfBounds
              else serialize_fields fl (hk_strings s) mem n (type_fields ti) [])
       (-1, [])"

text \<open>
  \<open>hk_get_list\<close> appends to what the buffer holds when it is called, and its first \<open>strcat\<close> does
  not look at the size. \<open>Ret None\<close> of \<open>type_line\<close> is the result -3.
\<close>

fun type_line ::
    "float_lib \<Rightarrow> (u64 \<rightharpoonup> string) \<Rightarrow> byte list \<Rightarrow> field_info list \<Rightarrow> string \<Rightarrow> string option outcome" where
  "type_line fl strs mem [] line = Ret (Some line)"
| "type_line fl strs mem (f # fs) line =
     outcome_bind (value_text fl strs (field_type f) (drop (field_offset f) mem)) (\<lambda>v.
       case v of
         None \<Rightarrow> type_line fl strs mem fs line
       | Some v' \<Rightarrow>
           let temp = field_text 256 f v'
           in if length line + length temp \<ge> 1024 then Ret None
              else type_line fl strs mem fs (line @ temp))"

fun list_types :: "float_lib \<Rightarrow> hk \<Rightarrow> nat \<Rightarrow> nat list \<Rightarrow> string \<Rightarrow> (c_int \<times> string) outcome" where
  "list_types fl s n [] out = Ret (0, out)"
| "list_types fl s n (i # js) out =
     (let reg = g_type_registry s i;
          header = snprintf 64 (''[plugin] ['' @ fmt_d (reg_plugin_id reg) @ '']'' @ [NL])
      in if length out + length header \<ge> n then Ret (-3, out)
         else
           let out1 = out @ header
           in case (reg_type_info reg, d_instance reg) of
                (Some ti, Some mem) \<Rightarrow>
                  outcome_bind (type_line fl (hk_strings s) mem (type_fields ti)
                                 (snprintf 1024 (type_name ti @ '' ''))) (\<lambda>line.
                    case line of
                      None \<Rightarrow> Ret (-3, out1)
                    | Some l \<Rightarrow>
                        if length out1 + length l + 1 \<ge> n then Ret (-3, out1)
                        else list_types fl s n js (out1 @ l @ [NL]))
              | _ \<Rightarrow> Fault NullDeref)"

definition hk_list_head :: string where
  "hk_list_head = ''[on_data] [hk]'' @ [NL] @ ''[getall]'' @ [NL]"

definition hk_get_list :: "float_lib \<Rightarrow> nat \<Rightarrow> string \<Rightarrow> hk \<Rightarrow> (c_int \<times> string) outcome" where
  "hk_get_list fl out_buf_size out_buf s =
     (if length out_buf + length hk_list_head \<ge> out_buf_size then Fault OutOfBounds
      else list_types fl s out_buf_size [0..<g_type_count s] (out_buf @ hk_list_head))"

section \<open>Reading\<close>

text \<open>
  The bytes a value's text is turned into and the strings afterwards; \<open>None\<close> is the \<open>default\<close>.
  For the text of one quote \<open>strlen(val) - 2\<close> wraps to a huge length, and the copy is empty.
\<close>

definition store_string ::
    "((u64 \<rightharpoonup> string) \<Rightarrow> u64) \<Rightarrow> string \<Rightarrow> (u64 \<rightharpoonup> string) \<Rightarrow> byte list \<times> (u64 \<rightharpoonup> string)" where
  "store_string alloc t strs =
     (let p = alloc strs in (le_bytes 8 (unat p), if p = 0 then strs else strs(p \<mapsto> t)))"

definition store_bytes ::
    "float_lib \<Rightarrow> ((u64 \<rightharpoonup> string) \<Rightarrow> u64) \<Rightarrow> field_type \<Rightarrow> string \<Rightarrow> (u64 \<rightharpoonup> string)
      \<Rightarrow> (byte list \<times> (u64 \<rightharpoonup> string)) option" where
  "store_bytes fl alloc t val strs =
     (case t of
        TYPE_INT \<Rightarrow> Some (le_bytes 4 (unat (atoi val)), strs)
      | TYPE_FLOAT \<Rightarrow> Some (le_bytes 4 (unat (strtof fl val)), strs)
      | TYPE_BOOL \<Rightarrow> Some ([if strcmp val ''true'' = 0 then 1 else 0], strs)
      | TYPE_CHAR \<Rightarrow> Some ([of_char (hd (val @ [NUL]))], strs)
      | TYPE_STRING \<Rightarrow>
          Some (if val \<noteq> [] \<and> hd val = CHR 0x22 \<and> last val = CHR 0x22
                then store_string alloc (take (length val - 2) (tl val)) strs
                else store_string alloc val strs)
      | _ \<Rightarrow> None)"

definition deserialize_token ::
    "float_lib \<Rightarrow> ((u64 \<rightharpoonup> string) \<Rightarrow> u64) \<Rightarrow> field_info list \<Rightarrow> string
      \<Rightarrow> byte list \<times> (u64 \<rightharpoonup> string) \<Rightarrow> (byte list \<times> (u64 \<rightharpoonup> string)) outcome" where
  "deserialize_token fl alloc fs token st =
     (case st of (mem, strs) \<Rightarrow>
        case strchr token CHR ''='' of
          None \<Rightarrow> Ret st
        | Some (key, val) \<Rightarrow>
            (case find_field key fs of
               None \<Rightarrow> Ret st
             | Some f \<Rightarrow>
                 (case store_bytes fl alloc (field_type f) val strs of
                    None \<Rightarrow> Ret st
                  | Some (bs, strs1) \<Rightarrow>
                      outcome_bind (mem_write mem (field_offset f) bs) (\<lambda>mem1. Ret (mem1, strs1)))))"

fun deserialize_tokens ::
    "float_lib \<Rightarrow> ((u64 \<rightharpoonup> string) \<Rightarrow> u64) \<Rightarrow> field_info list \<Rightarrow> string list
      \<Rightarrow> byte list \<times> (u64 \<rightharpoonup> string) \<Rightarrow> (byte list \<times> (u64 \<rightharpoonup> string)) outcome" where
  "deserialize_tokens fl alloc fs [] st = Ret st"
| "deserialize_tokens fl alloc fs (t # ts) st =
     outcome_bind (deserialize_token fl alloc fs t st) (deserialize_tokens fl alloc fs ts)"

definition hk_deserialize ::
    "float_lib \<Rightarrow> ((u64 \<rightharpoonup> string) \<Rightarrow> u64) \<Rightarrow> plugin_id \<Rightarrow> string \<Rightarrow> string option \<Rightarrow> hk
      \<Rightarrow> (c_int \<times> hk) outcome" where
  "hk_deserialize fl alloc pid tname data s =
     with_registered pid tname s
       (\<lambda>i ti mem.
          case data of
            None \<Rightarrow> Ret (-1, s)
          | Some d \<Rightarrow>
              let buf = take 1023 (cstr d)
              in outcome_bind
                   (deserialize_tokens fl alloc (type_fields ti) (strtok '';'' buf) (mem, hk_strings s))
                   (\<lambda>(mem1, strs1). Ret (0, (set_instance i mem1 s)\<lparr>hk_strings := strs1\<rparr>)))
       (-1, s)"

section \<open>Texts that can be read back\<close>

definition textual :: "field_type \<Rightarrow> bool" where
  "textual t \<longleftrightarrow> t = TYPE_INT \<or> t = TYPE_BOOL \<or> t = TYPE_CHAR \<or> t = TYPE_STRING"

text \<open>
  \<open>strdup\<close> returns the address of no other string, as long as memory is not full of them.
\<close>

definition fresh_alloc :: "((u64 \<rightharpoonup> string) \<Rightarrow> u64) \<Rightarrow> bool" where
  "fresh_alloc alloc \<longleftrightarrow> (\<forall>m. card (dom m) < 2 ^ 63 \<longrightarrow> alloc m \<noteq> 0 \<and> m (alloc m) = None)"

text \<open>The layout: fields in range, of the size of their types, apart from each other.\<close>

definition layout_ok :: "nat \<Rightarrow> field_info list \<Rightarrow> bool" where
  "layout_ok n fs \<longleftrightarrow>
     (\<forall>f\<in>set fs. textual (field_type f) \<and> field_offset f + hk_type_size (field_type f) \<le> n
        \<and> set (field_name f) \<inter> {NUL, CHR ''='', CHR '';''} = {})
   \<and> sorted_wrt (\<lambda>f g. field_name f \<noteq> field_name g
        \<and> (field_offset f + hk_type_size (field_type f) \<le> field_offset g
           \<or> field_offset g + hk_type_size (field_type g) \<le> field_offset f)) fs"

lemma char_of_byte [simp]: "char_of (unat (of_char c :: byte)) = c"
proof -
  have "unat (of_nat (of_char c) :: byte) = of_char c" by (simp add: unat_of_nat)
  then show ?thesis by (simp add: of_nat_of_char)
qed

lemma read_string_mono:
  assumes "read_string strs p = Ret t" "strs \<subseteq>\<^sub>m strs'"
  shows "read_string strs' p = Ret t"
proof (cases "p = 0")
  case False
  then have "strs p = Some t" using assms(1) by (auto simp: read_string_def split: option.splits)
  then have "strs' p = Some t" using assms(2) by (force simp: map_le_def dom_def)
  with False show ?thesis by (simp add: read_string_def)
qed (use assms(1) in \<open>simp add: read_string_def\<close>)

lemma value_text_mono:
  assumes "value_text fl strs t bs = Ret (Some v)" "strs \<subseteq>\<^sub>m strs'"
  shows "value_text fl strs' t bs = Ret (Some v)"
  using assms
  by (cases t) (auto simp: value_text_def dest: read_string_mono split: if_splits)

lemma value_text_take:
  assumes "textual t" "mem_read mem off (hk_type_size t) = Ret bs"
  shows "value_text fl strs t (drop off mem) = value_text fl strs t bs"
  using assms
  by (auto simp: textual_def value_text_def mem_read_def hk_type_size_def split: if_splits)

lemma store_bytes_value:
  assumes "textual t" "value_text fl strs t bs = Ret (Some v)" "alloc m \<noteq> 0" "m (alloc m) = None"
  shows "\<exists>bs' m'. store_bytes fl alloc t v m = Some (bs', m') \<and> length bs' = hk_type_size t
    \<and> value_text fl m' t bs' = Ret (Some v) \<and> m \<subseteq>\<^sub>m m' \<and> card (dom m') \<le> Suc (card (dom m))"
proof (cases t)
  case TYPE_INT
  then obtain w where "v = fmt_d w" using assms(2) by (auto simp: value_text_def split: if_splits)
  moreover have "unat w < 256 ^ 4" using unsigned_less [of w, where ?'a = nat] by simp
  ultimately show ?thesis
    using TYPE_INT by (simp add: store_bytes_def value_text_def le_val_le_bytes hk_type_size_def)
next
  case TYPE_BOOL
  then have "v = ''true'' \<or> v = ''false''"
    using assms(2) by (auto simp: value_text_def split: if_splits)
  with TYPE_BOOL show ?thesis
    by (auto simp: store_bytes_def value_text_def hk_type_size_def)
next
  case TYPE_CHAR
  then obtain c where "v = [c]" using assms(2) by (auto simp: value_text_def split: if_splits)
  with TYPE_CHAR show ?thesis by (simp add: store_bytes_def value_text_def hk_type_size_def)
next
  case TYPE_STRING
  then obtain x where v: "v = [CHR 0x22] @ x @ [CHR 0x22]"
    using assms(2) by (auto simp: value_text_def split: if_splits)
  have "unat (alloc m) < 256 ^ 8" using unsigned_less [of "alloc m", where ?'a = nat] by simp
  then show ?thesis
    using TYPE_STRING assms(3,4) v
    by (auto simp: store_bytes_def store_string_def value_text_def le_val_le_bytes hk_type_size_def
        read_string_def map_le_def Let_def card_insert_if)
qed (use assms(1) in \<open>simp_all add: textual_def\<close>)

lemma strchr_key: "CHR ''='' \<notin> set k \<Longrightarrow> strchr (k @ ''='' @ v) CHR ''='' = Some (k, v)"
  by simp

lemma layout_ok_names:
  assumes "layout_ok n fs" "f \<in> set fs"
  shows "find_field (field_name f) fs = Some f"
proof -
  have nul: "\<forall>g\<in>set fs. NUL \<notin> set (field_name g)" using assms(1) by (auto simp: layout_ok_def)
  have "sorted_wrt (\<lambda>f g. field_name f \<noteq> field_name g) fs"
    using assms(1) by (auto simp: layout_ok_def intro: sorted_wrt_mono_rel [rotated])
  then have "find (\<lambda>g. field_name g = field_name f) fs = Some f"
    using assms(2) by (induction fs) auto
  with nul assms(2) show ?thesis by (simp add: find_field_name)
qed

text \<open>One field read back: it has its value, and the fields apart from it keep theirs.\<close>

lemma deserialize_field:
  assumes "layout_ok (length mem) fs" "f \<in> set fs" "value_text fl strs (field_type f) bs = Ret (Some v)"
    and "fresh_alloc alloc" "card (dom m) < 2 ^ 63"
  shows "\<exists>mem' m'. deserialize_token fl alloc fs (field_name f @ ''='' @ v) (mem, m) = Ret (mem', m')
    \<and> length mem' = length mem \<and> card (dom m') \<le> Suc (card (dom m))
    \<and> value_text fl m' (field_type f) (drop (field_offset f) mem') = Ret (Some v)
    \<and> (\<forall>(g :: field_info) x. textual (field_type g) \<longrightarrow> field_offset g + hk_type_size (field_type g) \<le> length mem \<longrightarrow>
         (field_offset f + hk_type_size (field_type f) \<le> field_offset g
           \<or> field_offset g + hk_type_size (field_type g) \<le> field_offset f) \<longrightarrow>
         value_text fl m (field_type g) (drop (field_offset g) mem) = Ret (Some x) \<longrightarrow>
         value_text fl m' (field_type g) (drop (field_offset g) mem') = Ret (Some x))"
proof -
  let ?t = "field_type f" and ?o = "field_offset f"
  have f: "textual ?t" "?o + hk_type_size ?t \<le> length mem" "CHR ''='' \<notin> set (field_name f)"
    using assms(1,2) by (auto simp: layout_ok_def)
  have "alloc m \<noteq> 0" "m (alloc m) = None" using assms(4,5) by (auto simp: fresh_alloc_def)
  from store_bytes_value [OF f(1) assms(3), of alloc m, OF this] obtain bs' m' where b:
    "store_bytes fl alloc ?t v m = Some (bs', m')" "length bs' = hk_type_size ?t"
    "value_text fl m' ?t bs' = Ret (Some v)" "m \<subseteq>\<^sub>m m'" "card (dom m') \<le> Suc (card (dom m))" by blast
  from mem_write_ok [of ?o bs' mem] f(2) b(2) obtain mem' where w: "mem_write mem ?o bs' = Ret mem'"
    by auto
  have "mem_read mem' ?o (hk_type_size ?t) = Ret bs'" using mem_read_write [OF w] b(2) by simp
  note own = value_text_take [OF f(1) this, of fl m']
  have tok: "deserialize_token fl alloc fs (field_name f @ ''='' @ v) (mem, m) = Ret (mem', m')"
    unfolding deserialize_token_def using strchr_key [OF f(3), of v] layout_ok_names [OF assms(1,2)] b(1) w
    by simp
  have others: "value_text fl m' (field_type g) (drop (field_offset g) mem') = Ret (Some x)"
    if g: "textual (field_type g)" "field_offset g + hk_type_size (field_type g) \<le> length mem"
      "?o + hk_type_size ?t \<le> field_offset g \<or> field_offset g + hk_type_size (field_type g) \<le> ?o"
      "value_text fl m (field_type g) (drop (field_offset g) mem) = Ret (Some x)" for g :: field_info and x
  proof -
    obtain bg where bg: "mem_read mem (field_offset g) (hk_type_size (field_type g)) = Ret bg"
      using g(2) by (simp add: mem_read_def)
    moreover have "mem_read mem' (field_offset g) (hk_type_size (field_type g)) = Ret bg"
      using mem_read_write_disjoint [OF w, of "field_offset g" "hk_type_size (field_type g)"] g(3) b(2) bg
      by auto
    ultimately show ?thesis
      using value_text_take [OF g(1), of _ "field_offset g" bg fl] g(4)
        value_text_mono [OF _ b(4)] by metis
  qed
  show ?thesis
    by (intro exI [of _ mem'] exI [of _ m'] conjI allI impI)
      (rule tok mem_write_length [OF w] b(5) own [unfolded b(3)] | erule (3) others)+
qed

lemma deserialize_all:
  assumes "layout_ok n all" "all = ps @ fs" "length mem = n"
    and "\<forall>f\<in>set fs. \<exists>strs bs. value_text fl strs (field_type f) bs = Ret (Some (v f))"
    and "\<forall>f\<in>set ps. value_text fl m (field_type f) (drop (field_offset f) mem) = Ret (Some (v f))"
    and "fresh_alloc alloc" "card (dom m) + length fs \<le> 2 ^ 63"
  shows "\<exists>mem' m'. deserialize_tokens fl alloc all (map (\<lambda>f. field_name f @ ''='' @ v f) fs) (mem, m)
      = Ret (mem', m') \<and> length mem' = n
    \<and> (\<forall>f\<in>set all. value_text fl m' (field_type f) (drop (field_offset f) mem') = Ret (Some (v f)))"
  using assms
proof (induction fs arbitrary: ps mem m)
  case (Cons f fs)
  obtain strs bs where v: "value_text fl strs (field_type f) bs = Ret (Some (v f))"
    using Cons.prems(4) by auto
  have lay: "layout_ok (length mem) all" "f \<in> set all" using Cons.prems(1-3) by simp_all
  have room: "card (dom m) < 2 ^ 63" using Cons.prems(7) by simp
  from deserialize_field [OF lay v Cons.prems(6) room] obtain mem1 m1 where s1:
    "deserialize_token fl alloc all (field_name f @ ''='' @ v f) (mem, m) = Ret (mem1, m1)"
    "length mem1 = length mem" "card (dom m1) \<le> Suc (card (dom m))"
    "value_text fl m1 (field_type f) (drop (field_offset f) mem1) = Ret (Some (v f))"
    "\<And>(g :: field_info) x. textual (field_type g) \<Longrightarrow> field_offset g + hk_type_size (field_type g) \<le> length mem \<Longrightarrow>
         field_offset f + hk_type_size (field_type f) \<le> field_offset g
           \<or> field_offset g + hk_type_size (field_type g) \<le> field_offset f \<Longrightarrow>
         value_text fl m (field_type g) (drop (field_offset g) mem) = Ret (Some x) \<Longrightarrow>
         value_text fl m1 (field_type g) (drop (field_offset g) mem1) = Ret (Some x)"
    by blast
  have apart: "textual (field_type g) \<and> field_offset g + hk_type_size (field_type g) \<le> length mem
      \<and> (field_offset f + hk_type_size (field_type f) \<le> field_offset g
           \<or> field_offset g + hk_type_size (field_type g) \<le> field_offset f)" if "g \<in> set ps" for g
    using Cons.prems(1-3) that by (auto simp: layout_ok_def sorted_wrt_append)
  have done1: "\<forall>g\<in>set (ps @ [f]). value_text fl m1 (field_type g) (drop (field_offset g) mem1) = Ret (Some (v g))"
  proof
    fix g
    assume "g \<in> set (ps @ [f])"
    then consider "g = f" | "g \<in> set ps" by auto
    then show "value_text fl m1 (field_type g) (drop (field_offset g) mem1) = Ret (Some (v g))"
    proof cases
      case 2
      show ?thesis by (rule s1(5)) (use apart [OF 2] Cons.prems(5) 2 in auto)
    qed (simp add: s1(4))
  qed
  have "all = (ps @ [f]) @ fs" "length mem1 = n"
    "\<forall>f\<in>set fs. \<exists>strs bs. value_text fl strs (field_type f) bs = Ret (Some (v f))"
    using Cons.prems(2-4) s1(2) by simp_all
  moreover have "card (dom m1) + length fs \<le> 2 ^ 63" using s1(3) Cons.prems(7) by simp
  ultimately show ?case
    using Cons.IH [OF Cons.prems(1) _ _ _ done1 Cons.prems(6)] s1(1) by simp
qed simp

text \<open>The text of an instance whose values are all readable, and its tokens.\<close>

lemma serialize_fields_ok:
  assumes "\<forall>f\<in>set fs. value_text fl strs (field_type f) (drop (field_offset f) mem) = Ret (Some (v f))
      \<and> NUL \<notin> set (field_name f @ v f) \<and> length (field_name f @ v f) < 253"
    and "length out + length (concat (map (\<lambda>f. field_name f @ ''='' @ v f @ '';'') fs)) < n"
  shows "serialize_fields fl strs mem n fs out
    = Ret (0, out @ concat (map (\<lambda>f. field_name f @ ''='' @ v f @ '';'') fs))"
  using assms
proof (induction fs arbitrary: out)
  case (Cons f fs)
  have "field_text 256 f (v f) = field_name f @ ''='' @ v f @ '';''"
    unfolding field_text_def using Cons.prems(1) by (intro snprintf_fits) auto
  with Cons show ?case by simp
qed simp

lemma strtok_fields:
  assumes "\<forall>f\<in>set fs. CHR '';'' \<notin> set (field_name f @ v f)"
  shows "strtok '';'' (concat (map (\<lambda>f. field_name f @ ''='' @ v f @ '';'') fs))
    = map (\<lambda>f. field_name f @ ''='' @ v f) fs"
  using assms
proof (induction fs)
  case (Cons f fs)
  let ?r = "concat (map (\<lambda>f. field_name f @ ''='' @ v f @ '';'') fs)"
  have "strtok '';'' ((field_name f @ ''='' @ v f) @ CHR '';'' # ?r)
      = (field_name f @ ''='' @ v f) # strtok '';'' ?r"
    using Cons.prems by (intro strtok_token) auto
  with Cons show ?case by simp
qed simp

section \<open>An instance and an allocator\<close>

definition least_free :: "(u64 \<rightharpoonup> string) \<Rightarrow> u64" where
  "least_free m = (LEAST p. p \<noteq> 0 \<and> m p = None)"

lemma fresh_least_free: "fresh_alloc least_free"
  unfolding fresh_alloc_def
proof (intro allI impI)
  fix m :: "u64 \<rightharpoonup> string"
  assume small: "card (dom m) < 2 ^ 63"
  have "\<exists>p. p \<noteq> 0 \<and> m p = None"
  proof (rule ccontr)
    assume "\<nexists>p. p \<noteq> 0 \<and> m p = None"
    then have "UNIV = insert 0 (dom m)" by (auto simp: dom_def)
    then have "card (UNIV :: u64 set) \<le> Suc (card (dom m))" by (metis card_insert_le_m1 card_insert_if finite le_SucI order_refl)
    with small show False by (simp add: card_word)
  qed
  then show "least_free m \<noteq> 0 \<and> m (least_free m) = None"
    unfolding least_free_def by (rule LeastI_ex)
qed

definition text_type :: type_info where
  "text_type =
     \<lparr> type_name = ''cfg'', type_size = 14,
       type_fields = [sample_field ''n'' TYPE_INT 0, sample_field ''ok'' TYPE_BOOL 4,
                      sample_field ''s'' TYPE_STRING 5, sample_field ''c'' TYPE_CHAR 13],
       is_simple = False, base_type = TYPE_STRUCT \<rparr>"

definition text_hk :: "byte list \<Rightarrow> (u64 \<rightharpoonup> string) \<Rightarrow> hk" where
  "text_hk mem strs =
     hk_initial\<lparr>g_type_registry := (\<lambda>_. registered_zero)(0 :=
         \<lparr> reg_plugin_id = 7, reg_type_info = Some text_type, d_instance = Some mem \<rparr>),
       g_type_count := 1, hk_strings := strs\<rparr>"

definition text_mem :: "byte list" where
  "text_mem = [42, 0, 0, 0, 1, 9, 0, 0, 0, 0, 0, 0, 0, 120]"

lemma text_hk_facts:
  assumes "length mem = 14"
  shows "hk_inv (text_hk mem strs)" "find_registered 7 ''cfg'' (text_hk mem strs) = Ret (Some 0)"
    "reg_type_info (g_type_registry (text_hk mem strs) 0) = Some text_type"
    "d_instance (g_type_registry (text_hk mem strs) 0) = Some mem"
    "hk_strings (text_hk mem strs) = strs"
  using assms
  by (simp_all add: hk_inv_def text_hk_def hk_initial_def text_type_def MAX_REGISTERED_TYPES_def
      find_registered_def)

section \<open>Properties\<close>



text \<open>
  Whatever the registry holds, \<open>hk_serialize\<close> never writes past the caller's buffer: the text
  and its terminator fit, also when the call gives up with -3.
\<close>

theorem hk_serialize_fits:
  assumes "hk_serialize fl pid tname (Some n) s = Ret (r, out)" "0 < n"
  shows "length out < n \<and> (r = 0 \<or> r = -1 \<or> r = -3)"
proof -
  have gen: "serialize_fields fl strs mem n fs acc = Ret (r, out) \<Longrightarrow> length acc < n \<Longrightarrow>
      length out < n \<and> (r = 0 \<or> r = -1 \<or> r = -3)" for strs mem fs acc
  proof (induction fs arbitrary: acc)
    case (Cons f fs)
    then show ?case by (auto simp: Let_def split: option.splits if_splits)
  qed auto
  from with_registered_Ret [OF assms(1) [unfolded hk_serialize_def]] assms(2) show ?thesis
    by (auto dest: gen)
qed

theorem hk_serialize_fits_witness:
  "\<exists>out. hk_serialize no_floats 7 ''cfg'' (Some 8) (text_hk text_mem Map.empty) = Ret (-3, out)
    \<and> length out < 8"
proof -
  have r: "hk_serialize no_floats 7 ''cfg'' (Some 8) (text_hk text_mem Map.empty) = Ret (-3, ''n=42;'')"
    by code_simp
  from hk_serialize_fits [OF r] r show ?thesis by auto
qed

text \<open>
  \<open>hk_get_list\<close> does not empty the buffer it is given: its first \<open>strcat\<close> appends to whatever
  text is there, and when that leaves less room than its header needs, it writes past the end. In
  the other cases the result starts with the old text and stays inside the buffer.
\<close>

theorem hk_get_list_appends:
  "(n \<le> length old + length hk_list_head \<longrightarrow> hk_get_list fl n old s = Fault OutOfBounds)
    \<and> (\<forall>r out. hk_get_list fl n old s = Ret (r, out) \<longrightarrow>
         (\<exists>more. out = old @ hk_list_head @ more) \<and> length out < n)"
proof (intro conjI impI allI)
  show "n \<le> length old + length hk_list_head \<Longrightarrow> hk_get_list fl n old s = Fault OutOfBounds"
    by (simp add: hk_get_list_def)
  have gen: "list_types fl s n js acc = Ret (r, out) \<Longrightarrow> length acc < n \<Longrightarrow>
      (\<exists>more. out = acc @ more) \<and> length out < n" for js acc r out
  proof (induction js arbitrary: acc)
    case (Cons i js)
    then show ?case by (auto simp: Let_def split: option.splits if_splits) fastforce+
  qed auto
  fix r out
  assume "hk_get_list fl n old s = Ret (r, out)"
  then show "\<exists>more. out = old @ hk_list_head @ more" "length out < n"
    using gen [of "[0..<g_type_count s]" "old @ hk_list_head" r out]
    by (auto simp: hk_get_list_def split: if_splits)
qed

theorem hk_get_list_appends_witness:
  "hk_get_list no_floats 10 [] hk_initial = Fault OutOfBounds"
  using hk_get_list_appends [of 10 "[]" no_floats hk_initial] by (simp add: hk_list_head_def)

end
