(* ===== verification/PluginLoader.thy ===== *)
theory PluginLoader
  imports Heapkit
begin

text \<open>
  src/plugin/plugin_loader.c, src/plugin/plugin_stub.c and src/jit/llvm_jit.c: a plugin's
  directory becomes a handle. The manifest gives its name, version, code and parameters, the data
  file its heapkit types, the JIT library the functions of its core API, and the shared object its
  entry points.

  The file system and the dynamic linker are arguments: the contents of a file (\<open>None\<close> when it
  cannot be opened) and the outcome of \<open>dlopen\<close> and \<open>dlsym\<close>. The library libjitcore lies outside
  the C sources; it is the outcomes of its calls. A pointer to a name remembers whether \<open>malloc\<close>
  made it, because \<open>free\<close> is called on it.
\<close>

section \<open>Handles\<close>

datatype plugin_state =
    PLUGIN_STATE_ALIVE | PLUGIN_STATE_STOPPED | PLUGIN_STATE_KILLED | PLUGIN_STATE_CRASHED

fun state_value :: "plugin_state \<Rightarrow> nat" where
  "state_value PLUGIN_STATE_ALIVE = 0"
| "state_value PLUGIN_STATE_STOPPED = 1"
| "state_value PLUGIN_STATE_KILLED = 2"
| "state_value PLUGIN_STATE_CRASHED = 3"

text \<open>The enumeration is compared with \<open>>=\<close>, so it is ordered by its values.\<close>

instantiation plugin_state :: linorder
begin

definition less_eq_plugin_state :: "plugin_state \<Rightarrow> plugin_state \<Rightarrow> bool" where
  "less_eq_plugin_state a b \<longleftrightarrow> state_value a \<le> state_value b"

definition less_plugin_state :: "plugin_state \<Rightarrow> plugin_state \<Rightarrow> bool" where
  "less_plugin_state a b \<longleftrightarrow> state_value a < state_value b"

instance
proof
  fix a b :: plugin_state
  show "a \<le> b \<Longrightarrow> b \<le> a \<Longrightarrow> a = b"
    by (cases a; cases b) (simp_all add: less_eq_plugin_state_def)
qed (auto simp: less_eq_plugin_state_def less_plugin_state_def)

end

text \<open>A pointer to a C string: from \<open>malloc\<close>, or to memory of somebody else.\<close>

datatype cptr = Malloced string | Foreign string

fun pointee :: "cptr \<Rightarrow> string" where
  "pointee (Malloced s) = s"
| "pointee (Foreign s) = s"

text \<open>\<open>free(p)\<close>, with \<open>None\<close> for NULL.\<close>

definition c_free :: "cptr option \<Rightarrow> unit outcome" where
  "c_free p = (case p of Some (Foreign _) \<Rightarrow> Fault InvalidFree | _ \<Rightarrow> Ret ())"

text \<open>
  \<open>core_api_t\<close>: a stub is known by the plugin it passes on as first argument; the other two
  entries are functions of the core itself. \<open>None\<close> and \<open>False\<close> are NULL.
\<close>

record core_api =
  abi_version :: nat
  hk_getter :: "plugin_id option"
  hk_setter :: "plugin_id option"
  subscribe :: "plugin_id option"
  publish :: bool
  get_plugin_id :: bool
  timer_after_ms :: "plugin_id option"
  timer_every_ms :: "plugin_id option"
  timer_cancel :: "plugin_id option"

record plugin_handle =
  hot_state :: plugin_state
  fn_initialize :: bool
  fn_start :: bool
  fn_stop :: bool
  fn_shutdown :: bool
  info_id :: plugin_id
  info_name :: "cptr option"
  info_version :: "cptr option"
  info_code :: c_int
  path :: "string option"
  manifest_path :: "string option"
  data_path :: "string option"
  so :: bool
  params :: "(string \<times> string) list"
  param_count :: "8 word"
  handle_api :: core_api

text \<open>What \<open>calloc\<close> and \<open>memset(h, 0, ...)\<close> leave.\<close>

definition zero_api :: core_api where
  "zero_api =
     \<lparr> abi_version = 0, hk_getter = None, hk_setter = None, subscribe = None, publish = False,
       get_plugin_id = False, timer_after_ms = None, timer_every_ms = None, timer_cancel = None \<rparr>"

definition zero_handle :: plugin_handle where
  "zero_handle =
     \<lparr> hot_state = PLUGIN_STATE_ALIVE, fn_initialize = False, fn_start = False, fn_stop = False,
       fn_shutdown = False, info_id = 0, info_name = None, info_version = None, info_code = 0,
       path = None, manifest_path = None, data_path = None, so = False, params = [],
       param_count = 0, handle_api = zero_api \<rparr>"

section \<open>The manifest\<close>

definition cut_line :: "string \<Rightarrow> string" where
  "cut_line line = takeWhile (\<lambda>c. c \<noteq> CR \<and> c \<noteq> NL) (cstr line)"

text \<open>
  \<open>params\<close> has room for \<open>param_count + 1\<close> entries after the \<open>realloc\<close>, and the count is a byte.
\<close>

definition add_param :: "string \<Rightarrow> string \<Rightarrow> plugin_handle \<Rightarrow> plugin_handle" where
  "add_param key value h =
     h\<lparr>params := take (unat (param_count h)) (params h) @ [(key, value)],
       param_count := param_count h + 1\<rparr>"

definition parse_code :: "string \<Rightarrow> c_int" where
  "parse_code value =
     (case strtol value of
        None \<Rightarrow> 0
      | Some v \<Rightarrow> if clamp_long v \<noteq> v then 0 else word_of_int v)"

text \<open>One line of the manifest; \<open>None\<close> is the \<open>return -1\<close> when \<open>realloc\<close> fails.\<close>

definition manifest_line :: "bool \<Rightarrow> string \<Rightarrow> plugin_handle \<Rightarrow> plugin_handle option" where
  "manifest_line realloc_ok raw h =
     (let line = cut_line raw
      in if line = [] \<or> hd line = CHR ''#'' then Some h
         else if starts_with ''--'' line then
           (case strchr (drop 2 line) CHR ''='' of
              None \<Rightarrow> Some h
            | Some (key, value) \<Rightarrow> if \<not> realloc_ok then None else Some (add_param key value h))
         else
           (case strchr line CHR ''='' of
              None \<Rightarrow> Some h
            | Some (key, value) \<Rightarrow>
                (let trimmed_key = dropWhile (\<lambda>c. c = CHR '' '') key;
                     trimmed_value = dropWhile (\<lambda>c. c = CHR '' '') value
                 in Some (if strcaseeq trimmed_key ''Name''
                    then h\<lparr>info_name := Some (Malloced trimmed_value)\<rparr>
                    else if strcaseeq trimmed_key ''Version''
                    then h\<lparr>info_version := Some (Malloced trimmed_value)\<rparr>
                    else if strcaseeq trimmed_key ''Code''
                    then h\<lparr>info_code := parse_code trimmed_value\<rparr>
                    else h))))"

fun manifest_lines :: "bool \<Rightarrow> string list \<Rightarrow> plugin_handle \<Rightarrow> bool \<times> plugin_handle" where
  "manifest_lines realloc_ok [] h = (True, h)"
| "manifest_lines realloc_ok (l # ls) h =
     (case manifest_line realloc_ok l h of
        None \<Rightarrow> (False, h)
      | Some h1 \<Rightarrow> manifest_lines realloc_ok ls h1)"

text \<open>The state of the loader: the next identifier, the heapkit, the JIT library.\<close>

record loader =
  current_id :: plugin_id
  ld_hk :: hk
  jit_symbols :: bool

definition plugin_manifest_set ::
    "bool \<Rightarrow> string option \<Rightarrow> plugin_handle \<times> loader \<Rightarrow> bool \<times> plugin_handle \<times> loader" where
  "plugin_manifest_set realloc_ok file st =
     (case (file, st) of
        (None, _) \<Rightarrow> (False, st)
      | (Some text, h, l) \<Rightarrow>
          (case manifest_lines realloc_ok (fgets_lines 256 text) h of
             (False, h1) \<Rightarrow> (False, h1, l)
           | (True, h1) \<Rightarrow> (True, h1\<lparr>info_id := current_id l\<rparr>, l\<lparr>current_id := current_id l + 1\<rparr>)))"

section \<open>The data file\<close>

text \<open>
  The variables of the loop of \<open>plugin_data_set\<close>: the type being read, with the fields written
  into an array of \<open>HEAPKIT_MAX_FIELD\<close> entries. Buffers for names have 64 bytes.
\<close>

record data_state =
  current_type :: "type_info option"
  current_fields :: "field_info list"

definition copy_name :: "string \<Rightarrow> string outcome" where
  "copy_name t = (if length t \<ge> 64 then Fault OutOfBounds else Ret t)"

text \<open>\<open>sscanf(trimmed, "struct %s", struct_name)\<close>; without a word the buffer stays as it was.\<close>

definition scan_struct :: "string \<Rightarrow> string outcome" where
  "scan_struct trimmed =
     (let word = takeWhile (\<lambda>c. \<not> isspace c) (dropWhile isspace (drop 6 trimmed))
      in if word = [] then Fault UninitRead else copy_name word)"

definition data_field :: "string \<Rightarrow> type_info \<Rightarrow> data_state \<Rightarrow> data_state outcome" where
  "data_field trimmed ty d =
     (let body = takeWhile (\<lambda>c. c \<noteq> CHR ''#'') trimmed
      in case strtok ('' '' @ [TAB]) body of
           t0 # name # ftype # _ \<Rightarrow>
             if strcmp t0 ''field'' \<noteq> 0 then Ret d
             else outcome_bind (copy_name name) (\<lambda>name'. outcome_bind (copy_name ftype) (\<lambda>ftype'.
               if length (current_fields d) \<ge> HEAPKIT_MAX_FIELD then Fault OutOfBounds
               else
                 let (t, sname) = hk_parse_type ftype';
                     f = \<lparr> field_name = name', field_type = t, field_offset = type_size ty,
                           field_size = hk_type_size t,
                           field_type_name = (case sname of None \<Rightarrow> [] | Some n \<Rightarrow> n) \<rparr>
                 in Ret (d\<lparr>current_fields := current_fields d @ [f],
                           current_type := Some (ty\<lparr>type_size := type_size ty + field_size f\<rparr>)\<rparr>)))
         | [t0, name] \<Rightarrow>
             if strcmp t0 ''field'' \<noteq> 0 then Ret d
             else outcome_bind (copy_name name) (\<lambda>_. Ret d)
         | _ \<Rightarrow> Ret d)"

text \<open>One line; \<open>Inl\<close> is the \<open>return 1\<close> of a type that cannot be registered.\<close>

definition data_line ::
    "bool \<Rightarrow> plugin_id \<Rightarrow> string \<Rightarrow> data_state \<times> hk \<Rightarrow> (hk + data_state \<times> hk) outcome" where
  "data_line calloc_ok pid raw st =
     (case st of (d, k) \<Rightarrow>
        let line = cut_line raw;
            trimmed = dropWhile isspace line
        in if line = [] \<or> hd line = CHR ''#'' then Ret (Inr st)
           else if starts_with ''struct'' trimmed then
             outcome_bind (scan_struct trimmed) (\<lambda>name.
               Ret (Inr (\<lparr> current_type = Some \<lparr> type_name = name, type_size = 0, type_fields = [],
                             is_simple = False, base_type = TYPE_INT \<rparr>,
                           current_fields = [] \<rparr>, k)))
           else
             (case current_type d of
                None \<Rightarrow> Ret (Inr st)
              | Some ty \<Rightarrow>
                  if starts_with ''field'' trimmed then
                    outcome_bind (data_field trimmed ty d) (\<lambda>d1. Ret (Inr (d1, k)))
                  else if starts_with ''end'' trimmed then
                    outcome_bind
                      (hk_type_register calloc_ok pid (Some (ty\<lparr>type_fields := current_fields d\<rparr>)) k)
                      (\<lambda>(r, k1). if r \<noteq> 0 then Ret (Inl k1)
                                 else Ret (Inr (\<lparr> current_type = None, current_fields = [] \<rparr>, k1)))
                  else Ret (Inr st)))"

fun data_lines ::
    "bool \<Rightarrow> plugin_id \<Rightarrow> string list \<Rightarrow> data_state \<times> hk \<Rightarrow> (bool \<times> hk) outcome" where
  "data_lines calloc_ok pid [] st = Ret (True, snd st)"
| "data_lines calloc_ok pid (l # ls) st =
     outcome_bind (data_line calloc_ok pid l st) (\<lambda>r.
       case r of Inl k \<Rightarrow> Ret (False, k) | Inr st1 \<Rightarrow> data_lines calloc_ok pid ls st1)"

definition plugin_data_set ::
    "bool \<Rightarrow> string option \<Rightarrow> plugin_id \<Rightarrow> hk \<Rightarrow> (bool \<times> hk) outcome" where
  "plugin_data_set calloc_ok file pid k =
     (case file of
        None \<Rightarrow> Ret (False, k)
      | Some text \<Rightarrow>
          data_lines calloc_ok pid (fgets_lines 256 text)
            (\<lparr> current_type = None, current_fields = [] \<rparr>, k))"

section \<open>The stubs\<close>

text \<open>
  \<open>llvm_jit_init\<close> loads libjitcore and its symbols once; \<open>syms\<close> says which of the seven symbols
  exist. Without the library every stub fails.
\<close>

fun load_symbols :: "bool list \<Rightarrow> bool" where
  "load_symbols [] = True"
| "load_symbols (ok # oks) = (if \<not> ok then False else load_symbols oks)"

definition llvm_jit_init :: "bool \<Rightarrow> bool \<Rightarrow> bool list \<Rightarrow> loader \<Rightarrow> loader" where
  "llvm_jit_init dlopen_ok calloc_ok syms l =
     (if jit_symbols l then l
      else if \<not> dlopen_ok then l
      else if \<not> calloc_ok then l
      else l\<lparr>jit_symbols := load_symbols syms\<rparr>)"

definition llvm_jit_cleanup :: "loader \<Rightarrow> loader" where
  "llvm_jit_cleanup l = l\<lparr>jit_symbols := False\<rparr>"

text \<open>
  The six stub functions differ in the field they set; \<open>made\<close> is whether the library returns a
  stub for each of them, in the order of \<open>plugin_stub_setup\<close>. The number is the result.
\<close>

definition plugin_stub_one ::
    "bool \<Rightarrow> bool \<Rightarrow> (plugin_id option \<Rightarrow> core_api \<Rightarrow> core_api) \<Rightarrow> plugin_handle \<Rightarrow> plugin_handle option" where
  "plugin_stub_one symbols made put h =
     (if \<not> symbols then None
      else if \<not> made then None
      else Some (h\<lparr>handle_api := put (Some (info_id h)) (handle_api h)\<rparr>))"

fun plugin_stubs ::
    "bool \<Rightarrow> (bool \<times> (plugin_id option \<Rightarrow> core_api \<Rightarrow> core_api)) list \<Rightarrow> nat \<Rightarrow> plugin_handle
      \<Rightarrow> nat \<times> plugin_handle" where
  "plugin_stubs symbols [] n h =
     (0, h\<lparr>handle_api := (handle_api h)\<lparr>publish := True, get_plugin_id := True\<rparr>\<rparr>)"
| "plugin_stubs symbols ((made, put) # rest) n h =
     (case plugin_stub_one symbols made put h of
        None \<Rightarrow> (n, h)
      | Some h1 \<Rightarrow> plugin_stubs symbols rest (n + 1) h1)"

definition stub_setters :: "(plugin_id option \<Rightarrow> core_api \<Rightarrow> core_api) list" where
  "stub_setters =
     [\<lambda>p a. a\<lparr>subscribe := p\<rparr>, \<lambda>p a. a\<lparr>timer_every_ms := p\<rparr>, \<lambda>p a. a\<lparr>timer_after_ms := p\<rparr>,
      \<lambda>p a. a\<lparr>timer_cancel := p\<rparr>, \<lambda>p a. a\<lparr>hk_getter := p\<rparr>, \<lambda>p a. a\<lparr>hk_setter := p\<rparr>]"

definition plugin_stub_setup ::
    "bool \<Rightarrow> (nat \<Rightarrow> bool) \<Rightarrow> plugin_handle \<Rightarrow> nat \<times> plugin_handle" where
  "plugin_stub_setup symbols made h =
     plugin_stubs symbols (zip (map made [0..<6]) stub_setters) 1 h"

definition CORECDTL_ABI_VERSION :: nat where "CORECDTL_ABI_VERSION = 0"

definition plugin_api_obj_fns_set ::
    "bool \<Rightarrow> (nat \<Rightarrow> bool) \<Rightarrow> plugin_handle \<Rightarrow> nat \<times> plugin_handle" where
  "plugin_api_obj_fns_set symbols made h =
     (case plugin_stub_setup symbols made h of
        (r, h1) \<Rightarrow>
          if r \<noteq> 0 then (r, h1)
          else (0, h1\<lparr>handle_api := (handle_api h1)\<lparr>abi_version := CORECDTL_ABI_VERSION\<rparr>\<rparr>))"

section \<open>Loading\<close>

text \<open>\<open>FREE_PLUGIN\<close>: the name, the version, the parameters and the handle.\<close>

definition plugin_free_info :: "plugin_handle \<Rightarrow> unit outcome" where
  "plugin_free_info h =
     outcome_bind (c_free (info_name h)) (\<lambda>_. c_free (info_version h))"

text \<open>What the environment answers while one plugin is loaded.\<close>

record load_env =
  le_calloc_ok :: bool
  le_realloc_ok :: bool
  le_manifest :: "string option"
  le_data :: "string option"
  le_type_calloc_ok :: bool
  le_stubs :: "nat \<Rightarrow> bool"
  le_dlopen_ok :: bool
  le_sym_initialize :: bool
  le_sym_start :: bool
  le_sym_stop :: bool
  le_sym_shutdown :: bool

definition load_failed :: "plugin_handle \<Rightarrow> loader \<Rightarrow> (plugin_handle option \<times> loader) outcome" where
  "load_failed h l = outcome_bind (plugin_free_info h) (\<lambda>_. Ret (None, l))"

definition plugin_load ::
    "load_env \<Rightarrow> string \<Rightarrow> string \<Rightarrow> string \<Rightarrow> string \<Rightarrow> loader \<Rightarrow> (plugin_handle option \<times> loader) outcome"
where
  "plugin_load env plugin_name path' manifest_path' data_path' l =
     (if \<not> le_calloc_ok env then Ret (None, l)
      else
        let h0 = zero_handle\<lparr>info_name := Some (Foreign plugin_name), info_version := None\<rparr>
        in case plugin_manifest_set (le_realloc_ok env) (le_manifest env) (h0, l) of
             (False, h1, l1) \<Rightarrow> load_failed h1 l1
           | (True, h1, l1) \<Rightarrow>
               outcome_bind (plugin_data_set (le_type_calloc_ok env) (le_data env) (info_id h1) (ld_hk l1)) (\<lambda>(ok, k).
                 let l2 = l1\<lparr>ld_hk := k\<rparr>
                 in if \<not> ok then load_failed h1 l2
                    else (case plugin_api_obj_fns_set (jit_symbols l2) (le_stubs env) h1 of
                      (r, h2) \<Rightarrow>
                        if r \<noteq> 0 then load_failed h2 l2
                        else if \<not> le_dlopen_ok env then load_failed h2 l2
                        else
                          let h3 = h2\<lparr>so := True, fn_initialize := le_sym_initialize env,
                                      fn_start := le_sym_start env, fn_stop := le_sym_stop env,
                                      fn_shutdown := le_sym_shutdown env\<rparr>
                          in if \<not> fn_initialize h3 then load_failed h3 l2
                             else Ret (Some (h3\<lparr>path := Some path',
                                     manifest_path := Some manifest_path',
                                     data_path := Some data_path'\<rparr>), l2))))"

text \<open>\<open>plugin_unload\<close>; the result is which entry points it calls, stop and shutdown.\<close>

definition plugin_unload :: "plugin_handle \<Rightarrow> (bool \<times> bool) outcome" where
  "plugin_unload h =
     outcome_bind (plugin_free_info h) (\<lambda>_. Ret (fn_stop h, fn_shutdown h))"

section \<open>Lemmas\<close>

text \<open>A file of short lines is read line by line.\<close>

lemma fgets_lines_concat:
  assumes "\<forall>l\<in>set ls. \<exists>b. l = b @ [NL] \<and> NL \<notin> set b \<and> length b + 1 < n"
  shows "fgets_lines n (concat ls) = ls"
  using assms
proof (induction ls)
  case (Cons l ls)
  then obtain b where b: "l = b @ [NL]" "NL \<notin> set b" "length b + 1 < n" by auto
  have "takeWhile (\<lambda>c. c \<noteq> NL) (b @ NL # concat ls) = b" using b(2) by (simp add: takeWhile_append)
  moreover have "min (n - 1) (length b + 1) = length b + 1" using b(3) by simp
  ultimately have "fgets n (concat (l # ls)) = (l, concat ls)"
    using b(1) by (simp add: fgets_def Let_def)
  with Cons b show ?case by (subst fgets_lines.simps) simp
qed (simp add: fgets_lines.simps)

lemma cut_line_text: "set b \<inter> {NUL, CR, NL} = {} \<Longrightarrow> cut_line (b @ [NL]) = b"
proof -
  assume b: "set b \<inter> {NUL, CR, NL} = {}"
  then have "cstr (b @ [NL]) = b @ [NL]" by (intro cstr_id) auto
  with b show ?thesis by (auto simp: cut_line_def takeWhile_append takeWhile_eq_all_conv)
qed

text \<open>The text of a type description, and the type it describes.\<close>

definition field_line :: "string \<times> string \<Rightarrow> string" where
  "field_line = (\<lambda>(n, t). ''field '' @ n @ '' '' @ t @ [NL])"

definition type_lines :: "string \<Rightarrow> (string \<times> string) list \<Rightarrow> string list" where
  "type_lines name fs = [''struct '' @ name @ [NL]] @ map field_line fs @ [''end'' @ [NL]]"

fun layout_fields :: "nat \<Rightarrow> (string \<times> string) list \<Rightarrow> field_info list" where
  "layout_fields off [] = []"
| "layout_fields off ((n, t) # fs) =
     (let ft = fst (hk_parse_type t)
      in \<lparr> field_name = n, field_type = ft, field_offset = off, field_size = hk_type_size ft,
           field_type_name = (case snd (hk_parse_type t) of None \<Rightarrow> [] | Some x \<Rightarrow> x) \<rparr>
         # layout_fields (off + hk_type_size ft) fs)"

definition layout_size :: "(string \<times> string) list \<Rightarrow> nat" where
  "layout_size fs = sum_list (map (\<lambda>(n, t). hk_type_size (fst (hk_parse_type t))) fs)"

definition described_type :: "string \<Rightarrow> (string \<times> string) list \<Rightarrow> type_info" where
  "described_type name fs =
     \<lparr> type_name = name, type_size = layout_size fs, type_fields = layout_fields 0 fs,
       is_simple = False, base_type = TYPE_INT \<rparr>"

definition word_ok :: "string \<Rightarrow> bool" where
  "word_ok w \<longleftrightarrow>
     w \<noteq> [] \<and> length w < 64 \<and> (\<forall>c\<in>set w. \<not> isspace c) \<and> NUL \<notin> set w \<and> CHR ''#'' \<notin> set w"

lemma isspace_chars [simp]: "isspace CR" "isspace NL" "isspace TAB" "isspace CHR '' ''"
  by (simp_all add: isspace_def)

lemma word_ok_chars:
  assumes "word_ok w"
  shows "CR \<notin> set w" "NL \<notin> set w" "TAB \<notin> set w" "CHR '' '' \<notin> set w"
    "NUL \<notin> set w" "CHR ''#'' \<notin> set w" "w \<noteq> []" "length w < 64" "\<forall>c\<in>set w. \<not> isspace c"
  using assms isspace_chars unfolding word_ok_def by blast+

lemma strtok_last: "t \<noteq> [] \<Longrightarrow> set t \<inter> set ds = {} \<Longrightarrow> strtok ds t = [t]"
proof -
  assume "t \<noteq> []" and disj: "set t \<inter> set ds = {}"
  then obtain c r where t: "t = c # r" by (cases t) auto
  have tw: "takeWhile (\<lambda>x. x \<notin> set ds) r = r" "dropWhile (\<lambda>x. x \<notin> set ds) r = []"
    using disj by (auto simp: t takeWhile_eq_all_conv dropWhile_eq_Nil_conv)
  from disj show ?thesis by (simp add: strtok.simps [of ds "c # r"] t tw)
qed

lemma field_tokens:
  assumes "word_ok n" "word_ok t"
  shows "strtok ('' '' @ [TAB]) (takeWhile (\<lambda>c. c \<noteq> CHR ''#'') (''field '' @ n @ '' '' @ t))
    = [''field'', n, t]"
proof -
  note n = word_ok_chars [OF assms(1)] and t = word_ok_chars [OF assms(2)]
  have "takeWhile (\<lambda>c. c \<noteq> CHR ''#'') (''field '' @ n @ '' '' @ t) = ''field '' @ n @ '' '' @ t"
    using n(6) t(6) by (intro takeWhile_eq_all_conv [THEN iffD2]) auto
  moreover have "''field '' @ n @ '' '' @ t = ''field'' @ CHR '' '' # (n @ CHR '' '' # t)" by simp
  moreover have "strtok ('' '' @ [TAB]) (''field'' @ CHR '' '' # (n @ CHR '' '' # t))
      = ''field'' # strtok ('' '' @ [TAB]) (n @ CHR '' '' # t)"
    by (rule strtok_token) auto
  moreover have "strtok ('' '' @ [TAB]) (n @ CHR '' '' # t) = n # strtok ('' '' @ [TAB]) t"
    using n(3,4,7) by (intro strtok_token) auto
  moreover have "strtok ('' '' @ [TAB]) t = [t]"
    using t(3,4,7) by (intro strtok_last) auto
  ultimately show ?thesis by (simp only:)
qed

lemma data_field_line:
  assumes "word_ok n" "word_ok t"
  shows "data_line ok pid (field_line (n, t)) (\<lparr> current_type = Some ty, current_fields = fs \<rparr>, k) =
    (if length fs \<ge> HEAPKIT_MAX_FIELD then Fault OutOfBounds
     else Ret (Inr (\<lparr> current_type = Some (ty\<lparr>type_size := type_size ty
                        + hk_type_size (fst (hk_parse_type t))\<rparr>),
                      current_fields = fs @ layout_fields (type_size ty) [(n, t)] \<rparr>, k)))"
proof -
  note cn = word_ok_chars [OF assms(1)] and ct = word_ok_chars [OF assms(2)]
  have cut: "cut_line (field_line (n, t)) = ''field '' @ n @ '' '' @ t"
    using cut_line_text [of "''field '' @ n @ '' '' @ t"] cn ct by (simp add: field_line_def)
  have trim: "dropWhile isspace (''field '' @ n @ '' '' @ t) = ''field '' @ n @ '' '' @ t"
    by (simp add: isspace_def)
  have starts: "\<not> starts_with ''struct'' (''field '' @ n @ '' '' @ t)"
    "starts_with ''field'' (''field '' @ n @ '' '' @ t)" by (simp_all add: starts_with_def)
  have "data_field (''field '' @ n @ '' '' @ t) ty \<lparr> current_type = Some ty, current_fields = fs \<rparr> =
    (if length fs \<ge> HEAPKIT_MAX_FIELD then Fault OutOfBounds
     else Ret (\<lparr> current_type = Some (ty\<lparr>type_size := type_size ty
                        + hk_type_size (fst (hk_parse_type t))\<rparr>),
                 current_fields = fs @ layout_fields (type_size ty) [(n, t)] \<rparr>))"
    unfolding data_field_def Let_def field_tokens [OF assms]
    using cn(8) ct(8) by (simp add: copy_name_def Let_def split: prod.splits)
  then show ?thesis
    unfolding data_line_def prod.case cut Let_def trim using starts by simp
qed

lemma layout_fields_append:
  "layout_fields off (fs @ gs) = layout_fields off fs @ layout_fields (off + layout_size fs) gs"
  by (induction fs arbitrary: off) (auto simp: layout_size_def Let_def add.assoc)

lemma length_layout_fields [simp]: "length (layout_fields off fs) = length fs"
  by (induction off fs rule: layout_fields.induct) (auto simp: Let_def)

lemma data_field_lines:
  assumes "\<forall>(n, t)\<in>set gs. word_ok n \<and> word_ok t" "length fs + length gs \<le> HEAPKIT_MAX_FIELD"
    and "type_size ty = layout_size fs"
  shows "data_lines ok pid (map field_line gs @ ls)
      (\<lparr> current_type = Some ty, current_fields = layout_fields 0 fs \<rparr>, k)
    = data_lines ok pid ls
        (\<lparr> current_type = Some (ty\<lparr>type_size := layout_size (fs @ gs)\<rparr>),
           current_fields = layout_fields 0 (fs @ gs) \<rparr>, k)"
  using assms
proof (induction gs arbitrary: fs ty)
  case Nil
  then have "ty\<lparr>type_size := layout_size fs\<rparr> = ty" by (metis type_info.surjective type_info.update_convs(2) type_info.select_convs(2))
  then show ?case by simp
next
  case (Cons g gs)
  obtain n t where g: "g = (n, t)" by (cases g)
  have w: "word_ok n" "word_ok t" using Cons.prems(1) g by auto
  have len: "\<not> length (layout_fields 0 fs) \<ge> HEAPKIT_MAX_FIELD" using Cons.prems(2) by simp
  let ?ty = "ty\<lparr>type_size := layout_size (fs @ [g])\<rparr>"
  have "data_line ok pid (field_line g) (\<lparr> current_type = Some ty, current_fields = layout_fields 0 fs \<rparr>, k)
      = Ret (Inr (\<lparr> current_type = Some ?ty, current_fields = layout_fields 0 (fs @ [g]) \<rparr>, k))"
    unfolding g data_field_line [OF w] using len Cons.prems(3)
    by (simp add: layout_fields_append) (simp add: layout_size_def)
  with Cons.IH [of "fs @ [g]" ?ty] Cons.prems(1,2) show ?case by simp
qed

lemma data_struct_line:
  assumes "word_ok name"
  shows "data_line ok pid (''struct '' @ name @ [NL]) (d, k) =
    Ret (Inr (\<lparr> current_type = Some \<lparr> type_name = name, type_size = 0, type_fields = [],
                  is_simple = False, base_type = TYPE_INT \<rparr>, current_fields = [] \<rparr>, k))"
proof -
  note c = word_ok_chars [OF assms]
  have cut: "cut_line (''struct '' @ name @ [NL]) = ''struct '' @ name"
    using cut_line_text [of "''struct '' @ name"] c by simp
  have trim: "dropWhile isspace (''struct '' @ name) = ''struct '' @ name" by (simp add: isspace_def)
  have "dropWhile isspace name = name" "takeWhile (\<lambda>c. \<not> isspace c) name = name"
    using c(7,9) by (cases name, simp_all add: takeWhile_eq_all_conv)
  then have "scan_struct (''struct '' @ name) = Ret name"
    using c(7,8) unfolding scan_struct_def by (simp add: copy_name_def del: takeWhile_eq_all_conv)
  then show ?thesis
    unfolding data_line_def prod.case cut Let_def trim by (simp add: starts_with_def)
qed

lemma data_end_line:
  "data_line ok pid (''end'' @ [NL]) (\<lparr> current_type = Some ty, current_fields = fs \<rparr>, k) =
    outcome_bind (hk_type_register ok pid (Some (ty\<lparr>type_fields := fs\<rparr>)) k)
      (\<lambda>(r, k1). if r \<noteq> 0 then Ret (Inl k1)
                 else Ret (Inr (\<lparr> current_type = None, current_fields = [] \<rparr>, k1)))"
proof -
  have cut: "cut_line (''end'' @ [NL]) = ''end''" using cut_line_text [of "''end''"] by simp
  have trim: "dropWhile isspace ''end'' = ''end''" by (simp add: isspace_def)
  show ?thesis unfolding data_line_def prod.case cut Let_def trim by (simp add: starts_with_def)
qed

lemma type_lines_read:
  assumes "word_ok name" "\<forall>(n, t)\<in>set fs. word_ok n \<and> word_ok t"
  shows "fgets_lines 256 (concat (type_lines name fs)) = type_lines name fs"
proof (rule fgets_lines_concat, rule ballI)
  fix l
  assume "l \<in> set (type_lines name fs)"
  then consider "l = ''struct '' @ name @ [NL]" | "l = ''end'' @ [NL]"
    | n t where "l = field_line (n, t)" "word_ok n" "word_ok t"
    using assms(2) by (auto simp: type_lines_def)
  then show "\<exists>b. l = b @ [NL] \<and> NL \<notin> set b \<and> length b + 1 < 256"
  proof cases
    case 1
    then show ?thesis using word_ok_chars(2,8) [OF assms(1)] by (intro exI [of _ "''struct '' @ name"]) simp
  next
    case 2
    then show ?thesis by (intro exI [of _ "''end''"]) simp
  next
    case 3
    then show ?thesis
      using word_ok_chars(2,8) [OF 3(2)] word_ok_chars(2,8) [OF 3(3)]
      by (intro exI [of _ "''field '' @ n @ '' '' @ t"]) (simp add: field_line_def)
  qed
qed

section \<open>Properties\<close>

text \<open>
  C30. Reading a type description: a data file with one type of at most ten fields registers exactly
  the type it describes for the plugin. The fields have their declared types, lie one behind the
  other without gaps, and together fill the instance, which starts as zeros.
\<close>

theorem plugin_data_registers_type:
  assumes "hk_inv k" "word_ok name" "\<forall>(n, t)\<in>set fs. word_ok n \<and> word_ok t"
    and "length fs \<le> HEAPKIT_MAX_FIELD" "g_type_count k < MAX_REGISTERED_TYPES"
    and "find_registered pid name k = Ret None"
  shows "\<exists>k'. plugin_data_set True (Some (concat (type_lines name fs))) pid k = Ret (True, k')
    \<and> find_registered pid name k' = Ret (Some (g_type_count k)) \<and> hk_inv k'
    \<and> g_type_registry k' (g_type_count k) =
        \<lparr> reg_plugin_id = pid, reg_type_info = Some (described_type name fs),
          d_instance = Some (replicate (layout_size fs) 0) \<rparr>"
proof -
  let ?ty = "described_type name fs"
  have nul: "NUL \<notin> set (type_name ?ty)"
    using word_ok_chars(5) [OF assms(2)] by (simp add: described_type_def)
  have none: "find_registered pid (type_name ?ty) k = Ret None"
    using assms(6) by (simp add: described_type_def)
  have reg: "hk_type_register True pid (Some ?ty) k = Ret (0, hk_add_entry pid ?ty k)"
    using assms(5) none by (simp add: hk_type_register_def)
  have "plugin_data_set True (Some (concat (type_lines name fs))) pid k = Ret (True, hk_add_entry pid ?ty k)"
    unfolding plugin_data_set_def option.case type_lines_read [OF assms(2,3)]
    using data_field_lines [OF assms(3), of "[]" "\<lparr> type_name = name, type_size = 0, type_fields = [],
        is_simple = False, base_type = TYPE_INT \<rparr>" True pid "[''end'' @ [NL]]" k] assms(4) reg
    by (simp add: type_lines_def data_struct_line [OF assms(2), simplified] data_end_line [simplified]
        layout_size_def [of "[]"] described_type_def)
  with hk_add_entry_ok [OF assms(1) nul assms(5) none] show ?thesis
    by (simp add: described_type_def hk_add_entry_def)
qed

theorem plugin_data_registers_type_witness:
  "\<exists>k'. plugin_data_set True (Some (concat (type_lines ''cfg'' [(''n'', ''int''), (''ok'', ''bool'')]))) 3
      hk_initial = Ret (True, k')
    \<and> map field_offset (type_fields (the (reg_type_info (g_type_registry k' 0)))) = [0, 4]"
proof -
  have "word_ok ''cfg''" "\<forall>(n, t)\<in>set [(''n'', ''int''), (''ok'', ''bool'')]. word_ok n \<and> word_ok t"
    "length [(''n'', ''int''), (''ok'', ''bool'')] \<le> HEAPKIT_MAX_FIELD"
    "g_type_count hk_initial < MAX_REGISTERED_TYPES" "g_type_count hk_initial = 0"
    "find_registered 3 ''cfg'' hk_initial = Ret None"
    by (simp_all add: word_ok_def isspace_def HEAPKIT_MAX_FIELD_def MAX_REGISTERED_TYPES_def
        hk_initial_def find_registered_def)
  with plugin_data_registers_type [OF hk_inv_initial, of "''cfg''"
      "[(''n'', ''int''), (''ok'', ''bool'')]" 3]
  show ?thesis by (auto simp: described_type_def hk_parse_type_def hk_type_size_def Let_def)
qed

text \<open>
  The array for the fields of a type has ten entries, and nothing checks the index: a data file
  that declares an eleventh field makes the loader write past the end of the array.
\<close>

theorem plugin_data_eleventh_field:
  assumes "word_ok name" "\<forall>(n, t)\<in>set fs. word_ok n \<and> word_ok t" "HEAPKIT_MAX_FIELD < length fs"
  shows "plugin_data_set ok (Some (concat (type_lines name fs))) pid k = Fault OutOfBounds"
proof -
  define gs where "gs = take HEAPKIT_MAX_FIELD fs"
  obtain n t hs where fs: "fs = gs @ (n, t) # hs"
    using assms(3) id_take_nth_drop [OF assms(3)] unfolding gs_def by (metis surj_pair)
  have len: "length gs = HEAPKIT_MAX_FIELD" using assms(3) by (simp add: gs_def)
  have w: "\<forall>(n, t)\<in>set gs. word_ok n \<and> word_ok t" "word_ok n" "word_ok t"
    using assms(2) by (auto simp: fs)
  let ?ty = "\<lparr> type_name = name, type_size = 0, type_fields = [], is_simple = False, base_type = TYPE_INT \<rparr>"
  let ?rest = "field_line (n, t) # map field_line hs @ [''end'' @ [NL]]"
  have "data_lines ok pid (map field_line gs @ ?rest)
      (\<lparr> current_type = Some ?ty, current_fields = layout_fields 0 [] \<rparr>, k) = Fault OutOfBounds"
    using data_field_lines [OF w(1), of "[]" ?ty ok pid ?rest k] len data_field_line [OF w(2,3), of ok pid]
    by (simp add: layout_size_def)
  then show ?thesis
    unfolding plugin_data_set_def option.case type_lines_read [OF assms(1,2)]
    by (simp add: type_lines_def fs data_struct_line [OF assms(1), simplified])
qed

theorem plugin_data_eleventh_field_witness:
  "plugin_data_set True (Some (concat (type_lines ''t'' (replicate 11 (''f'', ''int''))))) 1 hk_initial
    = Fault OutOfBounds"
  by (rule plugin_data_eleventh_field) (simp_all add: word_ok_def isspace_def HEAPKIT_MAX_FIELD_def)

definition plain :: "string \<Rightarrow> bool" where
  "plain v \<longleftrightarrow> set v \<inter> {NUL, CR, NL} = {} \<and> length v < 200 \<and> (v \<noteq> [] \<longrightarrow> hd v \<noteq> CHR '' '')"

lemma trim_plain: "plain v \<Longrightarrow> dropWhile (\<lambda>c. c = CHR '' '') v = v"
  by (cases v) (auto simp: plain_def)

lemma show_int_chars: "c \<in> set (show_int i) \<Longrightarrow> is_digit c \<or> c = CHR ''-''"
  using show_nat_digits by (auto simp: show_int_def split: if_splits)

lemma length_show_nat: "n < 10 ^ (k + 1) \<Longrightarrow> length (show_nat n) \<le> k + 1"
proof (induction k arbitrary: n)
  case 0
  then show ?case by (simp add: show_nat.simps)
next
  case (Suc k)
  then have "n div 10 < 10 ^ (k + 1)" by (simp add: div_less_iff_less_mult)
  with Suc.IH [of "n div 10"] show ?case by (simp add: show_nat.simps [of n])
qed

lemma fmt_d_plain: "plain (fmt_d w)"
proof -
  have no: "\<not> is_digit NUL" "\<not> is_digit CR" "\<not> is_digit NL" "\<not> is_digit CHR '' ''"
    by (simp_all add: is_digit_def)
  have chars: "c \<noteq> NUL \<and> c \<noteq> CR \<and> c \<noteq> NL \<and> c \<noteq> CHR '' ''" if "c \<in> set (fmt_d w)" for c
    using show_int_chars [of c "sint w"] that no by (auto simp: fmt_d_def)
  have "nat (sint w) < 10 ^ (9 + 1)" "nat (- sint w) < 10 ^ (9 + 1)"
    using sint_greater_eq [of w] sint_less [of w] by simp_all
  from length_show_nat [OF this(1)] length_show_nat [OF this(2)] have "length (fmt_d w) < 200"
    by (simp add: show_int_def fmt_d_def)
  moreover have "set (fmt_d w) \<inter> {NUL, CR, NL} = {}" using chars by blast
  moreover have "fmt_d w \<noteq> [] \<longrightarrow> hd (fmt_d w) \<noteq> CHR '' ''" using chars hd_in_set by blast
  ultimately show ?thesis unfolding plain_def by blast
qed

lemma parse_code_fmt_d [simp]: "parse_code (fmt_d w) = w"
proof -
  have "clamp_long (sint w) = sint w"
    using sint_greater_eq [of w] sint_less [of w]
    by (simp add: clamp_long_def LONG_MAX_def LONG_MIN_def)
  then show ?thesis using show_int_strtol [of "[]" "sint w"] by (simp add: parse_code_def fmt_d_def)
qed

text \<open>A line \<open>key=value\<close> of the manifest.\<close>

lemma manifest_key_line:
  assumes "plain v" "k \<noteq> []" "set k \<inter> {NUL, CR, NL, CHR ''='', CHR '' '', CHR ''#'', CHR ''-''} = {}"
  shows "manifest_line ok (k @ ''='' @ v @ [NL]) h = Some
    (if strcaseeq k ''Name'' then h\<lparr>info_name := Some (Malloced v)\<rparr>
     else if strcaseeq k ''Version'' then h\<lparr>info_version := Some (Malloced v)\<rparr>
     else if strcaseeq k ''Code'' then h\<lparr>info_code := parse_code v\<rparr> else h)"
proof -
  obtain c r where k: "k = c # r" using assms(2) by (cases k) auto
  have "set (k @ ''='' @ v) \<inter> {NUL, CR, NL} = {}" using assms(1,3) by (auto simp: plain_def)
  from cut_line_text [OF this] have cut: "cut_line (k @ ''='' @ v @ [NL]) = k @ ''='' @ v" by simp
  have sc: "strchr (k @ ''='' @ v) CHR ''='' = Some (k, v)"
    using strchr_append [of "CHR ''=''" k v] assms(3) by simp
  have "dropWhile (\<lambda>c. c = CHR '' '') k = k" using assms(3) by (auto simp: k)
  moreover have "\<not> starts_with ''--'' (k @ ''='' @ v)" "hd (k @ ''='' @ v) \<noteq> CHR ''#''"
    using assms(3) by (auto simp: k starts_with_def)
  ultimately show ?thesis
    unfolding manifest_line_def cut Let_def using sc trim_plain [OF assms(1)] by simp
qed

lemma manifest_param_line:
  assumes "plain v" "set k \<inter> {NUL, CR, NL, CHR ''=''} = {}"
  shows "manifest_line ok (''--'' @ k @ ''='' @ v @ [NL]) h = (if \<not> ok then None else Some (add_param k v h))"
proof -
  have "set (''--'' @ k @ ''='' @ v) \<inter> {NUL, CR, NL} = {}" using assms by (auto simp: plain_def)
  from cut_line_text [OF this] have cut: "cut_line (''--'' @ k @ ''='' @ v @ [NL]) = ''--'' @ k @ ''='' @ v"
    by simp
  have "strchr (k @ ''='' @ v) CHR ''='' = Some (k, v)"
    using strchr_append [of "CHR ''=''" k v] assms(2) by simp
  then show ?thesis
    unfolding manifest_line_def cut Let_def by (simp add: starts_with_def)
qed

text \<open>
  The manifest: a line of each kind sets the name, the version and the code and adds the
  parameter it states, and the plugin takes the next identifier. The code is any 32-bit number,
  and values may contain the equals sign.
\<close>

theorem plugin_manifest_read:
  assumes "plain n" "plain v" "plain pv" "length pk < 40" "set pk \<inter> {NUL, CR, NL, CHR ''=''} = {}"
  shows "plugin_manifest_set True (Some (concat [''Name='' @ n @ [NL], ''Version='' @ v @ [NL],
        ''Code='' @ fmt_d c @ [NL], ''--'' @ pk @ ''='' @ pv @ [NL]])) (zero_handle, l)
    = (True, zero_handle\<lparr>info_name := Some (Malloced n), info_version := Some (Malloced v),
         info_code := c, params := [(pk, pv)], param_count := 1, info_id := current_id l\<rparr>,
       l\<lparr>current_id := current_id l + 1\<rparr>)"
proof -
  let ?ls = "[''Name='' @ n @ [NL], ''Version='' @ v @ [NL], ''Code='' @ fmt_d c @ [NL],
      ''--'' @ pk @ ''='' @ pv @ [NL]]"
  have p: "NL \<notin> set x \<and> length x < 200" if "plain x" for x using that by (auto simp: plain_def)
  have "\<exists>b. x = b @ [NL] \<and> NL \<notin> set b \<and> length b + 1 < 256" if "x \<in> set ?ls" for x
    using that p [OF assms(1)] p [OF assms(2)] p [OF assms(3)] p [OF fmt_d_plain, of c] assms(4,5)
    by (auto intro: exI [of _ "''Name='' @ n"] exI [of _ "''Version='' @ v"]
        exI [of _ "''Code='' @ fmt_d c"] exI [of _ "''--'' @ pk @ ''='' @ pv"])
  then have lines: "fgets_lines 256 (concat ?ls) = ?ls" by (intro fgets_lines_concat) blast
  have "manifest_line True (''Name='' @ n @ [NL]) h = Some (h\<lparr>info_name := Some (Malloced n)\<rparr>)" for h
    using manifest_key_line [OF assms(1), of "''Name''" True h] by (simp add: strcaseeq_def tolower_def)
  moreover have "manifest_line True (''Version='' @ v @ [NL]) h = Some (h\<lparr>info_version := Some (Malloced v)\<rparr>)" for h
    using manifest_key_line [OF assms(2), of "''Version''" True h] by (simp add: strcaseeq_def tolower_def)
  moreover have "manifest_line True (''Code='' @ fmt_d c @ [NL]) h = Some (h\<lparr>info_code := c\<rparr>)" for h
    using manifest_key_line [OF fmt_d_plain, of "''Code''" True c h] by (simp add: strcaseeq_def tolower_def)
  moreover note manifest_param_line [OF assms(3,5)]
  ultimately show ?thesis
    unfolding plugin_manifest_set_def option.case prod.case lines Let_def
    by (simp add: zero_handle_def add_param_def)
qed

theorem plugin_manifest_read_witness:
  "plugin_manifest_set True (Some (concat [''Name='' @ ''mqtt'' @ [NL], ''Version='' @ ''1.0'' @ [NL],
        ''Code='' @ fmt_d (- 7) @ [NL], ''--'' @ ''url'' @ ''='' @ ''a=b'' @ [NL]])) (zero_handle,
        \<lparr> current_id = 4, ld_hk = hk_initial, jit_symbols = True \<rparr>)
    = (True, zero_handle\<lparr>info_name := Some (Malloced ''mqtt''), info_version := Some (Malloced ''1.0''),
         info_code := - 7, params := [(''url'', ''a=b'')], param_count := 1, info_id := 4\<rparr>,
       \<lparr> current_id = 5, ld_hk = hk_initial, jit_symbols = True \<rparr>)"
proof -
  have "plain ''mqtt''" "plain ''1.0''" "plain ''a=b''" "length ''url'' < 40"
    "set ''url'' \<inter> {NUL, CR, NL, CHR ''=''} = {}" by (simp_all add: plain_def)
  from plugin_manifest_read [OF this, of "- 7" "\<lparr> current_id = 4, ld_hk = hk_initial, jit_symbols = True \<rparr>"]
  show ?thesis by simp
qed

lemma stub_setup_ok:
  assumes "plugin_stub_setup symbols made h = (0, h')"
  shows "info_id h' = info_id h \<and> info_name h' = info_name h \<and> symbols
    \<and> subscribe (handle_api h') = Some (info_id h) \<and> timer_every_ms (handle_api h') = Some (info_id h)
    \<and> timer_after_ms (handle_api h') = Some (info_id h) \<and> timer_cancel (handle_api h') = Some (info_id h)
    \<and> hk_getter (handle_api h') = Some (info_id h) \<and> hk_setter (handle_api h') = Some (info_id h)
    \<and> publish (handle_api h') \<and> get_plugin_id (handle_api h')"
  using assms
  by (auto simp: plugin_stub_setup_def stub_setters_def numeral_eq_Suc plugin_stub_one_def
      split: if_splits option.splits)

lemma load_failed_not_Some: "load_failed h l \<noteq> Ret (Some h', l')"
  by (simp add: load_failed_def)

definition sample_env :: "string option \<Rightarrow> load_env" where
  "sample_env data =
     \<lparr> le_calloc_ok = True, le_realloc_ok = True, le_manifest = Some (''Name=x'' @ [NL]), le_data = data,
       le_type_calloc_ok = True, le_stubs = (\<lambda>_. True), le_dlopen_ok = True,
       le_sym_initialize = True, le_sym_start = True, le_sym_stop = True, le_sym_shutdown = True \<rparr>"

lemma name_manifest:
  "manifest_lines ok (fgets_lines 256 (''Name=x'' @ [NL])) h = (True, h\<lparr>info_name := Some (Malloced ''x'')\<rparr>)"
proof -
  have "fgets_lines 256 (''Name=x'' @ [NL]) = [''Name=x'' @ [NL]]"
    using fgets_lines_concat [of "[''Name=x'' @ [NL]]" 256] by simp
  then show ?thesis
    using manifest_key_line [of "''x''" "''Name''" ok h] by (simp add: plain_def strcaseeq_def)
qed

lemma sample_load:
  assumes "jit_symbols l"
  shows "\<exists>h l'. plugin_load (sample_env (Some [])) d p m f l = Ret (Some h, l') \<and> jit_symbols l'
    \<and> info_name h = Some (Malloced ''x'') \<and> info_version h = None \<and> hot_state h = PLUGIN_STATE_ALIVE
    \<and> fn_initialize h \<and> fn_start h \<and> fn_stop h \<and> fn_shutdown h"
  using assms
  unfolding plugin_load_def plugin_manifest_set_def sample_env_def Let_def load_env.select_convs
    option.case prod.case name_manifest
  by (simp add: plugin_data_set_def fgets_lines.simps plugin_api_obj_fns_set_def
      plugin_stub_setup_def stub_setters_def numeral_eq_Suc plugin_stub_one_def zero_handle_def)

lemma plugin_load_facts:
  assumes "plugin_load env name p mp dp l = Ret (Some h, l')"
  shows "info_id h = current_id l \<and> current_id l' = current_id l + 1 \<and> fn_initialize h
    \<and> subscribe (handle_api h) = Some (info_id h) \<and> timer_every_ms (handle_api h) = Some (info_id h)
    \<and> timer_after_ms (handle_api h) = Some (info_id h) \<and> timer_cancel (handle_api h) = Some (info_id h)
    \<and> hk_getter (handle_api h) = Some (info_id h) \<and> hk_setter (handle_api h) = Some (info_id h)
    \<and> publish (handle_api h) \<and> get_plugin_id (handle_api h) \<and> so h"
proof -
  let ?h0 = "zero_handle\<lparr>info_name := Some (Foreign name), info_version := None\<rparr>"
  obtain ok h1 l1 where man: "plugin_manifest_set (le_realloc_ok env) (le_manifest env) (?h0, l) = (ok, h1, l1)"
    by (metis prod_cases3)
  have ok: "ok" using assms man load_failed_not_Some by (cases ok) (auto simp: plugin_load_def split: if_splits)
  with man have l1: "info_id h1 = current_id l" "current_id l1 = current_id l + 1"
    by (auto simp: plugin_manifest_set_def Let_def split: option.splits prod.splits bool.splits)
  from assms man ok obtain k r h2 where stub:
    "plugin_api_obj_fns_set (jit_symbols l1) (le_stubs env) h1 = (r, h2)" "r = 0"
    "h = h2\<lparr>so := True, fn_initialize := le_sym_initialize env, fn_start := le_sym_start env,
        fn_stop := le_sym_stop env, fn_shutdown := le_sym_shutdown env, path := Some p,
        manifest_path := Some mp, data_path := Some dp\<rparr>"
    "le_sym_initialize env" "l' = l1\<lparr>ld_hk := k\<rparr>"
    by (auto simp: plugin_load_def Let_def load_failed_not_Some split: if_splits prod.splits)
  obtain h3 where "plugin_stub_setup (jit_symbols l1) (le_stubs env) h1 = (0, h3)"
    "h2 = h3\<lparr>handle_api := (handle_api h3)\<lparr>abi_version := CORECDTL_ABI_VERSION\<rparr>\<rparr>"
    using stub(1,2) by (auto simp: plugin_api_obj_fns_set_def split: prod.splits if_splits)
  from stub_setup_ok [OF this(1)] this(2) stub(3-5) l1 show ?thesis by simp
qed

text \<open>
  C31. A plugin that is loaded has the identifier that was next, its six personal functions of the
  core API all pass on that identifier and no other, the shared functions are set, and it has an
  initialize function; the next plugin gets the next identifier.
\<close>

theorem plugin_load_binds_id:
  assumes "plugin_load env name p mp dp l = Ret (Some h, l')"
  shows "info_id h = current_id l \<and> current_id l' = current_id l + 1 \<and> fn_initialize h
    \<and> subscribe (handle_api h) = Some (info_id h) \<and> timer_every_ms (handle_api h) = Some (info_id h)
    \<and> timer_after_ms (handle_api h) = Some (info_id h) \<and> timer_cancel (handle_api h) = Some (info_id h)
    \<and> hk_getter (handle_api h) = Some (info_id h) \<and> hk_setter (handle_api h) = Some (info_id h)
    \<and> publish (handle_api h) \<and> get_plugin_id (handle_api h)"
  using plugin_load_facts [OF assms] by blast

theorem plugin_load_binds_id_witness:
  "\<exists>h l'. plugin_load (sample_env (Some [])) ''d'' ''p'' ''m'' ''f''
      \<lparr> current_id = 4, ld_hk = hk_initial, jit_symbols = True \<rparr> = Ret (Some h, l')
    \<and> info_id h = 4 \<and> current_id l' = 5 \<and> subscribe (handle_api h) = Some 4"
proof -
  let ?l = "\<lparr> current_id = 4, ld_hk = hk_initial, jit_symbols = True \<rparr>"
  obtain h l' where h: "plugin_load (sample_env (Some [])) ''d'' ''p'' ''m'' ''f'' ?l = Ret (Some h, l')"
    using sample_load [of ?l "''d''" "''p''" "''m''" "''f''"] by auto
  with plugin_load_binds_id [OF h] show ?thesis by auto
qed

lemma sample_load_fails:
  "plugin_load (sample_env None) d p m f l = Ret (None, l\<lparr>current_id := current_id l + 1\<rparr>)"
  unfolding plugin_load_def plugin_manifest_set_def sample_env_def Let_def load_env.select_convs
    option.case prod.case name_manifest
  by (simp add: plugin_data_set_def load_failed_def plugin_free_info_def c_free_def zero_handle_def)

text \<open>
  Until the manifest gives a name, the handle's name points into the directory entry, and every
  failure frees it: a plugin directory without a readable manifest, or one whose manifest has no
  name and whose data file is missing, ends in a \<open>free\<close> of memory that \<open>malloc\<close> did not return.
  With a name the failed plugin is only skipped, but its identifier is used up.
\<close>

theorem plugin_load_failure:
  assumes "le_calloc_ok env"
  shows "(le_manifest env = None \<longrightarrow> plugin_load env name p mp dp l = Fault InvalidFree)
    \<and> (le_manifest env = Some [] \<and> le_data env = None \<longrightarrow>
         plugin_load env name p mp dp l = Fault InvalidFree)
    \<and> (le_manifest env = Some (''Name=x'' @ [NL]) \<and> le_data env = None \<longrightarrow>
         plugin_load env name p mp dp l = Ret (None, l\<lparr>current_id := current_id l + 1\<rparr>))"
proof (intro conjI impI)
  have lines: "fgets_lines 256 [] = []" by (simp add: fgets_lines.simps)
  show "le_manifest env = None \<Longrightarrow> plugin_load env name p mp dp l = Fault InvalidFree"
    using assms by (simp add: plugin_load_def plugin_manifest_set_def load_failed_def
        plugin_free_info_def c_free_def)
  show "le_manifest env = Some [] \<and> le_data env = None \<Longrightarrow>
      plugin_load env name p mp dp l = Fault InvalidFree"
    using assms lines by (simp add: plugin_load_def plugin_manifest_set_def plugin_data_set_def
        load_failed_def plugin_free_info_def c_free_def Let_def)
  show "le_manifest env = Some (''Name=x'' @ [NL]) \<and> le_data env = None \<Longrightarrow>
      plugin_load env name p mp dp l = Ret (None, l\<lparr>current_id := current_id l + 1\<rparr>)"
    using assms name_manifest [simplified] by (simp add: plugin_load_def plugin_manifest_set_def
        plugin_data_set_def load_failed_def plugin_free_info_def c_free_def Let_def zero_handle_def)
qed

theorem plugin_load_failure_witness:
  "plugin_load (sample_env None) ''d'' ''p'' ''m'' ''f''
      \<lparr> current_id = 4, ld_hk = hk_initial, jit_symbols = True \<rparr>
    = Ret (None, \<lparr> current_id = 5, ld_hk = hk_initial, jit_symbols = True \<rparr>)"
  using plugin_load_failure [of "sample_env None" "''d''" "''p''" "''m''" "''f''"
      "\<lparr> current_id = 4, ld_hk = hk_initial, jit_symbols = True \<rparr>"]
  by (simp add: sample_env_def)

end
