(* ===== verification/PluginManager.thy ===== *)
theory PluginManager
  imports PluginLoader StrUtils
begin

text \<open>
  src/plugin/plugin_manager.c: the table of loaded plugins, the search by name and by identifier,
  and the operations that stop, start and end a plugin.

  The entry points of a plugin are code of the plugin: an operation takes their answers as
  arguments and records the calls it makes in \<open>pm_calls\<close>, with the index of the plugin and the
  answer. Reading \<open>plugins\<close> while it is NULL, and reading a name that still points into the closed
  directory, are faults. Lines for the log file are left out.
\<close>

section \<open>State\<close>

datatype plugin_call = Call_initialize c_int | Call_start c_int | Call_stop | Call_shutdown

record pm =
  plugins :: "plugin_handle list option"
  plugins_count :: nat
  plugins_capacity :: nat
  pm_calls :: "(nat \<times> plugin_call) list"

definition pm_initial :: pm where
  "pm_initial = \<lparr> plugins = None, plugins_count = 0, plugins_capacity = 0, pm_calls = [] \<rparr>"

datatype plugin_op_result =
    PLUGIN_OP_SUCCESS | PLUGIN_OP_INVALID_ID | PLUGIN_OP_NOT_FOUND | PLUGIN_OP_ALREADY_IN_STATE
  | PLUGIN_OP_FUNC_NOT_AVAILABLE | PLUGIN_OP_FUNC_FAILED

text \<open>\<open>plugins[i]\<close> read and written, and a call of an entry point.\<close>

definition plugin_at :: "nat \<Rightarrow> pm \<Rightarrow> plugin_handle outcome" where
  "plugin_at i p =
     (case plugins p of
        None \<Rightarrow> Fault NullDeref
      | Some hs \<Rightarrow> if i < length hs then Ret (hs ! i) else Fault OutOfBounds)"

definition put_plugin :: "nat \<Rightarrow> plugin_handle \<Rightarrow> pm \<Rightarrow> pm" where
  "put_plugin i h p = p\<lparr>plugins := map_option (\<lambda>hs. hs[i := h]) (plugins p)\<rparr>"

definition pm_call :: "nat \<Rightarrow> plugin_call \<Rightarrow> pm \<Rightarrow> pm" where
  "pm_call i c p = p\<lparr>pm_calls := pm_calls p @ [(i, c)]\<rparr>"

section \<open>Operations on a plugin\<close>

text \<open>The result is the index; \<open>None\<close> is NULL.\<close>

definition get_plugin_by_id :: "plugin_id \<Rightarrow> pm \<Rightarrow> nat option" where
  "get_plugin_by_id i p =
     (if i = PLUGIN_ID_INVALID \<or> unat i > plugins_count p then None else Some (unat i - 1))"

definition with_plugin ::
    "plugin_id \<Rightarrow> (nat \<Rightarrow> plugin_handle \<Rightarrow> (plugin_op_result \<times> pm) outcome) \<Rightarrow> pm
      \<Rightarrow> (plugin_op_result \<times> pm) outcome" where
  "with_plugin plugin_id body p =
     (if plugin_id = PLUGIN_ID_INVALID then Ret (PLUGIN_OP_INVALID_ID, p)
      else (case get_plugin_by_id plugin_id p of
              None \<Rightarrow> Ret (PLUGIN_OP_NOT_FOUND, p)
            | Some i \<Rightarrow> outcome_bind (plugin_at i p) (body i)))"

definition plugin_shutdown :: "plugin_id \<Rightarrow> pm \<Rightarrow> (plugin_op_result \<times> pm) outcome" where
  "plugin_shutdown plugin_id p =
     with_plugin plugin_id (\<lambda>i h.
       if hot_state h = PLUGIN_STATE_KILLED then Ret (PLUGIN_OP_ALREADY_IN_STATE, p)
       else
         let p1 = (if fn_stop h \<and> hot_state h \<noteq> PLUGIN_STATE_STOPPED then pm_call i Call_stop p else p);
             p2 = (if fn_shutdown h then pm_call i Call_shutdown p1 else p1)
         in Ret (PLUGIN_OP_SUCCESS, put_plugin i (h\<lparr>hot_state := PLUGIN_STATE_KILLED\<rparr>) p2)) p"

definition plugin_initialize ::
    "c_int \<Rightarrow> c_int \<Rightarrow> plugin_id \<Rightarrow> pm \<Rightarrow> (plugin_op_result \<times> pm) outcome" where
  "plugin_initialize init_ret start_ret plugin_id p =
     with_plugin plugin_id (\<lambda>i h.
       if hot_state h \<ge> PLUGIN_STATE_KILLED then Ret (PLUGIN_OP_ALREADY_IN_STATE, p)
       else if \<not> fn_initialize h then Ret (PLUGIN_OP_FUNC_NOT_AVAILABLE, p)
       else
         let p1 = pm_call i (Call_initialize init_ret) p
         in if init_ret \<noteq> 0 then Ret (PLUGIN_OP_FUNC_FAILED, p1)
            else
              let p2 = (if fn_start h then pm_call i (Call_start start_ret) p1 else p1)
              in Ret (PLUGIN_OP_SUCCESS, put_plugin i (h\<lparr>hot_state := PLUGIN_STATE_ALIVE\<rparr>) p2)) p"

definition plugin_start :: "c_int \<Rightarrow> plugin_id \<Rightarrow> pm \<Rightarrow> (plugin_op_result \<times> pm) outcome" where
  "plugin_start start_ret plugin_id p =
     with_plugin plugin_id (\<lambda>i h.
       if hot_state h = PLUGIN_STATE_ALIVE then Ret (PLUGIN_OP_ALREADY_IN_STATE, p)
       else if \<not> fn_start h then Ret (PLUGIN_OP_SUCCESS, p)
       else
         let p1 = pm_call i (Call_start start_ret) p
         in if start_ret \<noteq> 0 then Ret (PLUGIN_OP_FUNC_FAILED, p1)
            else Ret (PLUGIN_OP_SUCCESS, put_plugin i (h\<lparr>hot_state := PLUGIN_STATE_ALIVE\<rparr>) p1)) p"

definition plugin_stop :: "plugin_id \<Rightarrow> pm \<Rightarrow> (plugin_op_result \<times> pm) outcome" where
  "plugin_stop plugin_id p =
     with_plugin plugin_id (\<lambda>i h.
       if hot_state h \<noteq> PLUGIN_STATE_ALIVE then Ret (PLUGIN_OP_ALREADY_IN_STATE, p)
       else if \<not> fn_stop h then Ret (PLUGIN_OP_FUNC_NOT_AVAILABLE, p)
       else Ret (PLUGIN_OP_SUCCESS,
              put_plugin i (h\<lparr>hot_state := PLUGIN_STATE_STOPPED\<rparr>) (pm_call i Call_stop p))) p"

text \<open>\<open>pm_action_reboot\<close>, for the gateway: action 1 starts, any other stops.\<close>

definition pm_action_reboot :: "c_int \<Rightarrow> plugin_id \<Rightarrow> byte \<Rightarrow> pm \<Rightarrow> (c_int \<times> pm) outcome" where
  "pm_action_reboot start_ret plugin_id action p =
     (case get_plugin_by_id plugin_id p of
        None \<Rightarrow> Ret (- 1, p)
      | Some i \<Rightarrow> outcome_bind (plugin_at i p) (\<lambda>h.
          if \<not> fn_start h \<or> \<not> fn_stop h then Ret (- 2, p)
          else if action = 1 then
            if hot_state h = PLUGIN_STATE_ALIVE then Ret (- 3, p)
            else Ret (0, put_plugin i (h\<lparr>hot_state := PLUGIN_STATE_ALIVE\<rparr>)
                           (pm_call i (Call_start start_ret) p))
          else
            if hot_state h = PLUGIN_STATE_STOPPED then Ret (- 3, p)
            else Ret (0, put_plugin i (h\<lparr>hot_state := PLUGIN_STATE_STOPPED\<rparr>)
                           (pm_call i Call_stop p))))"

section \<open>Searches and lists\<close>

definition get_plugins_count :: "pm \<Rightarrow> nat" where
  "get_plugins_count p = plugins_count p"

text \<open>The entries that a loop over \<open>plugins\<close> reads.\<close>

definition loop_plugins :: "pm \<Rightarrow> plugin_handle list outcome" where
  "loop_plugins p =
     (case plugins p of
        None \<Rightarrow> if plugins_count p = 0 then Ret [] else Fault NullDeref
      | Some hs \<Rightarrow> if plugins_count p \<le> length hs then Ret (take (plugins_count p) hs)
                  else Fault OutOfBounds)"

text \<open>The characters at a pointer; the directory entries are gone after \<open>closedir\<close>.\<close>

definition read_ptr :: "cptr \<Rightarrow> string outcome" where
  "read_ptr q = (case q of Malloced s \<Rightarrow> Ret s | Foreign _ \<Rightarrow> Fault UseAfterFree)"

text \<open>\<open>plugin_name\<close> is the buffer at the argument, terminator included.\<close>

fun p_id_search :: "simd_target \<Rightarrow> string \<Rightarrow> plugin_handle list \<Rightarrow> plugin_id outcome" where
  "p_id_search tgt plugin_name [] = Ret PLUGIN_ID_INVALID"
| "p_id_search tgt plugin_name (h # hs) =
     (case info_name h of
        None \<Rightarrow> p_id_search tgt plugin_name hs
      | Some q \<Rightarrow> outcome_bind (read_ptr q) (\<lambda>n. outcome_bind (optimized_strcmp tgt (n @ [NUL]) plugin_name) (\<lambda>c.
          if c = 0 then Ret (info_id h) else p_id_search tgt plugin_name hs)))"

definition plugin_get_p_id :: "simd_target \<Rightarrow> string option \<Rightarrow> pm \<Rightarrow> plugin_id outcome" where
  "plugin_get_p_id tgt plugin_name p =
     (case plugin_name of
        None \<Rightarrow> Ret PLUGIN_ID_INVALID
      | Some n \<Rightarrow> outcome_bind (loop_plugins p) (p_id_search tgt n))"

definition plugin_get_name :: "plugin_id \<Rightarrow> pm \<Rightarrow> cptr option outcome" where
  "plugin_get_name plugin_id p =
     (if plugin_id = PLUGIN_ID_INVALID \<or> unat plugin_id > plugins_count p then Ret None
      else outcome_bind (plugin_at (unat plugin_id - 1) p) (\<lambda>h. Ret (info_name h)))"

text \<open>
  \<open>plugin_bridge_get_fn_ptr\<close>; the result is the index of the plugin whose library the function
  comes from. \<open>dlsym i f\<close> says whether the library of plugin \<open>i\<close> exports \<open>f\<close>.
\<close>

definition plugin_bridge_get_fn_ptr ::
    "simd_target \<Rightarrow> (nat \<Rightarrow> string \<Rightarrow> bool) \<Rightarrow> string option \<Rightarrow> string \<Rightarrow> pm \<Rightarrow> nat option outcome" where
  "plugin_bridge_get_fn_ptr tgt dlsym plugin_name fn_name p =
     outcome_bind (plugin_get_p_id tgt plugin_name p) (\<lambda>plugin_id.
       case get_plugin_by_id plugin_id p of
         None \<Rightarrow> Ret None
       | Some i \<Rightarrow> outcome_bind (plugin_at i p) (\<lambda>h.
           if \<not> so h then Ret None
           else if \<not> dlsym i fn_name then Ret None
           else Ret (Some i)))"

text \<open>The list for the gateway: an entry is written whole or ends the list.\<close>

definition fmt_ptr :: "cptr option \<Rightarrow> string outcome" where
  "fmt_ptr q = (case q of None \<Rightarrow> Ret ''(null)'' | Some r \<Rightarrow> read_ptr r)"

definition pm_entry :: "plugin_handle \<Rightarrow> string outcome" where
  "pm_entry h =
     outcome_bind (fmt_ptr (info_name h)) (\<lambda>n. outcome_bind (fmt_ptr (info_version h)) (\<lambda>v.
       Ret (snprintf 256
         (''['' @ n @ ''] '' @ fmt_d (info_id h) @ '' ['' @ v @ ''] '' @ fmt_d (info_code h) @ '' ''
          @ show_nat (state_value (hot_state h)) @ '' ''
          @ (if fn_start h \<and> fn_stop h then ''1'' else ''0'') @ [NL]))))"

fun pm_list_entries :: "nat \<Rightarrow> plugin_handle list \<Rightarrow> string \<Rightarrow> string outcome" where
  "pm_list_entries out_buf_size [] out_buf = Ret out_buf"
| "pm_list_entries out_buf_size (h # hs) out_buf =
     outcome_bind (pm_entry h) (\<lambda>temp_buf.
       let space_left = out_buf_size - length out_buf - 1
       in if length temp_buf < space_left
          then pm_list_entries out_buf_size hs (strncat out_buf temp_buf space_left)
          else Ret out_buf)"

definition pm_list_head :: string where
  "pm_list_head = ''[on_data] [pm]'' @ [NL] @ ''[getall]'' @ [NL]"

definition pm_list_serialize :: "nat \<Rightarrow> pm \<Rightarrow> string outcome" where
  "pm_list_serialize out_buf_size p =
     (if out_buf_size = 0 then Fault OutOfBounds
      else outcome_bind (loop_plugins p) (\<lambda>hs.
        pm_list_entries out_buf_size hs (strncat [] (snprintf 256 pm_list_head) (out_buf_size - 1))))"

section \<open>Loading all plugins\<close>

text \<open>\<open>FREE_PLUGIN_HANDLE\<close>: what the macro frees, and the handle of zeros it leaves.\<close>

definition free_plugin_handle :: "plugin_handle \<Rightarrow> plugin_handle outcome" where
  "free_plugin_handle h =
     outcome_bind (c_free (info_name h)) (\<lambda>_. outcome_bind (c_free (info_version h)) (\<lambda>_.
       Ret zero_handle))"

text \<open>A loaded plugin enters the table; after a failed \<open>realloc\<close> the table is NULL.\<close>

definition pm_append :: "bool \<Rightarrow> plugin_handle \<Rightarrow> pm \<Rightarrow> pm outcome" where
  "pm_append realloc_ok h p =
     (let full = plugins_count p \<ge> plugins_capacity p;
          p1 = (if full
                then p\<lparr>plugins_capacity := (if plugins_capacity p \<noteq> 0 then plugins_capacity p * 2 else 10),
                       plugins := (if realloc_ok
                                   then Some (case plugins p of None \<Rightarrow> [] | Some hs \<Rightarrow> hs) else None)\<rparr>
                else p)
      in if full \<and> \<not> realloc_ok then Ret p1
         else (case plugins p1 of
                 None \<Rightarrow> Fault NullDeref
               | Some hs \<Rightarrow> Ret (p1\<lparr>plugins := Some (take (plugins_count p1) hs @ [h]),
                                    plugins_count := plugins_count p1 + 1\<rparr>)))"

record dir_entry =
  d_name :: string
  d_type_dir :: bool

definition PLUGIN_LIB_DIR :: string where "PLUGIN_LIB_DIR = ''plugin-libs''"
definition PLUGIN_MANIFEST_FILE :: string where "PLUGIN_MANIFEST_FILE = ''manifest.config''"
definition PLUGIN_DATA_FILE :: string where "PLUGIN_DATA_FILE = ''types.data''"

definition plugin_file :: "string \<Rightarrow> string \<Rightarrow> string" where
  "plugin_file d f = snprintf 512 (PLUGIN_LIB_DIR @ ''/'' @ d @ ''/'' @ f)"

text \<open>The loop over the directory, with what the environment answers for each entry.\<close>

fun plugin_scan :: "(dir_entry \<times> load_env \<times> bool) list \<Rightarrow> pm \<times> loader \<Rightarrow> (pm \<times> loader) outcome" where
  "plugin_scan [] st = Ret st"
| "plugin_scan ((entry, env, realloc_ok) # es) (p, l) =
     (if \<not> d_type_dir entry \<or> starts_with ''.'' (d_name entry) then plugin_scan es (p, l)
      else outcome_bind (plugin_load env (d_name entry) (plugin_file (d_name entry) (d_name entry @ ''.so''))
             (plugin_file (d_name entry) PLUGIN_MANIFEST_FILE)
             (plugin_file (d_name entry) PLUGIN_DATA_FILE) l) (\<lambda>(r, l1).
        case r of
          None \<Rightarrow> plugin_scan es (p, l1)
        | Some h \<Rightarrow> outcome_bind (pm_append realloc_ok h p) (\<lambda>p1. plugin_scan es (p1, l1))))"

text \<open>The second loop: every plugin is initialized and started, or its handle is cleared.\<close>

definition plugin_bring_up :: "c_int \<Rightarrow> c_int \<Rightarrow> nat \<Rightarrow> pm \<Rightarrow> pm outcome" where
  "plugin_bring_up init_ret start_ret i p =
     outcome_bind (plugin_at i p) (\<lambda>h.
       if \<not> fn_initialize h then Fault NullDeref
       else
         let p1 = pm_call i (Call_initialize init_ret) p
         in if init_ret \<noteq> 0
            then outcome_bind (free_plugin_handle h) (\<lambda>z. Ret (put_plugin i z p1))
            else if fn_start h \<and> start_ret \<noteq> 0
            then
              let p2 = pm_call i (Call_start start_ret) p1;
                  p3 = (if fn_shutdown h then pm_call i Call_shutdown p2 else p2)
              in outcome_bind (free_plugin_handle h) (\<lambda>z. Ret (put_plugin i z p3))
            else
              let p2 = (if fn_start h then pm_call i (Call_start start_ret) p1 else p1)
              in Ret (put_plugin i (h\<lparr>hot_state := PLUGIN_STATE_ALIVE\<rparr>) p2))"

fun plugin_bring_up_all :: "(nat \<Rightarrow> c_int) \<Rightarrow> (nat \<Rightarrow> c_int) \<Rightarrow> nat list \<Rightarrow> pm \<Rightarrow> pm outcome" where
  "plugin_bring_up_all inits starts [] p = Ret p"
| "plugin_bring_up_all inits starts (i # is) p =
     outcome_bind (plugin_bring_up (inits i) (starts i) i p) (plugin_bring_up_all inits starts is)"

text \<open>
  \<open>plugin_init\<close>: \<open>opendir_ok\<close> and \<open>reopen_ok\<close> are the outcomes of \<open>opendir\<close> before and after the
  \<open>mkdir\<close>, \<open>inits\<close> and \<open>starts\<close> the answers of the plugins.
\<close>

definition plugin_init ::
    "bool \<Rightarrow> bool \<Rightarrow> (dir_entry \<times> load_env \<times> bool) list \<Rightarrow> (nat \<Rightarrow> c_int) \<Rightarrow> (nat \<Rightarrow> c_int) \<Rightarrow> pm \<times> loader
      \<Rightarrow> (c_int \<times> pm \<times> loader) outcome" where
  "plugin_init opendir_ok reopen_ok entries inits starts st =
     (if \<not> opendir_ok \<and> \<not> reopen_ok then Ret (- 1, st)
      else outcome_bind (plugin_scan entries st) (\<lambda>(p, l).
        outcome_bind (plugin_bring_up_all inits starts [0..<plugins_count p] p) (\<lambda>p1.
          Ret (0, p1, l))))"

section \<open>Lemmas\<close>

definition pm_handles :: "pm \<Rightarrow> plugin_handle list" where
  "pm_handles p = (case plugins p of None \<Rightarrow> [] | Some hs \<Rightarrow> hs)"

definition pm_inv :: "pm \<Rightarrow> bool" where
  "pm_inv p \<longleftrightarrow> length (pm_handles p) = plugins_count p \<and> plugins_count p \<le> plugins_capacity p
     \<and> (plugins p = None \<longrightarrow> plugins_capacity p = 0)"

definition calls_of :: "nat \<Rightarrow> pm \<Rightarrow> plugin_call list" where
  "calls_of i p = map snd (filter (\<lambda>(j, c). j = i) (pm_calls p))"

text \<open>
  What an operation may do to the table: set the state of one plugin and call its entry points.
\<close>

definition pm_effect :: "nat \<Rightarrow> plugin_state \<Rightarrow> plugin_call list \<Rightarrow> pm \<Rightarrow> pm" where
  "pm_effect i s cs p =
     (put_plugin i ((pm_handles p ! i)\<lparr>hot_state := s\<rparr>) p)\<lparr>pm_calls := pm_calls p @ map (Pair i) cs\<rparr>"

text \<open>
  The order in which entry points may be called, as an automaton over the state: \<open>None\<close> is an
  order that is not allowed.
\<close>

fun monitor :: "plugin_state option \<Rightarrow> plugin_call \<Rightarrow> plugin_state option" where
  "monitor None c = None"
| "monitor (Some s) (Call_initialize r) = (if s \<ge> PLUGIN_STATE_KILLED then None else Some s)"
| "monitor (Some s) (Call_start r) = Some (if r = 0 then PLUGIN_STATE_ALIVE else s)"
| "monitor (Some s) Call_stop = (if s = PLUGIN_STATE_STOPPED then None else Some PLUGIN_STATE_STOPPED)"
| "monitor (Some s) Call_shutdown = (if s = PLUGIN_STATE_KILLED then None else Some PLUGIN_STATE_KILLED)"

definition lifecycle_fns :: "plugin_handle \<Rightarrow> bool" where
  "lifecycle_fns h \<longleftrightarrow> fn_initialize h \<and> fn_start h \<and> fn_stop h \<and> fn_shutdown h"

definition follows_monitor :: "nat \<Rightarrow> pm \<Rightarrow> bool" where
  "follows_monitor i p \<longleftrightarrow>
     lifecycle_fns (pm_handles p ! i)
     \<and> foldl monitor (Some PLUGIN_STATE_ALIVE) (calls_of i p) = Some (hot_state (pm_handles p ! i))"

lemma pm_handles_put [simp]: "pm_handles (put_plugin i h p) = (pm_handles p)[i := h]"
  by (simp add: pm_handles_def put_plugin_def split: option.splits)

lemma pm_simps [simp]:
  "plugins_count (put_plugin i h p) = plugins_count p" "plugins_capacity (put_plugin i h p) = plugins_capacity p"
  "pm_calls (put_plugin i h p) = pm_calls p" "plugins (put_plugin i h p) = None \<longleftrightarrow> plugins p = None"
  "pm_handles (pm_call i c p) = pm_handles p" "plugins (pm_call i c p) = plugins p"
  "plugins_count (pm_call i c p) = plugins_count p" "plugins_capacity (pm_call i c p) = plugins_capacity p"
  "pm_calls (pm_call i c p) = pm_calls p @ [(i, c)]"
  by (simp_all add: put_plugin_def pm_call_def pm_handles_def)

lemma pm_handles_calls [simp]: "pm_handles (p\<lparr>pm_calls := x\<rparr>) = pm_handles p"
  by (simp add: pm_handles_def)

lemma calls_of_effect [simp]:
  "calls_of j (pm_effect i s cs p) = calls_of j p @ (if i = j then cs else [])"
proof -
  have "filter (\<lambda>(k, c). k = j) (map (Pair i) cs) = (if i = j then map (Pair i) cs else [])"
    by (induction cs) auto
  then show ?thesis by (simp add: calls_of_def pm_effect_def comp_def)
qed

lemma pm_effect_fields [simp]:
  "plugins_count (pm_effect i s cs p) = plugins_count p"
  "pm_handles (pm_effect i s cs p) = (pm_handles p)[i := (pm_handles p ! i)\<lparr>hot_state := s\<rparr>]"
  "pm_inv (pm_effect i s cs p) \<longleftrightarrow> pm_inv p"
  by (simp_all add: pm_effect_def pm_inv_def)

lemma pm_effect_idle: "hot_state (pm_handles p ! i) = s \<Longrightarrow> pm_effect i s [] p = p"
proof -
  assume "hot_state (pm_handles p ! i) = s"
  then have "(pm_handles p ! i)\<lparr>hot_state := s\<rparr> = pm_handles p ! i" by auto
  then have "put_plugin i ((pm_handles p ! i)\<lparr>hot_state := s\<rparr>) p = p"
    by (cases p; cases "plugins p") (simp_all add: put_plugin_def pm_handles_def)
  then show ?thesis by (simp add: pm_effect_def)
qed

lemma pm_effect_calls:
  "put_plugin i ((pm_handles p ! i)\<lparr>hot_state := s\<rparr>) (pm_call i c p) = pm_effect i s [c] p"
  "put_plugin i ((pm_handles p ! i)\<lparr>hot_state := s\<rparr>) (pm_call i d (pm_call i c p)) = pm_effect i s [c, d] p"
  "put_plugin i ((pm_handles p ! i)\<lparr>hot_state := s\<rparr>) p = pm_effect i s [] p"
  by (simp_all add: pm_effect_def put_plugin_def pm_call_def)

lemma pm_effect_call: "hot_state (pm_handles p ! i) = s \<Longrightarrow> pm_effect i s [c] p = pm_call i c p"
proof -
  assume a: "hot_state (pm_handles p ! i) = s"
  have "pm_effect i s [c] p = (pm_effect i s [] p)\<lparr>pm_calls := pm_calls p @ [(i, c)]\<rparr>"
    by (simp add: pm_effect_def)
  then show ?thesis by (simp add: pm_effect_idle [OF a] pm_call_def)
qed

lemma get_plugin_by_id_less: "get_plugin_by_id pid p = Some i \<Longrightarrow> i < plugins_count p"
proof -
  assume a: "get_plugin_by_id pid p = Some i"
  then have "unat pid \<noteq> 0" by (auto simp: get_plugin_by_id_def PLUGIN_ID_INVALID_def unat_eq_zero split: if_splits)
  with a show ?thesis by (auto simp: get_plugin_by_id_def split: if_splits)
qed

lemma plugin_at_handles: "pm_inv p \<Longrightarrow> i < plugins_count p \<Longrightarrow> plugin_at i p = Ret (pm_handles p ! i)"
  by (auto simp: plugin_at_def pm_inv_def pm_handles_def split: option.splits)

text \<open>
  The contract of an operation on the plugin with identifier \<open>pid\<close>: it always returns; without such
  a plugin it does nothing; otherwise it has an effect on that plugin alone.
\<close>

locale plugin_operation =
  fixes op :: "pm \<Rightarrow> ('r \<times> pm) outcome" and pid :: plugin_id
  assumes absent: "get_plugin_by_id pid p = None \<Longrightarrow> \<exists>r. op p = Ret (r, p)"
    and present: "get_plugin_by_id pid p = Some i \<Longrightarrow> pm_inv p \<Longrightarrow>
      \<exists>r s cs. op p = Ret (r, pm_effect i s cs p)"
begin

lemma effect:
  assumes "pm_inv p" "op p = Ret (r, p')"
  shows "p' = p \<or> (\<exists>i s cs. get_plugin_by_id pid p = Some i \<and> p' = pm_effect i s cs p)"
proof (cases "get_plugin_by_id pid p")
  case None
  with absent [OF None] assms(2) show ?thesis by auto
next
  case (Some i)
  with present [OF Some assms(1)] assms(2) show ?thesis by auto
qed

lemma returns:
  assumes "pm_inv p"
  shows "\<exists>r p'. op p = Ret (r, p') \<and> pm_inv p' \<and> plugins_count p' = plugins_count p"
proof (cases "get_plugin_by_id pid p")
  case None
  with absent [OF None] assms show ?thesis by auto
next
  case (Some i)
  with present [OF Some assms] assms show ?thesis by auto
qed

lemma isolates:
  assumes "pm_inv p" "op p = Ret (r, p')" "get_plugin_by_id pid p \<noteq> Some j"
  shows "pm_handles p' ! j = pm_handles p ! j \<and> calls_of j p' = calls_of j p"
  using effect [OF assms(1,2)] assms(3) by auto

end

text \<open>An operation that calls the entry points in an allowed order and records where that leads.\<close>

locale lifecycle_operation = plugin_operation +
  assumes accepted: "get_plugin_by_id pid p = Some i \<Longrightarrow> pm_inv p \<Longrightarrow> lifecycle_fns (pm_handles p ! i) \<Longrightarrow>
      \<exists>r s cs. op p = Ret (r, pm_effect i s cs p)
        \<and> foldl monitor (Some (hot_state (pm_handles p ! i))) cs = Some s"
begin

lemma keeps_monitor:
  assumes "pm_inv p" "op p = Ret (r, p')" "j < plugins_count p" "follows_monitor j p"
  shows "follows_monitor j p'"
proof (cases "get_plugin_by_id pid p = Some j")
  case False
  from isolates [OF assms(1,2) False] assms(4) show ?thesis by (simp add: follows_monitor_def)
next
  case True
  from accepted [OF True assms(1)] assms(2,4) obtain s cs where
    "p' = pm_effect j s cs p" "foldl monitor (Some (hot_state (pm_handles p ! j))) cs = Some s"
    by (auto simp: follows_monitor_def)
  moreover have "j < length (pm_handles p)" using assms(1,3) by (simp add: pm_inv_def)
  ultimately show ?thesis using assms(4) by (simp add: follows_monitor_def lifecycle_fns_def)
qed

end

lemma with_plugin_None:
  "get_plugin_by_id pid p = None \<Longrightarrow> \<exists>r. with_plugin pid body p = Ret (r, p)"
  by (simp add: with_plugin_def)

lemma with_plugin_Some:
  assumes "get_plugin_by_id pid p = Some i" "pm_inv p"
  shows "with_plugin pid body p = body i (pm_handles p ! i)"
  using assms plugin_at_handles [OF assms(2) get_plugin_by_id_less [OF assms(1)]]
  by (auto simp: with_plugin_def get_plugin_by_id_def split: if_splits)

text \<open>
  The abstract operations: the result, the new state and the calls, from the handle alone.
\<close>

definition op_spec ::
    "plugin_id \<Rightarrow> (pm \<Rightarrow> ('r \<times> pm) outcome) \<Rightarrow> (plugin_handle \<Rightarrow> 'r \<times> plugin_state \<times> plugin_call list) \<Rightarrow> bool"
where
  "op_spec pid op spec \<longleftrightarrow>
     (\<forall>p. get_plugin_by_id pid p = None \<longrightarrow> (\<exists>r. op p = Ret (r, p)))
     \<and> (\<forall>p i. get_plugin_by_id pid p = Some i \<and> pm_inv p \<longrightarrow>
          (case spec (pm_handles p ! i) of (r, s, cs) \<Rightarrow> op p = Ret (r, pm_effect i s cs p)))"

definition shutdown_spec :: "plugin_handle \<Rightarrow> plugin_op_result \<times> plugin_state \<times> plugin_call list" where
  "shutdown_spec h =
     (if hot_state h = PLUGIN_STATE_KILLED then (PLUGIN_OP_ALREADY_IN_STATE, hot_state h, [])
      else (PLUGIN_OP_SUCCESS, PLUGIN_STATE_KILLED,
        (if fn_stop h \<and> hot_state h \<noteq> PLUGIN_STATE_STOPPED then [Call_stop] else [])
        @ (if fn_shutdown h then [Call_shutdown] else [])))"

definition initialize_spec ::
    "c_int \<Rightarrow> c_int \<Rightarrow> plugin_handle \<Rightarrow> plugin_op_result \<times> plugin_state \<times> plugin_call list" where
  "initialize_spec ri rs h =
     (if hot_state h \<ge> PLUGIN_STATE_KILLED then (PLUGIN_OP_ALREADY_IN_STATE, hot_state h, [])
      else if \<not> fn_initialize h then (PLUGIN_OP_FUNC_NOT_AVAILABLE, hot_state h, [])
      else if ri \<noteq> 0 then (PLUGIN_OP_FUNC_FAILED, hot_state h, [Call_initialize ri])
      else (PLUGIN_OP_SUCCESS, PLUGIN_STATE_ALIVE,
        Call_initialize ri # (if fn_start h then [Call_start rs] else [])))"

definition start_spec :: "c_int \<Rightarrow> plugin_handle \<Rightarrow> plugin_op_result \<times> plugin_state \<times> plugin_call list" where
  "start_spec rs h =
     (if hot_state h = PLUGIN_STATE_ALIVE then (PLUGIN_OP_ALREADY_IN_STATE, hot_state h, [])
      else if \<not> fn_start h then (PLUGIN_OP_SUCCESS, hot_state h, [])
      else if rs \<noteq> 0 then (PLUGIN_OP_FUNC_FAILED, hot_state h, [Call_start rs])
      else (PLUGIN_OP_SUCCESS, PLUGIN_STATE_ALIVE, [Call_start rs]))"

definition stop_spec :: "plugin_handle \<Rightarrow> plugin_op_result \<times> plugin_state \<times> plugin_call list" where
  "stop_spec h =
     (if hot_state h \<noteq> PLUGIN_STATE_ALIVE then (PLUGIN_OP_ALREADY_IN_STATE, hot_state h, [])
      else if \<not> fn_stop h then (PLUGIN_OP_FUNC_NOT_AVAILABLE, hot_state h, [])
      else (PLUGIN_OP_SUCCESS, PLUGIN_STATE_STOPPED, [Call_stop]))"

definition reboot_spec :: "c_int \<Rightarrow> byte \<Rightarrow> plugin_handle \<Rightarrow> c_int \<times> plugin_state \<times> plugin_call list" where
  "reboot_spec rs action h =
     (if \<not> fn_start h \<or> \<not> fn_stop h then (- 2, hot_state h, [])
      else if action = 1 then
        if hot_state h = PLUGIN_STATE_ALIVE then (- 3, hot_state h, [])
        else (0, PLUGIN_STATE_ALIVE, [Call_start rs])
      else if hot_state h = PLUGIN_STATE_STOPPED then (- 3, hot_state h, [])
      else (0, PLUGIN_STATE_STOPPED, [Call_stop]))"

lemmas op_simps = with_plugin_Some with_plugin_None pm_effect_calls pm_effect_idle pm_effect_call Let_def

lemma shutdown_refines: "op_spec pid (plugin_shutdown pid) shutdown_spec"
  by (auto simp: op_spec_def plugin_shutdown_def shutdown_spec_def op_simps)

lemma initialize_refines: "op_spec pid (plugin_initialize ri rs pid) (initialize_spec ri rs)"
  by (auto simp: op_spec_def plugin_initialize_def initialize_spec_def op_simps)

lemma start_refines: "op_spec pid (plugin_start rs pid) (start_spec rs)"
  by (auto simp: op_spec_def plugin_start_def start_spec_def op_simps)

lemma stop_refines: "op_spec pid (plugin_stop pid) stop_spec"
  by (auto simp: op_spec_def plugin_stop_def stop_spec_def op_simps)

lemma reboot_refines: "op_spec pid (\<lambda>p. pm_action_reboot rs pid a p) (reboot_spec rs a)"
proof -
  have "pm_action_reboot rs pid a p = Ret (r, pm_effect i s cs p)"
    if i: "get_plugin_by_id pid p = Some i" "pm_inv p" and spec: "reboot_spec rs a (pm_handles p ! i) = (r, s, cs)"
    for p i r s cs
  proof -
    have "plugin_at i p = Ret (pm_handles p ! i)"
      using plugin_at_handles [OF i(2) get_plugin_by_id_less [OF i(1)]] .
    with i(1) spec show ?thesis
      by (auto simp: pm_action_reboot_def reboot_spec_def op_simps split: if_splits)
  qed
  moreover have "pm_action_reboot rs pid a p = Ret (- 1, p)" if "get_plugin_by_id pid p = None" for p
    using that by (simp add: pm_action_reboot_def)
  ultimately show ?thesis unfolding op_spec_def by (auto split: prod.splits)
qed

lemma op_spec_absent: "op_spec pid op spec \<Longrightarrow> get_plugin_by_id pid p = None \<Longrightarrow> \<exists>r. op p = Ret (r, p)"
  by (simp add: op_spec_def)

lemma op_spec_present:
  "op_spec pid op spec \<Longrightarrow> get_plugin_by_id pid p = Some i \<Longrightarrow> pm_inv p \<Longrightarrow>
    \<exists>r s cs. op p = Ret (r, pm_effect i s cs p) \<and> spec (pm_handles p ! i) = (r, s, cs)"
  by (cases "spec (pm_handles p ! i)") (auto simp: op_spec_def split: prod.splits)

lemma op_spec_operation: "op_spec pid op spec \<Longrightarrow> plugin_operation op pid"
  using op_spec_absent op_spec_present by unfold_locales blast+

lemma op_spec_lifecycle:
  assumes "op_spec pid op spec"
    and "\<And>h r s cs. lifecycle_fns h \<Longrightarrow> spec h = (r, s, cs) \<Longrightarrow> foldl monitor (Some (hot_state h)) cs = Some s"
  shows "lifecycle_operation op pid"
  using op_spec_present [OF assms(1)] assms(2) op_spec_operation [OF assms(1)]
  unfolding lifecycle_operation_def lifecycle_operation_axioms_def by blast

interpretation shutdown_op: lifecycle_operation "plugin_shutdown pid" pid for pid
  by (rule op_spec_lifecycle [OF shutdown_refines])
    (auto simp: shutdown_spec_def lifecycle_fns_def less_eq_plugin_state_def split: if_splits)

interpretation stop_op: lifecycle_operation "plugin_stop pid" pid for pid
  by (rule op_spec_lifecycle [OF stop_refines]) (auto simp: stop_spec_def lifecycle_fns_def split: if_splits)

interpretation start_op: lifecycle_operation "plugin_start rs pid" pid for rs pid
  by (rule op_spec_lifecycle [OF start_refines]) (auto simp: start_spec_def lifecycle_fns_def split: if_splits)

interpretation initialize_op: plugin_operation "plugin_initialize ri rs pid" pid for ri rs pid
  by (rule op_spec_operation [OF initialize_refines])

interpretation initialize_ok_op: lifecycle_operation "plugin_initialize ri 0 pid" pid for ri pid
  by (rule op_spec_lifecycle [OF initialize_refines])
    (auto simp: initialize_spec_def lifecycle_fns_def split: if_splits)

interpretation reboot_op: plugin_operation "\<lambda>p. pm_action_reboot rs pid a p" pid for rs pid a
  by (rule op_spec_operation [OF reboot_refines])

interpretation reboot_ok_op: lifecycle_operation "\<lambda>p. pm_action_reboot 0 pid a p" pid for pid a
  by (rule op_spec_lifecycle [OF reboot_refines])
    (auto simp: reboot_spec_def lifecycle_fns_def split: if_splits)

section \<open>Sequences of operations\<close>

datatype pm_op =
    Op_shutdown plugin_id
  | Op_initialize c_int c_int plugin_id
  | Op_start c_int plugin_id
  | Op_stop plugin_id
  | Op_reboot c_int plugin_id byte

definition drop_result :: "('r \<times> pm) outcome \<Rightarrow> pm outcome" where
  "drop_result m = outcome_bind m (\<lambda>(r, p). Ret p)"

fun pm_exec :: "pm_op \<Rightarrow> pm \<Rightarrow> pm outcome" where
  "pm_exec (Op_shutdown i) p = drop_result (plugin_shutdown i p)"
| "pm_exec (Op_initialize ri rs i) p = drop_result (plugin_initialize ri rs i p)"
| "pm_exec (Op_start rs i) p = drop_result (plugin_start rs i p)"
| "pm_exec (Op_stop i) p = drop_result (plugin_stop i p)"
| "pm_exec (Op_reboot rs i a) p = drop_result (pm_action_reboot rs i a p)"

fun op_target :: "pm_op \<Rightarrow> plugin_id" where
  "op_target (Op_shutdown i) = i"
| "op_target (Op_initialize _ _ i) = i"
| "op_target (Op_start _ i) = i"
| "op_target (Op_stop i) = i"
| "op_target (Op_reboot _ i _) = i"

text \<open>The operations that do not look at the answer of \<open>start\<close> get the answer 0.\<close>

fun start_answers :: "pm_op \<Rightarrow> bool" where
  "start_answers (Op_initialize _ rs _) = (rs = 0)"
| "start_answers (Op_reboot rs _ _) = (rs = 0)"
| "start_answers _ = True"

inductive pm_reach :: "pm \<Rightarrow> pm_op list \<Rightarrow> pm \<Rightarrow> bool" where
  reach_nil: "pm_reach p [] p"
| reach_step: "pm_exec op p = Ret p1 \<Longrightarrow> pm_reach p1 ops p2 \<Longrightarrow> pm_reach p (op # ops) p2"

inductive_cases pm_reach_ConsE: "pm_reach p (op # ops) p2"

lemma drop_result_Ret [simp]: "drop_result m = Ret p \<longleftrightarrow> (\<exists>r. m = Ret (r, p))"
  by (auto simp: drop_result_def)

lemma pm_exec_returns: "pm_inv p \<Longrightarrow> \<exists>p'. pm_exec op p = Ret p' \<and> pm_inv p' \<and> plugins_count p' = plugins_count p"
proof (cases op)
  case (Op_shutdown i)
  moreover assume "pm_inv p"
  ultimately show ?thesis using shutdown_op.returns [of p i] by auto
next
  case (Op_initialize ri rs i)
  moreover assume "pm_inv p"
  ultimately show ?thesis using initialize_op.returns [of p ri rs i] by auto
next
  case (Op_start rs i)
  moreover assume "pm_inv p"
  ultimately show ?thesis using start_op.returns [of p rs i] by auto
next
  case (Op_stop i)
  moreover assume "pm_inv p"
  ultimately show ?thesis using stop_op.returns [of p i] by auto
next
  case (Op_reboot rs i a)
  moreover assume "pm_inv p"
  ultimately show ?thesis using reboot_op.returns [of p rs i a] by auto
qed

lemmas isolating = shutdown_op.isolates initialize_op.isolates start_op.isolates stop_op.isolates
  reboot_op.isolates

lemmas monitoring = shutdown_op.keeps_monitor initialize_ok_op.keeps_monitor start_op.keeps_monitor
  stop_op.keeps_monitor reboot_ok_op.keeps_monitor

lemma pm_exec_isolates:
  assumes "pm_inv p" "pm_exec op p = Ret p'" "get_plugin_by_id (op_target op) p \<noteq> Some j"
  shows "pm_handles p' ! j = pm_handles p ! j \<and> calls_of j p' = calls_of j p"
  using assms by (cases op) (auto dest: isolating)

lemma pm_exec_monitor:
  assumes "pm_inv p" "pm_exec op p = Ret p'" "start_answers op" "j < plugins_count p" "follows_monitor j p"
  shows "follows_monitor j p'"
  using assms by (cases op) (auto dest: monitoring)

section \<open>Properties\<close>

text \<open>
  C8. Every sequence of the plugin operations can be carried out to the end, and a plugin that is
  not the target of any of them keeps its handle and is not called.
\<close>

theorem pm_operations_isolated:
  assumes "pm_inv p" "\<forall>op\<in>set ops. get_plugin_by_id (op_target op) p \<noteq> Some j"
  shows "\<exists>p'. pm_reach p ops p' \<and> pm_inv p' \<and> plugins_count p' = plugins_count p
    \<and> pm_handles p' ! j = pm_handles p ! j \<and> calls_of j p' = calls_of j p"
  using assms
proof (induction ops arbitrary: p)
  case (Cons op ops)
  from pm_exec_returns [OF Cons.prems(1), of op] obtain p1 where
    p1: "pm_exec op p = Ret p1" "pm_inv p1" "plugins_count p1 = plugins_count p" by blast
  have same: "get_plugin_by_id i p1 = get_plugin_by_id i p" for i
    using p1(3) by (simp add: get_plugin_by_id_def)
  from Cons.IH [OF p1(2)] Cons.prems(2) obtain p' where
    "pm_reach p1 ops p'" "pm_inv p'" "plugins_count p' = plugins_count p1"
    "pm_handles p' ! j = pm_handles p1 ! j \<and> calls_of j p' = calls_of j p1" by (auto simp: same)
  with p1 pm_exec_isolates [OF Cons.prems(1) p1(1), of j] Cons.prems(2) show ?case
    by (auto intro: reach_step)
qed (auto intro: reach_nil)


text \<open>
  A plugin that was shut down cannot be initialized again, but it can be started: the plugin
  then runs without the initialization its shutdown undid, and counts as alive.
\<close>

theorem shut_down_plugin_restarts:
  assumes "pm_inv p" "get_plugin_by_id pid p = Some i" "lifecycle_fns (pm_handles p ! i)"
    and "hot_state (pm_handles p ! i) = PLUGIN_STATE_ALIVE"
  shows "\<exists>p1 p2. plugin_shutdown pid p = Ret (PLUGIN_OP_SUCCESS, p1)
    \<and> plugin_initialize ri rs pid p1 = Ret (PLUGIN_OP_ALREADY_IN_STATE, p1)
    \<and> plugin_start 0 pid p1 = Ret (PLUGIN_OP_SUCCESS, p2)
    \<and> calls_of i p2 = calls_of i p @ [Call_stop, Call_shutdown, Call_start 0]
    \<and> hot_state (pm_handles p2 ! i) = PLUGIN_STATE_ALIVE"
proof -
  have len: "i < length (pm_handles p)"
    using get_plugin_by_id_less [OF assms(2)] assms(1) by (simp add: pm_inv_def)
  let ?p1 = "pm_effect i PLUGIN_STATE_KILLED [Call_stop, Call_shutdown] p"
  let ?p2 = "pm_effect i PLUGIN_STATE_ALIVE [Call_start 0] ?p1"
  have get: "get_plugin_by_id pid ?p1 = Some i" "pm_inv ?p1" using assms(1,2) by (simp_all add: get_plugin_by_id_def)
  have h1: "pm_handles ?p1 ! i = (pm_handles p ! i)\<lparr>hot_state := PLUGIN_STATE_KILLED\<rparr>" using len by simp
  have "plugin_shutdown pid p = Ret (PLUGIN_OP_SUCCESS, ?p1)"
    using op_spec_present [OF shutdown_refines assms(2,1)] assms(3,4)
    by (auto simp: shutdown_spec_def lifecycle_fns_def)
  moreover have "plugin_initialize ri rs pid ?p1 = Ret (PLUGIN_OP_ALREADY_IN_STATE, ?p1)"
    unfolding plugin_initialize_def with_plugin_Some [OF get] h1 by simp
  moreover have "plugin_start 0 pid ?p1 = Ret (PLUGIN_OP_SUCCESS, ?p2)"
    using op_spec_present [OF start_refines get, of 0] assms(3) unfolding h1
    by (auto simp: start_spec_def lifecycle_fns_def)
  ultimately show ?thesis using len by (intro exI [of _ ?p1] exI [of _ ?p2]) simp
qed

text \<open>The directory entries that are plugins, and that all of them load.\<close>

definition is_plugin_dir :: "dir_entry \<Rightarrow> bool" where
  "is_plugin_dir e \<longleftrightarrow> d_type_dir e \<and> \<not> starts_with ''.'' (d_name e)"

definition load_entry :: "dir_entry \<Rightarrow> load_env \<Rightarrow> loader \<Rightarrow> (plugin_handle option \<times> loader) outcome" where
  "load_entry e env l =
     plugin_load env (d_name e) (plugin_file (d_name e) (d_name e @ ''.so''))
       (plugin_file (d_name e) PLUGIN_MANIFEST_FILE) (plugin_file (d_name e) PLUGIN_DATA_FILE) l"

fun all_load :: "(dir_entry \<times> load_env \<times> bool) list \<Rightarrow> loader \<Rightarrow> bool" where
  "all_load [] l = True"
| "all_load ((e, env, ok) # es) l =
     (if \<not> is_plugin_dir e then all_load es l
      else ok \<and> (case load_entry e env l of Ret (Some h, l1) \<Rightarrow> all_load es l1 | _ \<Rightarrow> False))"

lemma plugin_scan_Cons:
  "plugin_scan ((e, env, ok) # es) (p, l) =
     (if \<not> is_plugin_dir e then plugin_scan es (p, l)
      else outcome_bind (load_entry e env l) (\<lambda>(r, l1).
        case r of None \<Rightarrow> plugin_scan es (p, l1)
        | Some h \<Rightarrow> outcome_bind (pm_append ok h p) (\<lambda>p1. plugin_scan es (p1, l1))))"
  by (simp add: is_plugin_dir_def load_entry_def)

lemma pm_append_ok:
  assumes "pm_inv p"
  shows "\<exists>p'. pm_append True h p = Ret p' \<and> pm_inv p' \<and> pm_handles p' = pm_handles p @ [h]
    \<and> plugins_count p' = plugins_count p + 1 \<and> pm_calls p' = pm_calls p"
  using assms by (cases "plugins p") (auto simp: pm_append_def pm_inv_def pm_handles_def Let_def)

lemma plugin_scan_ids:
  assumes "all_load es l" "pm_inv p" "current_id l = of_nat (plugins_count p + 1)"
    and "\<forall>i < plugins_count p. info_id (pm_handles p ! i) = of_nat (i + 1) \<and> fn_initialize (pm_handles p ! i)"
  shows "\<exists>p' l'. plugin_scan es (p, l) = Ret (p', l') \<and> pm_inv p' \<and> pm_calls p' = pm_calls p
    \<and> current_id l' = of_nat (plugins_count p' + 1)
    \<and> (\<forall>i < plugins_count p. pm_handles p' ! i = pm_handles p ! i)
    \<and> plugins_count p' = plugins_count p + length (filter (is_plugin_dir \<circ> fst) es)
    \<and> (\<forall>i < plugins_count p'. info_id (pm_handles p' ! i) = of_nat (i + 1) \<and> fn_initialize (pm_handles p' ! i))"
  using assms
proof (induction es arbitrary: p l)
  case (Cons e3 es)
  obtain e env ok where e3: "e3 = (e, env, ok)" by (cases e3)
  show ?case
  proof (cases "is_plugin_dir e")
    case False
    with Cons show ?thesis unfolding e3 plugin_scan_Cons by simp
  next
    case True
    from Cons.prems(1) True obtain h l1 where load: "load_entry e env l = Ret (Some h, l1)" "all_load es l1" and ok: "ok"
      by (auto simp: e3 split: outcome.splits option.splits)
    from plugin_load_facts [OF load(1) [unfolded load_entry_def]] have
      h: "info_id h = current_id l" "current_id l1 = current_id l + 1" "fn_initialize h" by auto
    from pm_append_ok [OF Cons.prems(2), of h] obtain p1 where p1: "pm_append True h p = Ret p1" "pm_inv p1"
      "pm_handles p1 = pm_handles p @ [h]" "plugins_count p1 = plugins_count p + 1" "pm_calls p1 = pm_calls p" by blast
    have "length (pm_handles p) = plugins_count p" using Cons.prems(2) by (simp add: pm_inv_def)
    then have "\<forall>i < plugins_count p1. info_id (pm_handles p1 ! i) = of_nat (i + 1) \<and> fn_initialize (pm_handles p1 ! i)"
      using Cons.prems(3,4) p1(3,4) h by (auto simp: nth_append less_Suc_eq)
    moreover have "current_id l1 = of_nat (plugins_count p1 + 1)" using h(2) Cons.prems(3) p1(4) by simp
    ultimately show ?thesis
      using Cons.IH [OF load(2) p1(2)] True load(1) p1 ok \<open>length (pm_handles p) = plugins_count p\<close>
      unfolding e3 plugin_scan_Cons by (auto simp: nth_append)
  qed
qed simp

definition bring_up_calls :: "plugin_handle \<Rightarrow> plugin_call list" where
  "bring_up_calls h = Call_initialize 0 # (if fn_start h then [Call_start 0] else [])"

lemma plugin_bring_up_ok:
  assumes "pm_inv p" "i < plugins_count p" "fn_initialize (pm_handles p ! i)"
  shows "plugin_bring_up 0 0 i p = Ret (pm_effect i PLUGIN_STATE_ALIVE (bring_up_calls (pm_handles p ! i)) p)"
  using assms by (simp add: plugin_bring_up_def plugin_at_handles Let_def bring_up_calls_def pm_effect_calls)

lemma plugin_bring_up_all_ok:
  assumes "pm_inv p" "distinct is" "\<forall>i\<in>set is. i < plugins_count p \<and> fn_initialize (pm_handles p ! i)"
    and "\<forall>i\<in>set is. inits i = 0 \<and> starts i = 0"
  shows "\<exists>p'. plugin_bring_up_all inits starts is p = Ret p' \<and> pm_inv p' \<and> plugins_count p' = plugins_count p
    \<and> (\<forall>j. pm_handles p' ! j = (if j \<in> set is then (pm_handles p ! j)\<lparr>hot_state := PLUGIN_STATE_ALIVE\<rparr> else pm_handles p ! j)
         \<and> calls_of j p' = calls_of j p @ (if j \<in> set is then bring_up_calls (pm_handles p ! j) else []))"
  using assms
proof (induction "is" arbitrary: p)
  case (Cons i js)
  let ?p1 = "pm_effect i PLUGIN_STATE_ALIVE (bring_up_calls (pm_handles p ! i)) p"
  have len: "i < length (pm_handles p)" using Cons.prems(1,3) by (simp add: pm_inv_def)
  have step: "plugin_bring_up (inits i) (starts i) i p = Ret ?p1"
    using plugin_bring_up_ok [of p i] Cons.prems by simp
  have keep: "pm_handles ?p1 ! j = pm_handles p ! j" if "j \<noteq> i" for j using that by simp
  have "i \<notin> set js" using Cons.prems(2) by simp
  then have "\<forall>k\<in>set js. k < plugins_count ?p1 \<and> fn_initialize (pm_handles ?p1 ! k)"
    using Cons.prems(3) by (metis keep list.set_intros(2) pm_effect_fields(1))
  with Cons.IH [of ?p1] Cons.prems obtain p' where p':
    "plugin_bring_up_all inits starts js ?p1 = Ret p'" "pm_inv p'" "plugins_count p' = plugins_count p"
    "\<forall>j. pm_handles p' ! j = (if j \<in> set js then (pm_handles ?p1 ! j)\<lparr>hot_state := PLUGIN_STATE_ALIVE\<rparr> else pm_handles ?p1 ! j)
       \<and> calls_of j p' = calls_of j ?p1 @ (if j \<in> set js then bring_up_calls (pm_handles ?p1 ! j) else [])"
    by auto
  with step len \<open>i \<notin> set js\<close> show ?case by auto
qed simp

lemma get_plugin_by_own_id:
  "i < plugins_count p \<Longrightarrow> plugins_count p < 2 ^ 32 \<Longrightarrow> get_plugin_by_id (of_nat (i + 1)) p = Some i"
proof -
  assume a: "i < plugins_count p" "plugins_count p < 2 ^ 32"
  then have "unat (of_nat (i + 1) :: plugin_id) = i + 1" by (simp add: unat_of_nat del: of_nat_Suc)
  with a show ?thesis by (auto simp: get_plugin_by_id_def PLUGIN_ID_INVALID_def simp del: of_nat_Suc)
qed

lemma plugin_init_more:
  assumes "opendir_ok \<or> reopen_ok" "all_load es l" "pm_inv p" "current_id l = of_nat (plugins_count p + 1)"
    and "\<forall>i < plugins_count p. info_id (pm_handles p ! i) = of_nat (i + 1) \<and> fn_initialize (pm_handles p ! i)"
    and "\<forall>i. inits i = 0 \<and> starts i = 0"
  shows "\<exists>p' l'. plugin_init opendir_ok reopen_ok es inits starts (p, l) = Ret (0, p', l')
    \<and> pm_inv p' \<and> plugins_count p' = plugins_count p + length (filter (is_plugin_dir \<circ> fst) es)
    \<and> current_id l' = of_nat (plugins_count p' + 1)
    \<and> (\<forall>i < plugins_count p'. info_id (pm_handles p' ! i) = of_nat (i + 1) \<and> fn_initialize (pm_handles p' ! i)
         \<and> hot_state (pm_handles p' ! i) = PLUGIN_STATE_ALIVE
         \<and> calls_of i p' = calls_of i p @ bring_up_calls (pm_handles p' ! i))
    \<and> (\<forall>i < plugins_count p. fn_start (pm_handles p' ! i) = fn_start (pm_handles p ! i))"
proof -
  from plugin_scan_ids [OF assms(2-5)] obtain q l' where scan:
    "plugin_scan es (p, l) = Ret (q, l')" "pm_inv q" "pm_calls q = pm_calls p"
    "current_id l' = of_nat (plugins_count q + 1)" "\<forall>i < plugins_count p. pm_handles q ! i = pm_handles p ! i"
    "plugins_count q = plugins_count p + length (filter (is_plugin_dir \<circ> fst) es)"
    "\<forall>i < plugins_count q. info_id (pm_handles q ! i) = of_nat (i + 1) \<and> fn_initialize (pm_handles q ! i)"
    by blast
  from plugin_bring_up_all_ok [OF scan(2), of "[0..<plugins_count q]" inits starts] scan(7) assms(6)
  obtain p' where p': "plugin_bring_up_all inits starts [0..<plugins_count q] q = Ret p'" "pm_inv p'"
    "plugins_count p' = plugins_count q"
    "\<forall>j. pm_handles p' ! j = (if j < plugins_count q then (pm_handles q ! j)\<lparr>hot_state := PLUGIN_STATE_ALIVE\<rparr> else pm_handles q ! j)
       \<and> calls_of j p' = calls_of j q @ (if j < plugins_count q then bring_up_calls (pm_handles q ! j) else [])"
    by auto
  have "plugin_init opendir_ok reopen_ok es inits starts (p, l) = Ret (0, p', l')"
    using assms(1) scan(1) p'(1) by (auto simp: plugin_init_def)
  moreover have "calls_of j q = calls_of j p" for j using scan(3) by (simp add: calls_of_def)
  moreover have "bring_up_calls (h\<lparr>hot_state := s\<rparr>) = bring_up_calls h" for h s
    by (simp add: bring_up_calls_def)
  ultimately show ?thesis using p' scan(4-7) by (intro exI [of _ p'] exI [of _ l']) (simp del: of_nat_Suc)
qed

text \<open>
  C27. Starting up: when every plugin directory loads and every plugin answers 0, \<open>plugin_init\<close>
  returns 0 with one plugin per directory. The identifiers are 1, 2, ... in the order of the
  directory, each finds its own plugin, and every plugin was initialized once, then started once if
  it can be, and is alive.
\<close>

theorem plugin_init_all_up:
  assumes "opendir_ok \<or> reopen_ok" "all_load es l" "current_id l = 1"
    and "length (filter (is_plugin_dir \<circ> fst) es) < 2 ^ 32" "\<forall>i. inits i = 0 \<and> starts i = 0"
  shows "\<exists>p l'. plugin_init opendir_ok reopen_ok es inits starts (pm_initial, l) = Ret (0, p, l')
    \<and> pm_inv p \<and> plugins_count p = length (filter (is_plugin_dir \<circ> fst) es)
    \<and> (\<forall>i < plugins_count p. info_id (pm_handles p ! i) = of_nat (i + 1)
         \<and> get_plugin_by_id (info_id (pm_handles p ! i)) p = Some i
         \<and> hot_state (pm_handles p ! i) = PLUGIN_STATE_ALIVE
         \<and> calls_of i p = bring_up_calls (pm_handles p ! i))"
proof -
  have init: "pm_inv pm_initial" "plugins_count pm_initial = 0" "calls_of i pm_initial = []" for i
    by (simp_all add: pm_initial_def pm_inv_def pm_handles_def calls_of_def)
  from plugin_init_more [OF assms(1,2) init(1) _ _ assms(5)] assms(3) init obtain p l' where p:
    "plugin_init opendir_ok reopen_ok es inits starts (pm_initial, l) = Ret (0, p, l')" "pm_inv p"
    "plugins_count p = length (filter (is_plugin_dir \<circ> fst) es)"
    "\<forall>i < plugins_count p. info_id (pm_handles p ! i) = of_nat (i + 1)
       \<and> hot_state (pm_handles p ! i) = PLUGIN_STATE_ALIVE \<and> calls_of i p = bring_up_calls (pm_handles p ! i)"
    by auto
  moreover have "get_plugin_by_id (of_nat (i + 1)) p = Some i" if "i < plugins_count p" for i
    using get_plugin_by_own_id [OF that] p(3) assms(4) by simp
  ultimately show ?thesis by (intro exI [of _ p] exI [of _ l']) (simp del: of_nat_Suc)
qed

definition sample_entry :: "string option \<Rightarrow> dir_entry \<times> load_env \<times> bool" where
  "sample_entry data = (\<lparr> d_name = ''d'', d_type_dir = True \<rparr>, sample_env data, True)"

definition sample_loader :: loader where
  "sample_loader = \<lparr> current_id = 1, ld_hk = hk_initial, jit_symbols = True \<rparr>"

lemma sample_entry_dir: "is_plugin_dir (fst (sample_entry data))"
  by (simp add: is_plugin_dir_def sample_entry_def starts_with_def)

lemma sample_all_load:
  assumes "jit_symbols l"
  shows "all_load (replicate n (sample_entry (Some []))) l"
  using assms
proof (induction n arbitrary: l)
  case (Suc n)
  let ?e = "\<lparr> d_name = ''d'', d_type_dir = True \<rparr>"
  have dir: "is_plugin_dir ?e" using sample_entry_dir [of "Some []"] by (simp add: sample_entry_def)
  obtain h l1 where "load_entry ?e (sample_env (Some [])) l = Ret (Some h, l1)" "jit_symbols l1"
    unfolding load_entry_def using sample_load [OF Suc.prems] by blast
  with Suc.IH [of l1] dir show ?case by (simp add: sample_entry_def)
qed simp

theorem plugin_init_all_up_witness:
  "\<exists>p l'. plugin_init True False (replicate 3 (sample_entry (Some []))) (\<lambda>_. 0) (\<lambda>_. 0) (pm_initial, sample_loader)
      = Ret (0, p, l') \<and> plugins_count p = 3 \<and> get_plugin_by_id (info_id (pm_handles p ! 2)) p = Some 2"
proof -
  have n: "length (filter (is_plugin_dir \<circ> fst) (replicate 3 (sample_entry (Some [])))) = 3"
    using sample_entry_dir [of "Some []"] by (simp add: filter_replicate)
  have "all_load (replicate 3 (sample_entry (Some []))) sample_loader" "current_id sample_loader = 1"
    using sample_all_load [of sample_loader 3] by (simp_all add: sample_loader_def)
  from plugin_init_all_up [OF _ this, of True False "\<lambda>_. 0" "\<lambda>_. 0", unfolded n] obtain p l' where
    "plugin_init True False (replicate 3 (sample_entry (Some []))) (\<lambda>_. 0) (\<lambda>_. 0) (pm_initial, sample_loader)
      = Ret (0, p, l')" "plugins_count p = 3"
    "\<forall>i < plugins_count p. get_plugin_by_id (info_id (pm_handles p ! i)) p = Some i" by fastforce
  then show ?thesis by (intro exI [of _ p] exI [of _ l']) simp
qed

text \<open>Searching by name finds the first plugin with that name.\<close>

lemma p_id_search_hit:
  assumes "info_name h = Some (Malloced n)" "NUL \<notin> set n"
  shows "p_id_search T_Generic (n @ [NUL]) (h # hs) = Ret (info_id h)"
proof -
  have "buf_strcmp (n @ [NUL]) (n @ [NUL]) = Ret 0" by (induction n) auto
  then have "optimized_strcmp T_Generic (n @ [NUL]) (n @ [NUL]) = Ret 0"
    by (simp add: optimized_strcmp_def buf_strlen_def)
  with assms show ?thesis by (simp add: read_ptr_def)
qed


lemma zero_handle_fields [simp]:
  "hot_state zero_handle = PLUGIN_STATE_ALIVE" "\<not> fn_initialize zero_handle" "\<not> fn_start zero_handle"
  "\<not> fn_stop zero_handle"
  by (simp_all add: zero_handle_def)

lemma digit_char_0: "digit_char 0 = CHR ''0''"
  by code_simp

text \<open>
  A plugin whose \<open>initialize\<close> fails stays in the table as a handle of zeros, which reads as
  alive: it can be neither started, nor stopped, nor initialized again, and the list shows it
  without a name. If its manifest gave no name, clearing the handle frees the directory entry.
\<close>

theorem failed_initialize_leaves_zombie:
  assumes "pm_inv p" "get_plugin_by_id pid p = Some i" "fn_initialize (pm_handles p ! i)" "r \<noteq> 0"
  shows "(info_name (pm_handles p ! i) = Some (Foreign d) \<longrightarrow> plugin_bring_up r s i p = Fault InvalidFree)
    \<and> (info_name (pm_handles p ! i) = Some (Malloced n) \<and> info_version (pm_handles p ! i) = Some (Malloced v) \<longrightarrow>
        (\<exists>p'. plugin_bring_up r s i p = Ret p' \<and> plugins_count p' = plugins_count p
          \<and> plugin_start rs pid p' = Ret (PLUGIN_OP_ALREADY_IN_STATE, p')
          \<and> plugin_stop pid p' = Ret (PLUGIN_OP_FUNC_NOT_AVAILABLE, p')
          \<and> plugin_initialize ri rs pid p' = Ret (PLUGIN_OP_FUNC_NOT_AVAILABLE, p')
          \<and> pm_action_reboot rs pid a p' = Ret (- 2, p')
          \<and> pm_entry (pm_handles p' ! i) = Ret (''[(null)] 0 [(null)] 0 0 0'' @ [NL])))"
proof (intro conjI impI)
  have less: "i < plugins_count p" using get_plugin_by_id_less [OF assms(2)] .
  note at = plugin_at_handles [OF assms(1) less]
  show "info_name (pm_handles p ! i) = Some (Foreign d) \<Longrightarrow> plugin_bring_up r s i p = Fault InvalidFree"
    using assms(3,4) by (simp add: plugin_bring_up_def at free_plugin_handle_def c_free_def Let_def)
  assume names: "info_name (pm_handles p ! i) = Some (Malloced n) \<and> info_version (pm_handles p ! i) = Some (Malloced v)"
  let ?p = "put_plugin i zero_handle (pm_call i (Call_initialize r) p)"
  have "plugin_bring_up r s i p = Ret ?p"
    using assms(3,4) names by (simp add: plugin_bring_up_def at free_plugin_handle_def c_free_def Let_def)
  moreover have inv: "pm_inv ?p" "get_plugin_by_id pid ?p = Some i" "plugins_count ?p = plugins_count p"
    using assms(1,2) by (simp_all add: pm_inv_def get_plugin_by_id_def)
  moreover have z: "pm_handles ?p ! i = zero_handle" using assms(1) less by (simp add: pm_inv_def)
  moreover have "plugin_at i ?p = Ret zero_handle" using plugin_at_handles [OF inv(1), of i] less z by simp
  moreover have "\<not> PLUGIN_STATE_KILLED \<le> PLUGIN_STATE_ALIVE" by (simp add: less_eq_plugin_state_def)
  moreover have "pm_entry zero_handle = Ret (''[(null)] 0 [(null)] 0 0 0'' @ [NL])"
    by (simp add: pm_entry_def zero_handle_def fmt_ptr_def fmt_d_def show_int_def show_nat.simps digit_char_0)
  ultimately show "\<exists>p'. plugin_bring_up r s i p = Ret p' \<and> plugins_count p' = plugins_count p
          \<and> plugin_start rs pid p' = Ret (PLUGIN_OP_ALREADY_IN_STATE, p')
          \<and> plugin_stop pid p' = Ret (PLUGIN_OP_FUNC_NOT_AVAILABLE, p')
          \<and> plugin_initialize ri rs pid p' = Ret (PLUGIN_OP_FUNC_NOT_AVAILABLE, p')
          \<and> pm_action_reboot rs pid a p' = Ret (- 2, p')
          \<and> pm_entry (pm_handles p' ! i) = Ret (''[(null)] 0 [(null)] 0 0 0'' @ [NL])"
    by (intro exI [of _ ?p])
      (simp add: plugin_start_def plugin_stop_def plugin_initialize_def pm_action_reboot_def
        with_plugin_Some [OF inv(2,1)] z del: pm_handles_put)
qed

definition list_line :: "plugin_handle \<Rightarrow> string" where
  "list_line h = (case pm_entry h of Ret t \<Rightarrow> t | _ \<Rightarrow> [])"

definition names_readable :: "plugin_handle \<Rightarrow> bool" where
  "names_readable h \<longleftrightarrow> (\<exists>n v. fmt_ptr (info_name h) = Ret n \<and> fmt_ptr (info_version h) = Ret v)"

lemma pm_entry_line: "names_readable h \<Longrightarrow> pm_entry h = Ret (list_line h)"
  by (auto simp: names_readable_def list_line_def pm_entry_def)

lemma pm_list_entries_prefix:
  assumes "\<forall>h\<in>set hs. names_readable h" "length out < n"
  shows "\<exists>k \<le> length hs. pm_list_entries n hs out = Ret (out @ concat (map list_line (take k hs)))
    \<and> length (out @ concat (map list_line (take k hs))) < n
    \<and> (k < length hs \<longrightarrow>
        n \<le> length (out @ concat (map list_line (take (Suc k) hs))) + 1)"
  using assms
proof (induction hs arbitrary: out)
  case (Cons h hs)
  have e: "pm_entry h = Ret (list_line h)" using pm_entry_line Cons.prems(1) by simp
  show ?case
  proof (cases "length (list_line h) < n - length out - 1")
    case True
    then have fits: "length (out @ list_line h) < n" by simp
    have rest: "\<forall>x\<in>set hs. names_readable x" using Cons.prems(1) by simp
    from Cons.IH [OF rest fits] obtain k where k: "k \<le> length hs"
      "pm_list_entries n hs (out @ list_line h) = Ret ((out @ list_line h) @ concat (map list_line (take k hs)))"
      "length ((out @ list_line h) @ concat (map list_line (take k hs))) < n"
      "k < length hs \<longrightarrow> n \<le> length ((out @ list_line h) @ concat (map list_line (take (Suc k) hs))) + 1"
      by blast
    with True e show ?thesis by (intro exI [of _ "Suc k"]) (simp add: Let_def strncat_def)
  next
    case False
    with e Cons.prems(2) show ?thesis by (intro exI [of _ 0]) (simp add: Let_def)
  qed
qed simp

text \<open>
  C35. The list of plugins never overruns a buffer of at least one byte. It is the heading, cut to
  the buffer, and the whole lines of the first plugins; a line that would fill the buffer to its
  last byte is left out together with all behind it.
\<close>

theorem pm_list_whole_lines:
  assumes "pm_inv p" "0 < n" "\<forall>h\<in>set (pm_handles p). names_readable h"
  shows "\<exists>k \<le> plugins_count p.
    pm_list_serialize n p = Ret (take (n - 1) pm_list_head @ concat (map list_line (take k (pm_handles p))))
    \<and> length (take (n - 1) pm_list_head @ concat (map list_line (take k (pm_handles p)))) < n
    \<and> (k < plugins_count p \<longrightarrow>
        n \<le> length (take (n - 1) pm_list_head @ concat (map list_line (take (Suc k) (pm_handles p)))) + 1)"
proof -
  have len: "length (pm_handles p) = plugins_count p" using assms(1) by (simp add: pm_inv_def)
  have hs: "loop_plugins p = Ret (pm_handles p)"
    using assms(1) by (auto simp: loop_plugins_def pm_inv_def pm_handles_def split: option.splits)
  have head: "snprintf 256 pm_list_head = pm_list_head" by (rule snprintf_fits) (simp_all add: pm_list_head_def)
  have "length (take (n - 1) pm_list_head) < n" using assms(2) by auto
  from pm_list_entries_prefix [OF assms(3) this] show ?thesis
    using assms(2) len by (simp add: pm_list_serialize_def hs head strncat_def)
qed

text \<open>A table with one plugin, for the examples.\<close>

definition sample_pm :: pm where
  "sample_pm =
     \<lparr> plugins = Some [zero_handle\<lparr>fn_initialize := True, fn_start := True, fn_stop := True,
                         fn_shutdown := True, info_id := 1, info_name := Some (Malloced ''a''),
                         info_version := Some (Malloced ''1'')\<rparr>],
       plugins_count = 1, plugins_capacity = 10, pm_calls = [] \<rparr>"

lemma sample_pm_ok:
  "pm_inv sample_pm" "get_plugin_by_id 1 sample_pm = Some 0" "get_plugin_by_id 2 sample_pm = None"
  "lifecycle_fns (pm_handles sample_pm ! 0)" "hot_state (pm_handles sample_pm ! 0) = PLUGIN_STATE_ALIVE"
  "follows_monitor 0 sample_pm" "plugins_count sample_pm = 1" "calls_of 0 sample_pm = []"
  by (simp_all add: sample_pm_def pm_inv_def pm_handles_def get_plugin_by_id_def PLUGIN_ID_INVALID_def
      lifecycle_fns_def follows_monitor_def calls_of_def zero_handle_def)

theorem pm_operations_isolated_witness:
  "\<exists>p'. pm_reach sample_pm [Op_stop 2, Op_shutdown 2] p' \<and> calls_of 0 p' = []"
  using pm_operations_isolated [OF sample_pm_ok(1), of "[Op_stop 2, Op_shutdown 2]" 0] sample_pm_ok
  by auto


theorem shut_down_plugin_restarts_witness:
  "\<exists>p1 p2. plugin_shutdown 1 sample_pm = Ret (PLUGIN_OP_SUCCESS, p1)
    \<and> plugin_start 0 1 p1 = Ret (PLUGIN_OP_SUCCESS, p2)
    \<and> calls_of 0 p2 = [Call_stop, Call_shutdown, Call_start 0]"
  using shut_down_plugin_restarts [OF sample_pm_ok(1,2,4,5), of 0 0] sample_pm_ok(8) by auto

theorem failed_initialize_leaves_zombie_witness:
  "\<exists>p'. plugin_bring_up 1 0 0 sample_pm = Ret p'
    \<and> plugin_stop 1 p' = Ret (PLUGIN_OP_FUNC_NOT_AVAILABLE, p')"
proof -
  have h: "fn_initialize (pm_handles sample_pm ! 0)" "info_name (pm_handles sample_pm ! 0) = Some (Malloced ''a'')"
    "info_version (pm_handles sample_pm ! 0) = Some (Malloced ''1'')" "(1 :: c_int) \<noteq> 0"
    by (simp_all add: sample_pm_def pm_handles_def)
  from failed_initialize_leaves_zombie [OF sample_pm_ok(1,2) h(1,4), of "''d''" 0 "''a''" "''1''"] h(2,3)
  show ?thesis by blast
qed

theorem pm_list_whole_lines_witness:
  "\<exists>t. pm_list_serialize 30 sample_pm = Ret t \<and> length t < 30"
proof -
  have "\<forall>h\<in>set (pm_handles sample_pm). names_readable h"
    by (simp add: sample_pm_def pm_handles_def names_readable_def fmt_ptr_def read_ptr_def)
  from pm_list_whole_lines [OF sample_pm_ok(1) _ this, of 30] show ?thesis by auto
qed


end
