(* ===== verification/Gateway.thy ===== *)
theory Gateway
  imports EventBus Scheduler HeapkitText PluginManager
begin

text \<open>
  src/gateway/gateway.c: loading, starting, stopping and closing a gateway library, and the
  functions a gateway calls to look into the core and to steer it.

  The library is the outcome of the calls that load it. A pointer into a library that was closed
  again counts as set, as it is not NULL. \<open>gateway_msg_send\<close> is part of the dispatcher's theory.
\<close>

section \<open>Status codes\<close>

definition GATEWAY_OK :: c_int where "GATEWAY_OK = 0"
definition GATEWAY_ALREADY_INITIALIZED :: c_int where "GATEWAY_ALREADY_INITIALIZED = - 7"
definition GATEWAY_FILE_NOT_FOUND :: c_int where "GATEWAY_FILE_NOT_FOUND = - 10"
definition GATEWAY_DLOPEN_FAILED :: c_int where "GATEWAY_DLOPEN_FAILED = - 1"
definition GATEWAY_INIT_SYMBOL_NOT_FOUND :: c_int where "GATEWAY_INIT_SYMBOL_NOT_FOUND = - 2"
definition GATEWAY_START_SYMBOL_NOT_FOUND :: c_int where "GATEWAY_START_SYMBOL_NOT_FOUND = - 3"
definition GATEWAY_STOP_SYMBOL_NOT_FOUND :: c_int where "GATEWAY_STOP_SYMBOL_NOT_FOUND = - 4"
definition GATEWAY_ON_DATA_SYMBOL_NOT_FOUND :: c_int where "GATEWAY_ON_DATA_SYMBOL_NOT_FOUND = - 5"
definition GATEWAY_CLOSE_SYMBOL_NOT_FOUND :: c_int where "GATEWAY_CLOSE_SYMBOL_NOT_FOUND = - 6"

lemmas gateway_codes =
  GATEWAY_OK_def GATEWAY_ALREADY_INITIALIZED_def GATEWAY_FILE_NOT_FOUND_def GATEWAY_DLOPEN_FAILED_def
  GATEWAY_INIT_SYMBOL_NOT_FOUND_def GATEWAY_START_SYMBOL_NOT_FOUND_def GATEWAY_STOP_SYMBOL_NOT_FOUND_def
  GATEWAY_ON_DATA_SYMBOL_NOT_FOUND_def GATEWAY_CLOSE_SYMBOL_NOT_FOUND_def

definition gateway_status_to_str :: "c_int \<Rightarrow> string" where
  "gateway_status_to_str status =
     (if status = GATEWAY_OK then ''Gateway initialized successfully.''
      else if status = GATEWAY_ALREADY_INITIALIZED then ''Gateway is already initialized.''
      else if status = GATEWAY_FILE_NOT_FOUND then ''Gateway library file not found.''
      else if status = GATEWAY_DLOPEN_FAILED then ''Failed to load gateway library (dlopen failed).''
      else if status = GATEWAY_INIT_SYMBOL_NOT_FOUND
      then ''Missing '' @ [CHR 0x27] @ ''init'' @ [CHR 0x27] @ '' function in gateway library.''
      else if status = GATEWAY_START_SYMBOL_NOT_FOUND
      then ''Missing '' @ [CHR 0x27] @ ''start'' @ [CHR 0x27] @ '' function in gateway library.''
      else if status = GATEWAY_STOP_SYMBOL_NOT_FOUND
      then ''Missing '' @ [CHR 0x27] @ ''stop'' @ [CHR 0x27] @ '' function in gateway library.''
      else if status = GATEWAY_CLOSE_SYMBOL_NOT_FOUND
      then ''Missing '' @ [CHR 0x27] @ ''close'' @ [CHR 0x27] @ '' function in gateway library.''
      else if status = GATEWAY_ON_DATA_SYMBOL_NOT_FOUND
      then ''Missing '' @ [CHR 0x27] @ ''on_data'' @ [CHR 0x27] @ '' function in gateway library.''
      else ''Unknown error occurred.'')"

section \<open>The library's life\<close>

text \<open>What loading a library from a path meets.\<close>

record gateway_lib =
  lib_stat_ok :: bool
  lib_dlopen_ok :: bool
  lib_init :: bool
  lib_start :: bool
  lib_stop :: bool
  lib_close :: bool
  lib_on_data :: bool
  lib_malloc_ok :: bool

definition gateway_init_lib :: "gateway_lib \<Rightarrow> gw \<Rightarrow> c_int \<times> gw" where
  "gateway_init_lib lib g =
     (if gateway_is_alive g then (GATEWAY_ALREADY_INITIALIZED, g)
      else if \<not> lib_stat_ok lib then (GATEWAY_FILE_NOT_FOUND, g)
      else if \<not> lib_dlopen_ok lib then (GATEWAY_DLOPEN_FAILED, g)
      else let g1 = g\<lparr>init_fn := lib_init lib\<rparr> in
      if \<not> init_fn g1 then (GATEWAY_INIT_SYMBOL_NOT_FOUND, g1)
      else let g2 = g1\<lparr>start_fn := lib_start lib\<rparr> in
      if \<not> start_fn g2 then (GATEWAY_START_SYMBOL_NOT_FOUND, g2)
      else let g3 = g2\<lparr>stop_fn := lib_stop lib\<rparr> in
      if \<not> stop_fn g3 then (GATEWAY_STOP_SYMBOL_NOT_FOUND, g3)
      else let g4 = g3\<lparr>close_fn := lib_close lib\<rparr> in
      if \<not> close_fn g4 then (GATEWAY_CLOSE_SYMBOL_NOT_FOUND, g4)
      else let g5 = g4\<lparr>on_data_fn := lib_on_data lib\<rparr> in
      if \<not> on_data_fn g5 then (GATEWAY_ON_DATA_SYMBOL_NOT_FOUND, g5)
      else
        let g6 = gw_call Gw_init g5;
            g7 = gateway_dispatcher_init (lib_malloc_ok lib) g6
        in (GATEWAY_OK, g7\<lparr>g_gateway_connected_flag := True\<rparr>))"

text \<open>A call through a function pointer, which must not be NULL.\<close>

definition lib_call :: "(gw \<Rightarrow> bool) \<Rightarrow> gw_event \<Rightarrow> gw \<Rightarrow> gw outcome" where
  "lib_call fn e g = (if fn g then Ret (gw_call e g) else Fault NullDeref)"

definition gateway_start_lib :: "gw \<Rightarrow> gw outcome" where
  "gateway_start_lib g =
     (if g_gateway_connected_flag g \<and> \<not> gateway_is_alive g
      then outcome_bind (lib_call start_fn Gw_start g) (\<lambda>g1. Ret (g1\<lparr>gateway_is_alive := True\<rparr>))
      else Ret g)"

definition gateway_stop_lib :: "gw \<Rightarrow> gw outcome" where
  "gateway_stop_lib g =
     (if g_gateway_connected_flag g \<and> gateway_is_alive g
      then lib_call stop_fn Gw_stop (g\<lparr>g_gateway_connected_flag := False\<rparr>)
      else Ret g)"

definition gateway_restart_lib :: "gw \<Rightarrow> gw outcome" where
  "gateway_restart_lib g =
     (if g_gateway_connected_flag g
      then outcome_bind (lib_call stop_fn Gw_stop g) (\<lambda>g1.
             outcome_bind (lib_call start_fn Gw_start (g1\<lparr>g_gateway_connected_flag := False\<rparr>)) (\<lambda>g2.
               Ret (g2\<lparr>g_gateway_connected_flag := True\<rparr>)))
      else Ret g)"

text \<open>\<open>asleep\<close> says whether the dispatcher thread still makes a round when it is joined.\<close>

definition gateway_clear :: "bool \<Rightarrow> gw \<Rightarrow> gw outcome" where
  "gateway_clear asleep g =
     outcome_bind
       (gateway_dispatcher_close asleep (g\<lparr>g_gateway_connected_flag := False, gateway_is_alive := False\<rparr>))
       (\<lambda>g1. Ret (g1\<lparr>init_fn := False, start_fn := False, stop_fn := False, on_data_fn := False,
                     close_fn := False\<rparr>))"

definition gateway_close_lib :: "bool \<Rightarrow> gw \<Rightarrow> gw outcome" where
  "gateway_close_lib asleep g =
     (if g_gateway_connected_flag g
      then outcome_bind
             (if gateway_is_alive g then lib_call stop_fn Gw_stop (g\<lparr>gateway_is_alive := False\<rparr>) else Ret g)
             (\<lambda>g1. outcome_bind (lib_call close_fn Gw_close (g1\<lparr>g_gateway_connected_flag := False\<rparr>))
                     (gateway_clear asleep))
      else Ret g)"

section \<open>What a gateway can call\<close>

text \<open>The state of the core that the entry functions reach.\<close>

record core =
  core_bus :: bus
  core_sched :: scheduler
  core_hk :: hk
  core_pm :: pm

definition gateway_eb_get_list :: "nat \<Rightarrow> core \<Rightarrow> (c_int \<times> string) outcome" where
  "gateway_eb_get_list buf_len c = Ret (0, event_bus_get_list buf_len (core_bus c))"

definition gateway_sc_get_list :: "nat \<Rightarrow> core \<Rightarrow> (c_int \<times> string) outcome" where
  "gateway_sc_get_list buf_len c =
     outcome_bind (scheduler_get_list buf_len (core_sched c)) (\<lambda>out. Ret (0, out))"

definition gateway_pm_get_list :: "nat \<Rightarrow> core \<Rightarrow> (c_int \<times> string) outcome" where
  "gateway_pm_get_list buf_len c =
     outcome_bind (pm_list_serialize buf_len (core_pm c)) (\<lambda>out. Ret (0, out))"

definition gateway_hk_get_list :: "float_lib \<Rightarrow> nat \<Rightarrow> string \<Rightarrow> core \<Rightarrow> (c_int \<times> string) outcome" where
  "gateway_hk_get_list fl buf_len out_buf c =
     outcome_bind (hk_get_list fl buf_len out_buf (core_hk c)) (\<lambda>(_, out). Ret (0, out))"

definition gateway_pm_action_reboot :: "c_int \<Rightarrow> plugin_id \<Rightarrow> byte \<Rightarrow> core \<Rightarrow> (c_int \<times> core) outcome" where
  "gateway_pm_action_reboot start_ret pid action c =
     outcome_bind (pm_action_reboot start_ret pid action (core_pm c)) (\<lambda>(ret, p).
       Ret (ret, c\<lparr>core_pm := p\<rparr>))"

definition gateway_hk_get_type ::
    "float_lib \<Rightarrow> plugin_id \<Rightarrow> string \<Rightarrow> nat option \<Rightarrow> core \<Rightarrow> (c_int \<times> string) outcome" where
  "gateway_hk_get_type fl pid tname out_buf c = hk_serialize fl pid tname out_buf (core_hk c)"

definition gateway_hk_field_exists :: "plugin_id \<Rightarrow> string \<Rightarrow> string \<Rightarrow> core \<Rightarrow> c_int outcome" where
  "gateway_hk_field_exists pid tname fname c =
     outcome_bind (hk_field_exists pid tname fname (core_hk c)) (\<lambda>b. Ret (if b then 1 else 0))"

definition gateway_hk_set_type ::
    "float_lib \<Rightarrow> ((u64 \<rightharpoonup> string) \<Rightarrow> u64) \<Rightarrow> plugin_id \<Rightarrow> string \<Rightarrow> string option \<Rightarrow> core
      \<Rightarrow> (c_int \<times> core) outcome" where
  "gateway_hk_set_type fl alloc pid tname data c =
     outcome_bind (hk_deserialize fl alloc pid tname data (core_hk c)) (\<lambda>(_, k).
       Ret (1, c\<lparr>core_hk := k\<rparr>))"

section \<open>Lemmas\<close>

text \<open>A library that has everything, and the state a successful initialization leaves.\<close>

definition lib_complete :: "gateway_lib \<Rightarrow> bool" where
  "lib_complete lib \<longleftrightarrow> lib_stat_ok lib \<and> lib_dlopen_ok lib \<and> lib_init lib \<and> lib_start lib
     \<and> lib_stop lib \<and> lib_close lib \<and> lib_on_data lib"

text \<open>Between the commands of a client: a connected library is alive and all its functions are known.\<close>

definition lib_inv :: "gw \<Rightarrow> bool" where
  "lib_inv g \<longleftrightarrow> gw_inv g
     \<and> (g_gateway_connected_flag g \<longrightarrow> gateway_is_alive g)
     \<and> (gateway_is_alive g \<longrightarrow> start_fn g \<and> stop_fn g \<and> close_fn g \<and> on_data_fn g)"

lemma lib_inv_initial: "lib_inv gw_initial"
  by (simp add: lib_inv_def gw_initial_def gw_inv_def MAX_TOTAL_SIZE_def MSG_SIZE_def MAX_MSG_COUNT_def)

lemma gw_inv_flags [simp]:
  "gw_inv (g\<lparr>g_gateway_connected_flag := a\<rparr>) = gw_inv g" "gw_inv (g\<lparr>gateway_is_alive := b\<rparr>) = gw_inv g"
  "gw_inv (gw_call e g) = gw_inv g" "gw_inv (g\<lparr>init_fn := c\<rparr>) = gw_inv g" "gw_inv (g\<lparr>start_fn := c\<rparr>) = gw_inv g"
  "gw_inv (g\<lparr>stop_fn := c\<rparr>) = gw_inv g" "gw_inv (g\<lparr>close_fn := c\<rparr>) = gw_inv g" "gw_inv (g\<lparr>on_data_fn := c\<rparr>) = gw_inv g"
  "gw_inv (g\<lparr>dispatcher_running := d\<rparr>) = gw_inv g"
  by (auto simp: gw_inv_def gw_call_def)

lemma gw_call_fields [simp]:
  "g_gateway_connected_flag (gw_call e g) = g_gateway_connected_flag g"
  "gateway_is_alive (gw_call e g) = gateway_is_alive g" "start_fn (gw_call e g) = start_fn g"
  "stop_fn (gw_call e g) = stop_fn g" "close_fn (gw_call e g) = close_fn g"
  "on_data_fn (gw_call e g) = on_data_fn g" "gw_trace (gw_call e g) = gw_trace g @ [e]"
  "gateway_on_data_cb (gw_call e g) = gateway_on_data_cb g"
  "arena_d_instance (gw_call e g) = arena_d_instance g" "current_offset (gw_call e g) = current_offset g"
  by (simp_all add: gw_call_def)

section \<open>Sequences of operations\<close>

datatype gw_op =
    Lib_init gateway_lib
  | Lib_start
  | Lib_stop
  | Lib_restart
  | Lib_close bool
  | Core_message api_type string
  | Dispatcher_round

fun gw_exec :: "gw_op \<Rightarrow> gw \<Rightarrow> gw outcome" where
  "gw_exec (Lib_init lib) g = Ret (snd (gateway_init_lib lib g))"
| "gw_exec Lib_start g = gateway_start_lib g"
| "gw_exec Lib_stop g = gateway_stop_lib g"
| "gw_exec Lib_restart g = gateway_restart_lib g"
| "gw_exec (Lib_close asleep) g = gateway_close_lib asleep g"
| "gw_exec (Core_message t l) g = Ret (gateway_report t l g)"
| "gw_exec Dispatcher_round g = dispatcher_round g"

inductive gw_reach :: "gw \<Rightarrow> gw_op list \<Rightarrow> gw \<Rightarrow> bool" where
  gw_reach_nil: "gw_reach g [] g"
| gw_reach_step: "gw_exec op g = Ret g1 \<Longrightarrow> gw_reach g1 ops g2 \<Longrightarrow> gw_reach g (op # ops) g2"

fun is_lifecycle :: "gw_event \<Rightarrow> bool" where
  "is_lifecycle (Gw_on_data _) = False"
| "is_lifecycle _ = True"

definition lib_calls :: "gw \<Rightarrow> gw_event list" where
  "lib_calls g = filter is_lifecycle (gw_trace g)"

text \<open>A library that counts as alive without being connected.\<close>

definition stuck :: "gw \<Rightarrow> bool" where
  "stuck g \<longleftrightarrow> gw_inv g \<and> gateway_is_alive g \<and> \<not> g_gateway_connected_flag g"

lemma round_flags:
  "dispatcher_round g = Ret g' \<Longrightarrow> gateway_is_alive g' = gateway_is_alive g
    \<and> g_gateway_connected_flag g' = g_gateway_connected_flag g \<and> lib_calls g' = lib_calls g
    \<and> start_fn g' = start_fn g \<and> stop_fn g' = stop_fn g \<and> close_fn g' = close_fn g \<and> on_data_fn g' = on_data_fn g"
  by (auto simp: dispatcher_round_def gateway_d_flush_def gw_call_def lib_calls_def Let_def
      split: if_splits option.splits)

lemma report_flags:
  "gateway_is_alive (gateway_report t l g) = gateway_is_alive g
    \<and> g_gateway_connected_flag (gateway_report t l g) = g_gateway_connected_flag g
    \<and> lib_calls (gateway_report t l g) = lib_calls g \<and> start_fn (gateway_report t l g) = start_fn g
    \<and> stop_fn (gateway_report t l g) = stop_fn g \<and> close_fn (gateway_report t l g) = close_fn g
    \<and> on_data_fn (gateway_report t l g) = on_data_fn g"
  by (auto simp: gateway_report_def gateway_msg_send_def gateway_d_msg_add_def lib_calls_def Let_def
      split: option.splits)

lemma stuck_step:
  assumes "stuck g"
  shows "\<exists>g'. gw_exec op g = Ret g' \<and> stuck g' \<and> lib_calls g' = lib_calls g"
proof (cases op)
  case Dispatcher_round
  from assms flush_ok obtain g' where "dispatcher_round g = Ret g'" "gw_inv g'" by (auto simp: stuck_def)
  with assms round_flags [of g g'] Dispatcher_round show ?thesis by (simp add: stuck_def)
next
  case (Core_message t l)
  with assms report_flags [of t l g] show ?thesis by (simp add: stuck_def inv_intros)
qed (use assms in \<open>simp_all add: stuck_def gateway_init_lib_def gateway_start_lib_def gateway_stop_lib_def
      gateway_restart_lib_def gateway_close_lib_def\<close>)

lemma stuck_forever: "stuck g \<Longrightarrow> \<exists>g'. gw_reach g ops g' \<and> stuck g' \<and> lib_calls g' = lib_calls g"
proof (induction ops arbitrary: g)
  case (Cons op ops)
  from stuck_step [OF Cons.prems, of op] obtain g1 where
    g1: "gw_exec op g = Ret g1" "stuck g1" "lib_calls g1 = lib_calls g" by blast
  from Cons.IH [OF g1(2)] obtain g' where "gw_reach g1 ops g'" "stuck g'" "lib_calls g' = lib_calls g1" by blast
  with g1 show ?case by (auto intro: gw_reach_step)
qed (auto intro: gw_reach_nil)

lemma gw_reach_det: "gw_reach g ops g1 \<Longrightarrow> gw_reach g ops g2 \<Longrightarrow> g1 = g2"
proof (induction arbitrary: g2 rule: gw_reach.induct)
  case (gw_reach_step op g g1 ops g')
  from gw_reach_step.prems show ?case
    by (cases rule: gw_reach.cases) (use gw_reach_step.hyps(1) gw_reach_step.IH in auto)
qed (auto elim: gw_reach.cases)

section \<open>Properties\<close>


text \<open>
  Closing a running library stops it, closes it and forgets it, so that another one can be
  loaded. But the dispatcher thread is joined only after that: if it was asleep with messages
  waiting, it hands them to \<open>gateway_on_data\<close> of the library that was already closed.
\<close>

theorem gateway_close_delivers_late:
  assumes "lib_inv g" "g_gateway_connected_flag g"
  shows "\<exists>g'. gateway_close_lib asleep g = Ret g'
    \<and> gw_trace g' = gw_trace g @ [Gw_stop, Gw_close]
        @ (if asleep \<and> pending g \<noteq> [] then [Gw_on_data (pending g)] else [])
    \<and> \<not> g_gateway_connected_flag g' \<and> \<not> gateway_is_alive g' \<and> arena_d_instance g' = None
    \<and> (lib_complete lib \<longrightarrow> fst (gateway_init_lib lib g') = GATEWAY_OK)"
proof -
  have fns: "gateway_is_alive g" "stop_fn g" "close_fn g" using assms by (simp_all add: lib_inv_def)
  have inv: "gw_inv g" using assms(1) by (simp add: lib_inv_def)
  let ?g = "(gw_call Gw_close (gw_call Gw_stop g))\<lparr>g_gateway_connected_flag := False, gateway_is_alive := False,
      dispatcher_running := False\<rparr>"
  have close: "gateway_close_lib asleep g = outcome_bind (if asleep then dispatcher_round ?g else Ret ?g)
      (\<lambda>g1. Ret (g1\<lparr>arena_d_instance := None, current_offset := 0, gateway_on_data_cb := False,
        init_fn := False, start_fn := False, stop_fn := False, on_data_fn := False, close_fn := False\<rparr>))"
    using assms(2) fns
    by (auto simp: gateway_close_lib_def lib_call_def gateway_clear_def gateway_dispatcher_close_def gw_call_def
        outcome_bind_assoc split: if_splits)
  have len: "length (pending g) = current_offset g" using length_pending [OF inv] .
  show ?thesis
  proof (cases "asleep \<and> pending g \<noteq> []")
    case True
    then obtain arena where arena: "arena_d_instance g = Some arena" by (auto simp: pending_def split: option.splits)
    have "dispatcher_round ?g = Ret (gw_call (Gw_on_data (pending g)) ?g\<lparr>current_offset := 0\<rparr>)"
      using True inv arena len
      by (auto simp: dispatcher_round_def gateway_d_flush_def gw_call_def pending_def gw_inv_def Let_def)
    with True show ?thesis
      unfolding close by (simp add: gateway_init_lib_def lib_complete_def Let_def gw_call_def)
  next
    case False
    have "asleep \<Longrightarrow> dispatcher_round ?g = Ret ?g"
      using False len by (simp add: dispatcher_round_def gw_call_def)
    with False show ?thesis
      unfolding close by (auto simp: gateway_init_lib_def lib_complete_def Let_def gw_call_def)
  qed
qed

text \<open>
  C38. \<open>gateway_stop_lib\<close> followed by \<open>gateway_close_lib\<close>, the way a library is meant to be stopped,
  leaves it for ever: the second call does nothing, so the library is never closed, and no sequence
  of calls after that makes another call into it or lets another library be loaded.
\<close>

theorem gateway_stop_is_final:
  assumes "lib_inv g" "g_gateway_connected_flag g"
  shows "\<exists>g1. gateway_stop_lib g = Ret g1 \<and> gateway_close_lib asleep g1 = Ret g1
    \<and> lib_calls g1 = lib_calls g @ [Gw_stop]
    \<and> (\<exists>g2. gw_reach g1 ops g2)
    \<and> (\<forall>g2. gw_reach g1 ops g2 \<longrightarrow>
        lib_calls g2 = lib_calls g1 \<and> gateway_init_lib lib g2 = (GATEWAY_ALREADY_INITIALIZED, g2))"
proof -
  have fns: "gateway_is_alive g" "stop_fn g" "gw_inv g" using assms by (simp_all add: lib_inv_def)
  let ?g1 = "gw_call Gw_stop (g\<lparr>g_gateway_connected_flag := False\<rparr>)"
  have stop: "gateway_stop_lib g = Ret ?g1" using assms(2) fns by (simp add: gateway_stop_lib_def lib_call_def)
  have "stuck ?g1" using fns by (simp add: stuck_def)
  from stuck_forever [OF this, of ops] obtain g' where g': "gw_reach ?g1 ops g'" "stuck g'"
    "lib_calls g' = lib_calls ?g1" by blast
  moreover have "gateway_init_lib lib g' = (GATEWAY_ALREADY_INITIALIZED, g')"
    using g'(2) by (simp add: stuck_def gateway_init_lib_def)
  ultimately have "\<forall>g2. gw_reach ?g1 ops g2 \<longrightarrow>
      lib_calls g2 = lib_calls ?g1 \<and> gateway_init_lib lib g2 = (GATEWAY_ALREADY_INITIALIZED, g2)"
    using gw_reach_det [OF g'(1)] by blast
  moreover have "gateway_close_lib asleep ?g1 = Ret ?g1" by (simp add: gateway_close_lib_def)
  moreover have "lib_calls ?g1 = lib_calls g @ [Gw_stop]" by (simp add: lib_calls_def)
  ultimately show ?thesis using stop g'(1) by blast
qed

definition sample_gw :: gw where
  "sample_gw = gw_initial\<lparr>g_gateway_connected_flag := True, gateway_is_alive := True, init_fn := True,
     start_fn := True, stop_fn := True, on_data_fn := True, close_fn := True, gateway_on_data_cb := True,
     arena_d_instance := Some (\<lambda>_. CHR ''m''), current_offset := 2, gw_trace := [Gw_init, Gw_start]\<rparr>"

lemma sample_gw_ok: "lib_inv sample_gw" "g_gateway_connected_flag sample_gw" "pending sample_gw = ''mm''"
  by (simp_all add: sample_gw_def lib_inv_def gw_inv_def gw_initial_def MAX_TOTAL_SIZE_def MSG_SIZE_def
      MAX_MSG_COUNT_def pending_def numeral_2_eq_2)

definition full_lib :: gateway_lib where
  "full_lib = \<lparr> lib_stat_ok = True, lib_dlopen_ok = True, lib_init = True, lib_start = True, lib_stop = True,
     lib_close = True, lib_on_data = True, lib_malloc_ok = True \<rparr>"


theorem gateway_close_delivers_late_witness:
  "\<exists>g'. gateway_close_lib True sample_gw = Ret g'
    \<and> gw_trace g' = [Gw_init, Gw_start, Gw_stop, Gw_close, Gw_on_data ''mm'']"
proof -
  have "gw_trace sample_gw = [Gw_init, Gw_start]" by (simp add: sample_gw_def)
  with gateway_close_delivers_late [OF sample_gw_ok(1,2), of True full_lib] sample_gw_ok(3)
  show ?thesis by auto
qed

theorem gateway_stop_is_final_witness:
  "\<exists>g1. gateway_stop_lib sample_gw = Ret g1
    \<and> (\<exists>g2. gw_reach g1 [Lib_close True, Lib_init full_lib, Lib_start] g2
         \<and> gateway_init_lib full_lib g2 = (GATEWAY_ALREADY_INITIALIZED, g2))"
  using gateway_stop_is_final [OF sample_gw_ok(1,2), of True "[Lib_close True, Lib_init full_lib, Lib_start]" full_lib]
  by blast

end
