(* ===== verification/CoreCtl.thy ===== *)
theory CoreCtl
  imports Gateway
begin

text \<open>
  src/core/core_ctl.c: the control socket of the daemon and its commands, one gateway library and
  one action each.

  The file has a static variable \<open>gateway_is_alive\<close> of its own, next to the one of gateway.c that
  tells whether a library runs: \<open>ctl_alive\<close>. The libraries on disk are a function of the path.
  The calls on the sockets are the events the loops see; the waiting and the timeouts between them
  are not modelled otherwise.
\<close>

section \<open>Commands\<close>

record ctl =
  ctl_alive :: bool
  ctl_gw :: gw

definition ctl_initial :: ctl where
  "ctl_initial = \<lparr> ctl_alive = False, ctl_gw = gw_initial \<rparr>"

definition GATEWAY_LIB_PATH :: string where "GATEWAY_LIB_PATH = ''./gateways/''"
definition LIB_EXT :: string where "LIB_EXT = ''.so''"

text \<open>One conversion \<open>%ns\<close> of \<open>sscanf\<close>: the word, empty if there is none, and the rest.\<close>

definition scan_word :: "nat \<Rightarrow> string \<Rightarrow> string \<times> string" where
  "scan_word n s =
     (let t = dropWhile isspace s;
          w = take n (takeWhile (\<lambda>c. \<not> isspace c) t)
      in (w, drop (length w) t))"

definition scan_command :: "string \<Rightarrow> (string \<times> string) option" where
  "scan_command command =
     (let (lib, r) = scan_word 127 (cstr command);
          (action, _) = scan_word 63 r
      in if lib = [] \<or> action = [] then None else Some (lib, action))"

definition lib_path :: "string \<Rightarrow> string" where
  "lib_path lib = snprintf 256 (GATEWAY_LIB_PATH @ lib @ LIB_EXT)"

definition quoted :: "string \<Rightarrow> string" where
  "quoted p = [CHR 0x27] @ p @ [CHR 0x27]"

text \<open>Loading and starting, the way two of the actions do it.\<close>

definition init_and_start :: "gateway_lib \<Rightarrow> gw \<Rightarrow> (c_int \<times> gw) outcome" where
  "init_and_start lib g =
     (case gateway_init_lib lib g of
        (res, g1) \<Rightarrow>
          if res = GATEWAY_OK then outcome_bind (gateway_start_lib g1) (\<lambda>g2. Ret (res, g2))
          else Ret (res, g1))"

text \<open>The result, the response and the state; \<open>asleep\<close> is for \<open>gateway_close_lib\<close>.\<close>

definition handle_ctl_command ::
    "(string \<Rightarrow> gateway_lib) \<Rightarrow> bool \<Rightarrow> nat \<Rightarrow> string \<Rightarrow> ctl \<Rightarrow> (c_int \<times> string \<times> ctl) outcome" where
  "handle_ctl_command disk asleep resp_size command st =
     (case scan_command command of
        None \<Rightarrow> Ret (- 1, snprintf resp_size ''Invalid command format.'', st)
      | Some (lib, action0) \<Rightarrow>
          let action = map tolower action0;
              path = lib_path lib
          in
          if strcmp action ''start'' = 0 then
            outcome_bind
              (if \<not> ctl_alive st then init_and_start (disk path) (ctl_gw st) else Ret (GATEWAY_OK, ctl_gw st))
              (\<lambda>(res, g). Ret (res, snprintf resp_size
                 (if res = GATEWAY_OK then ''Started '' @ quoted path
                  else ''Failed to start '' @ quoted path @ '': '' @ gateway_status_to_str res),
                 st\<lparr>ctl_gw := g\<rparr>))
          else if strcmp action ''stop'' = 0 then
            outcome_bind
              (if ctl_alive st
               then outcome_bind (gateway_stop_lib (ctl_gw st)) (\<lambda>g1.
                      outcome_bind (gateway_close_lib asleep g1) (\<lambda>g2. Ret (GATEWAY_OK, g2)))
               else Ret (- 1, ctl_gw st))
              (\<lambda>(res, g). Ret (res, snprintf resp_size
                 (if res = GATEWAY_OK then ''Stopped '' @ quoted path else ''Failed to stop '' @ quoted path),
                 st\<lparr>ctl_gw := g\<rparr>))
          else if strcmp action ''restart'' = 0 then
            outcome_bind
              (if ctl_alive st
               then outcome_bind (gateway_restart_lib (ctl_gw st)) (\<lambda>g1. Ret (GATEWAY_OK, g1))
               else init_and_start (disk path) (ctl_gw st))
              (\<lambda>(res, g). Ret (res, snprintf resp_size
                 (if res = GATEWAY_OK then ''Restarted '' @ quoted path
                  else ''Failed to restart '' @ quoted path @ '': '' @ gateway_status_to_str res),
                 st\<lparr>ctl_gw := g\<rparr>))
          else if strcmp action ''status'' = 0 then
            Ret (GATEWAY_OK, snprintf resp_size
              (''Status of '' @ quoted path @ '': '' @ (if ctl_alive st then ''Running'' else ''Stopped'')), st)
          else Ret (- 1, snprintf resp_size (''Unknown action: '' @ quoted action), st))"

section \<open>The server\<close>

text \<open>
  What the calls on a client's socket report, and what those on the listening socket do: an error
  of \<open>select\<close>, its timeout, the end of the stream or an error of \<open>read\<close>, the bytes that one \<open>read\<close>
  returned.
\<close>

datatype client_event = Client_error | Client_timeout | Client_end | Client_data string

datatype server_event = Server_error | Server_timeout | Accept_failed | Accepted "client_event list"

text \<open>
  The loop over one client, with the responses written to it. The buffer has 256 bytes. \<open>Blocked\<close>
  is a loop that waits for more events.
\<close>

fun serve_client ::
    "(string \<Rightarrow> gateway_lib) \<Rightarrow> client_event list \<Rightarrow> ctl \<Rightarrow> (string list \<times> ctl) outcome" where
  "serve_client disk [] st = Blocked"
| "serve_client disk (Client_error # es) st = Ret ([], st)"
| "serve_client disk (Client_timeout # es) st = Ret ([], st)"
| "serve_client disk (Client_end # es) st = Ret ([], st)"
| "serve_client disk (Client_data bytes # es) st =
     (let buffer = take 255 bytes @ [NUL]
      in outcome_bind (handle_ctl_command disk True 256 buffer st) (\<lambda>(_, resp, st1).
           outcome_bind (serve_client disk es st1) (\<lambda>(resps, st2). Ret (resp # resps, st2))))"

fun serve ::
    "(string \<Rightarrow> gateway_lib) \<Rightarrow> server_event list \<Rightarrow> ctl \<Rightarrow> (string list list \<times> ctl) outcome" where
  "serve disk [] st = Blocked"
| "serve disk (Server_error # es) st = Ret ([], st)"
| "serve disk (Server_timeout # es) st = Ret ([], st)"
| "serve disk (Accept_failed # es) st = Ret ([], st)"
| "serve disk (Accepted cs # es) st =
     outcome_bind (serve_client disk cs st) (\<lambda>(resps, st1).
       outcome_bind (serve disk es st1) (\<lambda>(more, st2). Ret (resps # more, st2)))"

text \<open>\<open>socket\<close>, \<open>bind\<close> and \<open>listen\<close> either all succeed or the result is -1.\<close>

definition create_and_bind_socket :: "bool \<Rightarrow> bool \<Rightarrow> bool \<Rightarrow> nat \<Rightarrow> int" where
  "create_and_bind_socket socket_ok bind_ok listen_ok fd =
     (if \<not> socket_ok then - 1 else if \<not> bind_ok then - 1 else if \<not> listen_ok then - 1 else int fd)"

definition unix_sock_ctl_run ::
    "(string \<Rightarrow> gateway_lib) \<Rightarrow> int \<Rightarrow> server_event list \<Rightarrow> ctl \<Rightarrow> (c_int \<times> string list list \<times> ctl) outcome" where
  "unix_sock_ctl_run disk listen_fd es st =
     (if listen_fd < 0 then Ret (- 1, [], st)
      else outcome_bind (serve disk es st) (\<lambda>(resps, st1). Ret (0, resps, st1)))"

section \<open>Lemmas\<close>

text \<open>
  The state between commands: the file's own variable is 0, and the library was never called, or it
  was initialized and started.
\<close>

definition ctl_inv :: "ctl \<Rightarrow> bool" where
  "ctl_inv st \<longleftrightarrow> \<not> ctl_alive st \<and> lib_inv (ctl_gw st)
     \<and> (if gateway_is_alive (ctl_gw st)
        then g_gateway_connected_flag (ctl_gw st) \<and> lib_calls (ctl_gw st) = [Gw_init, Gw_start]
        else lib_calls (ctl_gw st) = [])"

lemma ctl_inv_initial: "ctl_inv ctl_initial"
  using lib_inv_initial by (simp add: ctl_inv_def ctl_initial_def) (simp add: gw_initial_def lib_calls_def)

lemma init_and_start_alive:
  "gateway_is_alive g \<Longrightarrow> init_and_start lib g = Ret (GATEWAY_ALREADY_INITIALIZED, g)"
  by (simp add: init_and_start_def gateway_init_lib_def gateway_codes)

lemma init_and_start_ok:
  assumes "ctl_inv st"
  shows "\<exists>res g. init_and_start lib (ctl_gw st) = Ret (res, g) \<and> ctl_inv (st\<lparr>ctl_gw := g\<rparr>)
    \<and> (res = GATEWAY_OK \<longleftrightarrow> \<not> gateway_is_alive (ctl_gw st) \<and> lib_complete lib)
    \<and> (res = GATEWAY_OK \<longrightarrow> gateway_is_alive g)"
proof (cases "gateway_is_alive (ctl_gw st)")
  case True
  with assms show ?thesis by (simp add: init_and_start_alive gateway_codes)
next
  case False
  then have "\<not> g_gateway_connected_flag (ctl_gw st)" using assms by (simp add: ctl_inv_def lib_inv_def)
  with False assms show ?thesis
    by (auto simp: init_and_start_def gateway_init_lib_def lib_complete_def Let_def gateway_codes
        gateway_start_lib_def lib_call_def ctl_inv_def lib_inv_def lib_calls_def
        gateway_dispatcher_init_def gw_inv_def MAX_TOTAL_SIZE_def MSG_SIZE_def MAX_MSG_COUNT_def)
qed

text \<open>The daemon while commands arrive: commands, messages of the core, rounds of the dispatcher.\<close>

datatype ctl_op = Ctl_command string | Ctl_message api_type string | Ctl_round

fun ctl_exec :: "(string \<Rightarrow> gateway_lib) \<Rightarrow> ctl_op \<Rightarrow> ctl \<Rightarrow> ctl outcome" where
  "ctl_exec disk (Ctl_command c) st = outcome_bind (handle_ctl_command disk True 256 c st) (\<lambda>(_, _, st1). Ret st1)"
| "ctl_exec disk (Ctl_message t l) st = Ret (st\<lparr>ctl_gw := gateway_report t l (ctl_gw st)\<rparr>)"
| "ctl_exec disk Ctl_round st = outcome_bind (dispatcher_round (ctl_gw st)) (\<lambda>g. Ret (st\<lparr>ctl_gw := g\<rparr>))"

inductive ctl_reach :: "(string \<Rightarrow> gateway_lib) \<Rightarrow> ctl \<Rightarrow> bool" for disk where
  ctl_start: "ctl_reach disk ctl_initial"
| ctl_step: "ctl_reach disk st \<Longrightarrow> ctl_exec disk op st = Ret st1 \<Longrightarrow> ctl_reach disk st1"

text \<open>The response to a command, by its action.\<close>

definition start_reply :: "string \<Rightarrow> string \<Rightarrow> string \<Rightarrow> c_int \<Rightarrow> string" where
  "start_reply done verb p res =
     (if res = GATEWAY_OK then done @ quoted p
      else ''Failed to '' @ verb @ '' '' @ quoted p @ '': '' @ gateway_status_to_str res)"

lemma handle_command_cases:
  assumes "ctl_inv st"
  shows "\<exists>res resp g. handle_ctl_command disk asleep n c st = Ret (res, snprintf n resp, st\<lparr>ctl_gw := g\<rparr>)
    \<and> ctl_inv (st\<lparr>ctl_gw := g\<rparr>)"
proof -
  have keep: "st\<lparr>ctl_gw := ctl_gw st\<rparr> = st" by simp
  have dead: "\<not> ctl_alive st" using assms by (simp add: ctl_inv_def)
  show ?thesis
  proof (cases "scan_command c")
    case None
    then show ?thesis using assms keep
      by (intro exI [of _ "- 1"] exI [of _ "''Invalid command format.''"] exI [of _ "ctl_gw st"])
        (simp add: handle_ctl_command_def)
  next
    case (Some la)
    obtain lib act where la: "la = (lib, act)" by (cases la)
    obtain res g where "init_and_start (disk (lib_path lib)) (ctl_gw st) = Ret (res, g)" "ctl_inv (st\<lparr>ctl_gw := g\<rparr>)"
      using init_and_start_ok [OF assms] by blast
    moreover have "\<exists>g. st = st\<lparr>ctl_gw := g\<rparr> \<and> ctl_inv (st\<lparr>ctl_gw := g\<rparr>)"
      using assms keep by (intro exI [of _ "ctl_gw st"]) simp
    ultimately show ?thesis
      using assms dead keep unfolding handle_ctl_command_def Some la option.case prod.case Let_def
      by (simp split: if_splits) blast
  qed
qed

lemma ctl_exec_ok:
  assumes "ctl_inv st"
  shows "\<exists>st1. ctl_exec disk op st = Ret st1 \<and> ctl_inv st1"
proof (cases op)
  case (Ctl_command c)
  with handle_command_cases [OF assms, of disk True 256 c] show ?thesis by auto
next
  case (Ctl_message t l)
  then show ?thesis using assms report_flags [of t l "ctl_gw st"]
    by (simp add: ctl_inv_def lib_inv_def inv_intros)
next
  case Ctl_round
  from assms flush_ok obtain g where "dispatcher_round (ctl_gw st) = Ret g" "gw_inv g"
    by (auto simp: ctl_inv_def lib_inv_def)
  with Ctl_round assms round_flags [of "ctl_gw st" g] show ?thesis by (simp add: ctl_inv_def lib_inv_def)
qed

lemma ctl_reach_inv: "ctl_reach disk st \<Longrightarrow> ctl_inv st"
proof (induction rule: ctl_reach.induct)
  case (ctl_step st op st1)
  then show ?case using ctl_exec_ok [of st disk op] by auto
qed (rule ctl_inv_initial)

lemma strcmp_text: "strcmp s s = 0"
  by (induction s) auto

lemma start_command:
  assumes "\<not> ctl_alive st" "scan_command c = Some (lib, act)" "map tolower act = verb"
    and "verb = ''start'' \<and> done = ''Started '' \<or> verb = ''restart'' \<and> done = ''Restarted ''"
  shows "handle_ctl_command disk asleep n c st =
      outcome_bind (init_and_start (disk (lib_path lib)) (ctl_gw st)) (\<lambda>(res, g).
        Ret (res, snprintf n (start_reply done verb (lib_path lib) res), st\<lparr>ctl_gw := g\<rparr>))"
  using assms(4)
proof
  assume "verb = ''start'' \<and> done = ''Started ''"
  then have v: "verb = ''start''" "done = ''Started ''" by simp_all
  show ?thesis
    unfolding handle_ctl_command_def assms(2,3) option.case prod.case Let_def start_reply_def v
    using assms(1) by (simp add: strcmp_text cong: if_cong)
next
  assume "verb = ''restart'' \<and> done = ''Restarted ''"
  then have v: "verb = ''restart''" "done = ''Restarted ''" by simp_all
  show ?thesis
    unfolding handle_ctl_command_def assms(2,3) option.case prod.case Let_def start_reply_def v
    using assms(1) by (simp add: strcmp_text cong: if_cong)
qed

lemma start_command_ok:
  assumes "ctl_inv st" "scan_command c = Some (lib, act)" "map tolower act = verb"
    and "verb = ''start'' \<and> done = ''Started '' \<or> verb = ''restart'' \<and> done = ''Restarted ''"
    and "\<not> gateway_is_alive (ctl_gw st)" "lib_complete (disk (lib_path lib))"
  shows "\<exists>g. handle_ctl_command disk asleep n c st =
        Ret (GATEWAY_OK, snprintf n (done @ quoted (lib_path lib)), st\<lparr>ctl_gw := g\<rparr>)
      \<and> gateway_is_alive g \<and> g_gateway_connected_flag g \<and> lib_calls g = [Gw_init, Gw_start]"
proof -
  have "\<not> ctl_alive st" using assms(1) by (simp add: ctl_inv_def)
  note cmd = start_command [OF this assms(2-4)]
  from init_and_start_ok [OF assms(1), of "disk (lib_path lib)"] assms(5,6) show ?thesis
    by (auto simp: cmd ctl_inv_def start_reply_def)
qed

section \<open>Properties\<close>

text \<open>
  The variable that the commands look at is never set: whatever commands came before, \<open>stop\<close> is
  refused without touching the library, and \<open>status\<close> reports a stopped gateway, also while a
  library runs. The library's stop and close functions are never called.
\<close>

theorem ctl_never_stops:
  assumes "ctl_reach disk st" "scan_command c = Some (lib, act)"
  shows "(map tolower act = ''stop'' \<longrightarrow> handle_ctl_command disk asleep n c st =
           Ret (- 1, snprintf n (''Failed to stop '' @ quoted (lib_path lib)), st))
    \<and> (map tolower act = ''status'' \<longrightarrow> handle_ctl_command disk asleep n c st =
           Ret (GATEWAY_OK, snprintf n (''Status of '' @ quoted (lib_path lib) @ '': Stopped''), st))
    \<and> set (lib_calls (ctl_gw st)) \<subseteq> {Gw_init, Gw_start}"
proof -
  have inv: "ctl_inv st" using ctl_reach_inv [OF assms(1)] .
  then have dead: "\<not> ctl_alive st" by (simp add: ctl_inv_def)
  have "set (lib_calls (ctl_gw st)) \<subseteq> {Gw_init, Gw_start}"
    using inv by (auto simp: ctl_inv_def split: if_splits)
  with dead show ?thesis
    unfolding handle_ctl_command_def assms(2) option.case prod.case Let_def
    by (simp add: gateway_codes)
qed

text \<open>
  The first \<open>start\<close> or \<open>restart\<close> of a complete library succeeds and leaves it initialized,
  started and connected. From then on every \<open>start\<close> and \<open>restart\<close> fails with the text that a gateway
  is already initialized, and changes nothing.
\<close>

theorem ctl_starts_once:
  assumes "ctl_reach disk st" "scan_command c = Some (lib, act)"
    and "map tolower act = verb" "verb = ''start'' \<and> done = ''Started '' \<or> verb = ''restart'' \<and> done = ''Restarted ''"
  shows "(\<not> gateway_is_alive (ctl_gw st) \<and> lib_complete (disk (lib_path lib)) \<longrightarrow>
      (\<exists>g. handle_ctl_command disk asleep n c st =
             Ret (GATEWAY_OK, snprintf n (done @ quoted (lib_path lib)), st\<lparr>ctl_gw := g\<rparr>)
        \<and> gateway_is_alive g \<and> g_gateway_connected_flag g \<and> lib_calls g = [Gw_init, Gw_start]))
    \<and> (gateway_is_alive (ctl_gw st) \<longrightarrow>
      handle_ctl_command disk asleep n c st = Ret (GATEWAY_ALREADY_INITIALIZED,
        snprintf n (''Failed to '' @ verb @ '' '' @ quoted (lib_path lib) @ '': Gateway is already initialized.''), st))"
proof -
  have inv: "ctl_inv st" using ctl_reach_inv [OF assms(1)] .
  then have dead: "\<not> ctl_alive st" by (simp add: ctl_inv_def)
  note cmd = start_command [OF dead assms(2-4)]
  have "st\<lparr>ctl_gw := ctl_gw st\<rparr> = st" by simp
  then have "gateway_is_alive (ctl_gw st) \<longrightarrow> handle_ctl_command disk asleep n c st =
      Ret (GATEWAY_ALREADY_INITIALIZED, snprintf n (start_reply done verb (lib_path lib) GATEWAY_ALREADY_INITIALIZED), st)"
    by (simp add: cmd init_and_start_alive)
  moreover note start_command_ok [OF inv assms(2-4)]
  ultimately show ?thesis
    by (simp add: start_reply_def gateway_status_to_str_def gateway_codes)
qed

text \<open>A session of a client that sends commands and then hangs up.\<close>

definition session :: "string list \<Rightarrow> server_event" where
  "session reads = Accepted (map Client_data reads @ [Client_end])"

lemma serve_client_session:
  assumes "ctl_inv st"
  shows "\<exists>resps st1. serve_client disk (map Client_data reads @ [Client_end]) st = Ret (resps, st1)
    \<and> ctl_inv st1 \<and> length resps = length reads \<and> (\<forall>r\<in>set resps. length r < 256)"
  using assms
proof (induction reads arbitrary: st)
  case (Cons bytes reads)
  from handle_command_cases [OF Cons.prems, of disk True 256 "take 255 bytes @ [NUL]"] obtain res resp g where
    h: "handle_ctl_command disk True 256 (take 255 bytes @ [NUL]) st = Ret (res, snprintf 256 resp, st\<lparr>ctl_gw := g\<rparr>)"
    "ctl_inv (st\<lparr>ctl_gw := g\<rparr>)" by blast
  from Cons.IH [OF h(2)] obtain resps st1 where
    "serve_client disk (map Client_data reads @ [Client_end]) (st\<lparr>ctl_gw := g\<rparr>) = Ret (resps, st1)"
    "ctl_inv st1" "length resps = length reads" "\<forall>r\<in>set resps. length r < 256" by blast
  with h length_snprintf_less [of 256 resp] show ?case by (simp add: Let_def)
qed simp

lemma serve_sessions:
  assumes "ctl_inv st"
  shows "\<exists>resps st1. serve disk (map session sessions @ [Server_timeout]) st = Ret (resps, st1)
    \<and> ctl_inv st1 \<and> map length resps = map length sessions \<and> (\<forall>rs\<in>set resps. \<forall>r\<in>set rs. length r < 256)"
  using assms
proof (induction sessions arbitrary: st)
  case (Cons reads sessions)
  from serve_client_session [OF Cons.prems, of disk reads] obtain rs st1 where
    c: "serve_client disk (map Client_data reads @ [Client_end]) st = Ret (rs, st1)" "ctl_inv st1"
    "length rs = length reads" "\<forall>r\<in>set rs. length r < 256" by blast
  from Cons.IH [OF c(2)] obtain resps st2 where
    "serve disk (map session sessions @ [Server_timeout]) st1 = Ret (resps, st2)" "ctl_inv st2"
    "map length resps = map length sessions" "\<forall>rs\<in>set resps. \<forall>r\<in>set rs. length r < 256" by blast
  with c show ?case by (simp add: session_def [of reads])
qed simp



lemma scan_sample: "scan_command ''mqtt Stop'' = Some (''mqtt'', ''Stop'')"
  "scan_command ''mqtt start'' = Some (''mqtt'', ''start'')"
  by (simp_all add: scan_command_def scan_word_def isspace_def Let_def)

theorem ctl_never_stops_witness:
  "handle_ctl_command (\<lambda>_. full_lib) True 256 ''mqtt Stop'' ctl_initial =
     Ret (- 1, snprintf 256 (''Failed to stop '' @ quoted (lib_path ''mqtt'')), ctl_initial)"
proof -
  have "map tolower ''Stop'' = ''stop''" by code_simp
  with ctl_never_stops [OF ctl_start scan_sample(1), of "\<lambda>_. full_lib" True 256] show ?thesis by blast
qed

theorem ctl_starts_once_witness:
  "\<exists>g. handle_ctl_command (\<lambda>_. full_lib) True 256 ''mqtt start'' ctl_initial =
     Ret (GATEWAY_OK, snprintf 256 (''Started '' @ quoted (lib_path ''mqtt'')), ctl_initial\<lparr>ctl_gw := g\<rparr>)
    \<and> lib_calls g = [Gw_init, Gw_start]"
proof -
  have "map tolower ''start'' = ''start''" by code_simp
  moreover have "\<not> gateway_is_alive (ctl_gw ctl_initial)" "lib_complete full_lib"
    by (simp_all add: ctl_initial_def gw_initial_def lib_complete_def full_lib_def)
  ultimately show ?thesis
    using ctl_starts_once [OF ctl_start scan_sample(2), of "''start''" "''Started ''" "\<lambda>_. full_lib" True 256] by auto
qed

end
