(* ===== verification/CrashHandler.thy ===== *)
theory CrashHandler
  imports EventBus Scheduler Heapkit
begin

text \<open>
  src/core/crash_recovery.c: the handler of the fatal signals. It looks for the marker of an
  \<open>error_context_t\<close> in the bytes above the stack pointer of the interrupted thread, stores the
  signal there and jumps back into the loop whose marker it found.

  The stack is the list of the bytes from the stack pointer up to the end of the stack; reading
  past it is a fault of its own. The order of bytes is that of the machine, little endian.
\<close>

section \<open>The handler\<close>

definition RAW_BUFFER_SIZE :: nat where "RAW_BUFFER_SIZE = 512"

definition error_context_size :: nat where "error_context_size = 24"

text \<open>The signals it is installed for, with \<open>SA_SIGINFO\<close> and \<open>SA_ONSTACK\<close>.\<close>

datatype fatal_signal = SIGSEGV | SIGBUS | SIGILL | SIGFPE

definition crash_recovery_init :: "fatal_signal list \<Rightarrow> fatal_signal list" where
  "crash_recovery_init handled = [SIGSEGV, SIGBUS, SIGILL, SIGFPE] @ handled"

text \<open>The contexts in memory.\<close>

definition context_bytes :: "error_context \<Rightarrow> byte list" where
  "context_bytes ctx =
     le_bytes 8 (unat (marker ctx)) @ le_bytes 4 (unat (signal ctx)) @ le_bytes 4 (unat (signal_code ctx))
     @ le_bytes 8 (unat (fault_address ctx))"

datatype crash_jump = Jump_scheduler | Jump_event_bus | Process_exit

definition marker_at :: "byte list \<Rightarrow> nat \<Rightarrow> u64 outcome" where
  "marker_at stack i = outcome_bind (mem_read stack i 8) (\<lambda>bs. Ret (of_nat (le_val bs)))"

definition store_context :: "c_int \<Rightarrow> c_int \<Rightarrow> u64 \<Rightarrow> nat \<Rightarrow> byte list \<Rightarrow> byte list outcome" where
  "store_context sig code addr i stack =
     outcome_bind (mem_write stack (i + 8) (le_bytes 4 (unat sig))) (\<lambda>s1.
       outcome_bind (mem_write s1 (i + 12) (le_bytes 4 (unat code))) (\<lambda>s2.
         mem_write s2 (i + 16) (le_bytes 8 (unat addr))))"

fun crash_scan ::
    "c_int \<Rightarrow> c_int \<Rightarrow> u64 \<Rightarrow> nat list \<Rightarrow> byte list \<Rightarrow> (crash_jump \<times> byte list) outcome" where
  "crash_scan sig code addr [] stack = Ret (Process_exit, stack)"
| "crash_scan sig code addr (i # js) stack =
     outcome_bind (marker_at stack i) (\<lambda>m.
       if m = SCHEDULER_ERROR_MARKER
       then outcome_bind (store_context sig code addr i stack) (\<lambda>s. Ret (Jump_scheduler, s))
       else if m = EVENT_BUS_ERROR_MARKER
       then outcome_bind (store_context sig code addr i stack) (\<lambda>s. Ret (Jump_event_bus, s))
       else crash_scan sig code addr js stack)"

definition crash_handler ::
    "c_int \<Rightarrow> c_int \<Rightarrow> u64 \<Rightarrow> byte list \<Rightarrow> (crash_jump \<times> byte list) outcome" where
  "crash_handler sig code addr stack =
     crash_scan sig code addr [0..<RAW_BUFFER_SIZE - error_context_size] stack"

text \<open>
  A callback that crashes in a worker of the event bus: the jump resumes the worker's round, or it
  uses a jump buffer that this thread never filled, or the process ends (\<open>None\<close>).
\<close>

definition bus_crash_round ::
    "c_int \<Rightarrow> c_int \<Rightarrow> u64 \<Rightarrow> byte list \<Rightarrow> crash_env \<Rightarrow> bus_task \<Rightarrow> bus \<times> crash_log \<times> gw
      \<Rightarrow> (byte list \<times> bus \<times> crash_log \<times> gw) option outcome" where
  "bus_crash_round sig code addr stack env task st =
     outcome_bind (crash_handler sig code addr stack) (\<lambda>(j, s).
       case j of
         Jump_event_bus \<Rightarrow> outcome_bind (bus_finish (Some env) task st) (\<lambda>st1. Ret (Some (s, st1)))
       | Jump_scheduler \<Rightarrow> Fault UninitRead
       | Process_exit \<Rightarrow> Ret None)"

section \<open>Lemmas\<close>

definition is_marker :: "u64 \<Rightarrow> bool" where
  "is_marker m \<longleftrightarrow> m = SCHEDULER_ERROR_MARKER \<or> m = EVENT_BUS_ERROR_MARKER"

definition no_marker :: "byte list \<Rightarrow> nat \<Rightarrow> bool" where
  "no_marker stack i \<longleftrightarrow> (\<exists>m. marker_at stack i = Ret m \<and> \<not> is_marker m)"

definition jump_for :: "u64 \<Rightarrow> crash_jump" where
  "jump_for m = (if m = SCHEDULER_ERROR_MARKER then Jump_scheduler else Jump_event_bus)"

lemma crash_scan_skip:
  "\<forall>i\<in>set is. no_marker stack i \<Longrightarrow> crash_scan sig code addr (is @ js) stack = crash_scan sig code addr js stack"
  by (induction "is") (auto simp: no_marker_def is_marker_def)

lemma le_bytes_word:
  "of_nat (le_val (le_bytes 8 (unat (w :: u64)))) = w"
proof -
  have "unat w mod 256 ^ 8 = unat w" using unsigned_less [of w, where ?'a = nat] by simp
  then show ?thesis by (simp add: le_val_le_bytes)
qed

lemma marker_at_frame: "marker_at (pre @ context_bytes ctx @ post) (length pre) = Ret (marker ctx)"
  by (simp add: marker_at_def mem_read_def context_bytes_def le_bytes_word)

lemma store_context_frame:
  "store_context sig code addr (length pre) (pre @ context_bytes ctx @ post) =
    Ret (pre @ context_bytes (ctx\<lparr>signal := sig, signal_code := code, fault_address := addr\<rparr>) @ post)"
  by (simp add: store_context_def mem_write_def context_bytes_def)

lemma crash_scan_first:
  assumes "k < n" "\<forall>i < k. no_marker stack i"
  shows "crash_scan sig code addr [0..<n] stack = crash_scan sig code addr (k # [Suc k..<n]) stack"
proof -
  have "[0..<n] = [0..<k] @ k # [Suc k..<n]"
    using assms(1) upt_add_eq_append [of 0 k "n - k"] upt_conv_Cons [OF assms(1)] by simp
  then show ?thesis using crash_scan_skip [of "[0..<k]" stack] assms(2) by simp
qed

lemma crash_scan_none:
  "\<forall>i < n. no_marker stack i \<Longrightarrow> crash_scan sig code addr [0..<n] stack = Ret (Process_exit, stack)"
  using crash_scan_skip [of "[0..<n]" stack sig code addr "[]"] by simp

lemma crash_handler_window: "crash_handler sig code addr stack = crash_scan sig code addr [0..<488] stack"
proof -
  have "RAW_BUFFER_SIZE - error_context_size = 488" by (simp add: RAW_BUFFER_SIZE_def error_context_size_def)
  then show ?thesis unfolding crash_handler_def by (rule arg_cong)
qed

section \<open>Properties\<close>

text \<open>
  C26. The handler resumes the loop that owns the lowest context within the first 488 bytes above
  the stack pointer, after storing the signal, its code and the address in that context and
  changing nothing else. A context that starts higher is not seen, and the process ends.
\<close>

theorem crash_handler_first_context:
  assumes "stack = pre @ context_bytes ctx @ post" "is_marker (marker ctx)"
  shows "(length pre < 488 \<and> (\<forall>i < length pre. no_marker stack i) \<longrightarrow>
      crash_handler sig code addr stack = Ret (jump_for (marker ctx),
        pre @ context_bytes (ctx\<lparr>signal := sig, signal_code := code, fault_address := addr\<rparr>) @ post))
    \<and> ((\<forall>i < 488. no_marker stack i) \<longrightarrow> crash_handler sig code addr stack = Ret (Process_exit, stack))"
proof (intro conjI impI)
  assume a: "length pre < 488 \<and> (\<forall>i < length pre. no_marker stack i)"
  show "crash_handler sig code addr stack = Ret (jump_for (marker ctx),
      pre @ context_bytes (ctx\<lparr>signal := sig, signal_code := code, fault_address := addr\<rparr>) @ post)"
    unfolding crash_handler_window crash_scan_first [OF conjunct1 [OF a] conjunct2 [OF a]]
    using assms(2) unfolding assms(1)
    by (auto simp: marker_at_frame store_context_frame jump_for_def is_marker_def simp del: upt_Suc)
next
  assume "\<forall>i < 488. no_marker stack i"
  then show "crash_handler sig code addr stack = Ret (Process_exit, stack)"
    unfolding crash_handler_window by (rule crash_scan_none)
qed

text \<open>
  A crash in a callback of the event bus is survived: the worker goes on with its next task and
  the report is queued. But the report is made from the thread's own context and not from the copy
  on the stack that the handler wrote to, so it shows signal 0 and no address whatever happened.
  A scheduler's marker left on the stack below the worker's own sends the worker through a jump
  buffer it never set.
\<close>

theorem bus_crash_reports_no_signal:
  assumes "stack = pre @ context_bytes ctx @ post" "length pre < 488" "\<forall>i < length pre. no_marker stack i"
    and "sub_cb (task_sub task) \<noteq> 0"
  shows "(marker ctx = EVENT_BUS_ERROR_MARKER \<longrightarrow>
      (\<exists>s lg b'. bus_crash_round sig code addr stack env task (b, crash_log_initial, gw_initial)
         = Ret (Some (s, b', lg, gw_initial))
       \<and> s = pre @ context_bytes (ctx\<lparr>signal := sig, signal_code := code, fault_address := addr\<rparr>) @ post
       \<and> g_critical_error_queues lg 0 = (if crash_strdup_ok env
           then Some (event_bus_error_text (crash_ts env) (crash_names env (sub_plugin_id (task_sub task)))
                 SOURCE_EVENT_BUS (cstr (sub_event (task_sub task)))
                 \<lparr> marker = EVENT_BUS_ERROR_MARKER, signal = 0, signal_code = 0, fault_address = 0 \<rparr>)
           else None)))
    \<and> (marker ctx = SCHEDULER_ERROR_MARKER \<longrightarrow>
      bus_crash_round sig code addr stack env task st = Fault UninitRead)"
proof (intro conjI impI)
  let ?s = "pre @ context_bytes (ctx\<lparr>signal := sig, signal_code := code, fault_address := addr\<rparr>) @ post"
  have handler: "crash_handler sig code addr stack = Ret (jump_for (marker ctx), ?s)" if "is_marker (marker ctx)"
    unfolding crash_handler_window crash_scan_first [OF assms(2,3)] using that unfolding assms(1)
    by (auto simp: marker_at_frame store_context_frame jump_for_def is_marker_def simp del: upt_Suc)
  have slot: "find_slot (crash_shift env) 0 0 = Ret (Some 0)"
    by (simp add: find_slot.simps MAX_CRITICAL_ERROR_QUEUE_SIZE_def bit_mask_def)
  { assume m: "marker ctx = EVENT_BUS_ERROR_MARKER"
    then have "is_marker (marker ctx)" "jump_for (marker ctx) = Jump_event_bus"
      by (simp_all add: is_marker_def jump_for_def EVENT_BUS_ERROR_MARKER_def SCHEDULER_ERROR_MARKER_def)
    with handler show "\<exists>s lg b'. bus_crash_round sig code addr stack env task (b, crash_log_initial, gw_initial)
         = Ret (Some (s, b', lg, gw_initial)) \<and> s = ?s
       \<and> g_critical_error_queues lg 0 = (if crash_strdup_ok env
           then Some (event_bus_error_text (crash_ts env) (crash_names env (sub_plugin_id (task_sub task)))
                 SOURCE_EVENT_BUS (cstr (sub_event (task_sub task)))
                 \<lparr> marker = EVENT_BUS_ERROR_MARKER, signal = 0, signal_code = 0, fault_address = 0 \<rparr>)
           else None)"
      using assms(4) slot
      by (simp add: bus_crash_round_def bus_finish_def Let_def add_event_bus_critical_error_def
          add_critical_error_def crash_log_initial_def gw_initial_def mark_slot_used_def bit_mask_def
          event_bus_error_ctx_def) }
  assume "marker ctx = SCHEDULER_ERROR_MARKER"
  then have "is_marker (marker ctx)" "jump_for (marker ctx) = Jump_scheduler"
    by (simp_all add: is_marker_def jump_for_def)
  with handler show "bus_crash_round sig code addr stack env task st = Fault UninitRead"
    by (simp add: bus_crash_round_def)
qed

definition sample_ctx :: error_context where
  "sample_ctx = \<lparr> marker = EVENT_BUS_ERROR_MARKER, signal = 0, signal_code = 0, fault_address = 0 \<rparr>"

theorem crash_handler_first_context_witness:
  "crash_handler 11 1 64 ([] @ context_bytes sample_ctx @ []) = Ret (Jump_event_bus,
     [] @ context_bytes (sample_ctx\<lparr>signal := 11, signal_code := 1, fault_address := 64\<rparr>) @ [])"
proof -
  have "is_marker (marker sample_ctx)" "jump_for (marker sample_ctx) = Jump_event_bus"
    by (simp_all add: sample_ctx_def is_marker_def jump_for_def EVENT_BUS_ERROR_MARKER_def SCHEDULER_ERROR_MARKER_def)
  with crash_handler_first_context [OF refl this(1), of "[]" "[]" 11 1 64] show ?thesis by simp
qed

theorem bus_crash_reports_no_signal_witness:
  "\<exists>s lg b'. bus_crash_round 11 1 64 ([] @ context_bytes sample_ctx @ [])
      \<lparr> crash_shift = Shift_ISO, crash_strdup_ok = True, crash_ts = ''t'', crash_names = (\<lambda>_. None) \<rparr>
      \<lparr> task_data = ''a'', task_len = 1, task_sub = \<lparr> sub_event = ''e'' @ [NUL], sub_plugin_id = 1,
          sub_event_id = 1, sub_cb = 8, sub_user = 0 \<rparr> \<rparr>
      (bus_initial (\<lambda>_. undefined), crash_log_initial, gw_initial) = Ret (Some (s, b', lg, gw_initial))"
proof -
  let ?env = "\<lparr> crash_shift = Shift_ISO, crash_strdup_ok = True, crash_ts = ''t'', crash_names = (\<lambda>_. None) \<rparr>"
  let ?task = "\<lparr> task_data = ''a'', task_len = 1, task_sub = \<lparr> sub_event = ''e'' @ [NUL], sub_plugin_id = 1,
      sub_event_id = 1, sub_cb = 8, sub_user = 0 \<rparr> \<rparr>"
  have h: "length ([] :: byte list) < 488" "\<forall>i < length ([] :: byte list). no_marker ([] @ context_bytes sample_ctx @ []) i"
    "sub_cb (task_sub ?task) \<noteq> 0" "marker sample_ctx = EVENT_BUS_ERROR_MARKER"
    by (simp_all add: sample_ctx_def)
  from bus_crash_reports_no_signal [OF refl h(1-3), of 11 1 64 ?env "bus_initial (\<lambda>_. undefined)"] h(4)
  show ?thesis by blast
qed

end
