(* ===== verification/Runtime.thy ===== *)
theory Runtime
  imports CoreCtl CrashHandler
begin

text \<open>
  src/core/runtime.c and src/core/cored.c: starting the core and taking it down, and the thread
  that runs the control server.

  \<open>init_env\<close> is what the operating system and the plugins answer during one \<open>core_init\<close>. Of the
  logger only the start of its consumer thread appears. The list of services in runtime.c is never
  filled, so \<open>core_shutdown\<close> finds it empty.
\<close>

section \<open>State\<close>

record runtime =
  g_inited :: bool
  rt_bus :: bus
  rt_sched :: scheduler
  rt_pm :: pm
  rt_loader :: loader
  rt_crash :: "crash_log"
  rt_gw :: gw
  rt_handled :: "fatal_signal list"
  rt_consumers :: nat
  rt_pid_file :: "string option"

definition runtime_initial :: "bus \<Rightarrow> runtime" where
  "runtime_initial b =
     \<lparr> g_inited = False, rt_bus = b, rt_sched = scheduler_initial, rt_pm = pm_initial,
       rt_loader = \<lparr> current_id = 1, ld_hk = hk_initial, jit_symbols = False \<rparr>,
       rt_crash = crash_log_initial, rt_gw = gw_initial, rt_handled = [], rt_consumers = 0,
       rt_pid_file = None \<rparr>"

text \<open>\<open>stat(PID_DIR)\<close>, and what \<open>mkdir\<close> says where it is called.\<close>

datatype pid_dir_state = Pid_dir | Pid_not_dir | Pid_mkdir_ok | Pid_mkdir_exists | Pid_mkdir_failed

record init_env =
  env_cwd :: "string option"
  env_pid_dir :: pid_dir_state
  env_pid_open :: bool
  env_pid :: c_int
  env_log_thread :: bool
  env_jit_dlopen :: bool
  env_jit_calloc :: bool
  env_jit_syms :: "bool list"
  env_opendir :: bool
  env_reopen :: bool
  env_plugins :: "(dir_entry \<times> load_env \<times> bool) list"
  env_inits :: "nat \<Rightarrow> c_int"
  env_starts :: "nat \<Rightarrow> c_int"
  env_bus_malloc :: bool
  env_bus_threads :: "nat \<Rightarrow> bool"
  env_sched_thread :: bool

section \<open>Operations\<close>

definition ensure_pid_dir_exists :: "pid_dir_state \<Rightarrow> c_int" where
  "ensure_pid_dir_exists d =
     (case d of Pid_dir \<Rightarrow> 0 | Pid_not_dir \<Rightarrow> - 1 | Pid_mkdir_ok \<Rightarrow> 0 | Pid_mkdir_exists \<Rightarrow> 0
      | Pid_mkdir_failed \<Rightarrow> - 1)"

definition write_pid_file :: "bool \<Rightarrow> c_int \<Rightarrow> runtime \<Rightarrow> c_int \<times> runtime" where
  "write_pid_file open_ok pid rt =
     (if \<not> open_ok then (- 1, rt) else (0, rt\<lparr>rt_pid_file := Some (fmt_d pid @ [NL])\<rparr>))"

text \<open>\<open>cwd\<close> has 1024 bytes, and \<open>strcat\<close> appends nine characters to what \<open>getcwd\<close> stored.\<close>

definition enter_core_dir :: "string \<Rightarrow> string outcome" where
  "enter_core_dir cwd =
     (if length (cwd @ ''/CoreCDTL'') + 1 > 1024 then Fault OutOfBounds else Ret (cwd @ ''/CoreCDTL''))"

text \<open>
  \<open>core_log_init\<close> of src/core/log.c makes the directory logs/ and starts the consumer of the critical
  errors; whether it could is not looked at.
\<close>

definition core_log_init :: "bool \<Rightarrow> runtime \<Rightarrow> runtime" where
  "core_log_init create_ok rt = (if create_ok then rt\<lparr>rt_consumers := rt_consumers rt + 1\<rparr> else rt)"

lemma core_log_init_fields [simp]:
  "g_inited (core_log_init ok rt) = g_inited rt" "rt_bus (core_log_init ok rt) = rt_bus rt"
  "rt_sched (core_log_init ok rt) = rt_sched rt" "rt_pm (core_log_init ok rt) = rt_pm rt"
  "rt_loader (core_log_init ok rt) = rt_loader rt" "rt_gw (core_log_init ok rt) = rt_gw rt"
  "rt_handled (core_log_init ok rt) = rt_handled rt" "rt_pid_file (core_log_init ok rt) = rt_pid_file rt"
  "rt_crash (core_log_init ok rt) = rt_crash rt"
  by (simp_all add: core_log_init_def)

text \<open>From \<open>llvm_jit_init\<close> to \<open>llvm_jit_cleanup\<close>; the result of \<open>plugin_init\<close> is not looked at.\<close>

definition load_plugins :: "init_env \<Rightarrow> runtime \<Rightarrow> runtime outcome" where
  "load_plugins env rt =
     (let l = llvm_jit_init (env_jit_dlopen env) (env_jit_calloc env) (env_jit_syms env) (rt_loader rt)
      in outcome_bind
           (plugin_init (env_opendir env) (env_reopen env) (env_plugins env) (env_inits env) (env_starts env)
              (rt_pm rt, l))
           (\<lambda>(_, p, l1). Ret (rt\<lparr>rt_pm := p, rt_loader := llvm_jit_cleanup l1\<rparr>)))"

definition core_init :: "init_env \<Rightarrow> runtime \<Rightarrow> (c_int \<times> runtime) outcome" where
  "core_init env rt =
     (if g_inited rt then Ret (0, rt)
      else (case env_cwd env of
        None \<Rightarrow> Ret (1, rt)
      | Some cwd \<Rightarrow> outcome_bind (enter_core_dir cwd) (\<lambda>_.
          if ensure_pid_dir_exists (env_pid_dir env) \<noteq> 0 then Ret (2, rt)
          else (case write_pid_file (env_pid_open env) (env_pid env) rt of
            (r, rt1) \<Rightarrow>
              if r \<noteq> 0 then Ret (3, rt1)
              else
                let rt2 = core_log_init (env_log_thread env)
                            (rt1\<lparr>rt_handled := crash_recovery_init (rt_handled rt1)\<rparr>)
                in outcome_bind (load_plugins env rt2) (\<lambda>rt3.
                  case bus_init (env_bus_malloc env) (env_bus_threads env) (rt_bus rt3) of
                    (rb, b) \<Rightarrow>
                      let rt4 = rt3\<lparr>rt_bus := b\<rparr>
                      in if rb \<noteq> 0 then Ret (4, rt4)
                         else (case scheduler_init (env_sched_thread env) (rt_sched rt4) of
                           (rs, s) \<Rightarrow>
                             let rt5 = rt4\<lparr>rt_sched := s\<rparr>
                             in if rs \<noteq> 0 then Ret (5, rt5) else Ret (0, rt5\<lparr>g_inited := True\<rparr>)))))))"

text \<open>\<open>g_api\<close> is a static structure that no statement fills.\<close>

definition core_get_api :: "runtime \<Rightarrow> core_api option" where
  "core_get_api rt = (if g_inited rt then Some zero_api else None)"

text \<open>
  \<open>core_shutdown\<close>: the scheduler, then the bus, whose workers run until they leave their loops.
  \<open>crash\<close> is what the callbacks of the queued events do.
\<close>

definition core_shutdown :: "(bus_task \<Rightarrow> crash_env option) \<Rightarrow> runtime \<Rightarrow> runtime outcome" where
  "core_shutdown crash rt =
     outcome_bind (scheduler_shutdown_end (scheduler_shutdown_begin (rt_sched rt))) (\<lambda>s.
       outcome_bind (bus_worker_thread crash (bus_shutdown_begin (rt_bus rt), rt_crash rt, rt_gw rt)) (\<lambda>(b, cl, g).
         Ret (rt\<lparr>rt_sched := s, rt_bus := bus_shutdown_end b, rt_crash := cl, rt_gw := g,
                 rt_pid_file := None, g_inited := False\<rparr>)))"

section \<open>The control thread\<close>

text \<open>
  cored.c: \<open>SIGUSR1\<close> makes \<open>core_loop\<close> run the control server. \<open>g_ctl_run\<close> is set by the handler
  and never cleared. A round of the loop either waits or runs the server once.
\<close>

record ctl_thread =
  g_run :: bool
  g_ctl_run :: bool

definition signal_cli_handle :: "ctl_thread \<Rightarrow> ctl_thread" where
  "signal_cli_handle t = (if \<not> g_ctl_run t then t\<lparr>g_ctl_run := True\<rparr> else t)"

datatype loop_step = Loop_ended | Loop_serves

definition core_loop_round :: "ctl_thread \<Rightarrow> loop_step outcome" where
  "core_loop_round t =
     (if \<not> g_run t then Ret Loop_ended
      else if \<not> g_ctl_run t then Blocked
      else Ret Loop_serves)"

definition corecdtl_init :: "init_env \<Rightarrow> bool \<Rightarrow> runtime \<Rightarrow> (c_int \<times> runtime) outcome" where
  "corecdtl_init env thread_ok rt =
     outcome_bind (core_init env rt) (\<lambda>(r, rt1).
       if r \<noteq> 0 then Ret (1, rt1)
       else if \<not> thread_ok then Ret (1, rt1)
       else Ret (0, rt1))"

text \<open>
  core_test.c is the same program with a \<open>main\<close> of its own, which sleeps for ever once everything runs:
  nothing clears \<open>g_run\<close>.
\<close>

definition core_test_main :: "init_env \<Rightarrow> bool \<Rightarrow> runtime \<Rightarrow> (c_int \<times> runtime) outcome" where
  "core_test_main env thread_ok rt =
     outcome_bind (core_init env rt) (\<lambda>(r, rt1).
       if r \<noteq> 0 then Ret (1, rt1)
       else if \<not> thread_ok then Ret (1, rt1)
       else Diverges)"

text \<open>
  The versions. Both functions are declared to return a \<open>char*\<close> and return the number of the macro, which
  include/core_api.h sets to 0: an address, the NULL pointer.
\<close>

definition CORECDTL_API_VERSION :: nat where "CORECDTL_API_VERSION = 0"

definition corecdtl_api_version :: u64 where "corecdtl_api_version = of_nat CORECDTL_API_VERSION"
definition corecdtl_abi_version :: u64 where "corecdtl_abi_version = of_nat CORECDTL_ABI_VERSION"

lemma versions_are_NULL: "corecdtl_api_version = 0 \<and> corecdtl_abi_version = 0"
  by (simp add: corecdtl_api_version_def corecdtl_abi_version_def CORECDTL_API_VERSION_def CORECDTL_ABI_VERSION_def)

section \<open>Lemmas\<close>

text \<open>Everything the operating system and the plugins can do to let the start succeed.\<close>

definition env_ok :: "init_env \<Rightarrow> bool" where
  "env_ok env \<longleftrightarrow>
     (\<exists>cwd. env_cwd env = Some cwd \<and> length cwd < 1015)
   \<and> ensure_pid_dir_exists (env_pid_dir env) = 0 \<and> env_pid_open env
   \<and> env_jit_dlopen env \<and> env_jit_calloc env \<and> (\<forall>s\<in>set (env_jit_syms env). s)
   \<and> (env_opendir env \<or> env_reopen env) \<and> (\<forall>i. env_inits env i = 0 \<and> env_starts env i = 0)
   \<and> env_bus_malloc env \<and> (\<forall>i. env_bus_threads env i) \<and> env_sched_thread env"

definition jit_ready :: "loader \<Rightarrow> loader" where
  "jit_ready l = l\<lparr>jit_symbols := True\<rparr>"

lemma load_symbols_all: "load_symbols syms \<longleftrightarrow> (\<forall>s\<in>set syms. s)"
  by (induction syms) auto

lemma jit_init_ok: "env_ok env \<Longrightarrow>
    llvm_jit_init (env_jit_dlopen env) (env_jit_calloc env) (env_jit_syms env) l = jit_ready l"
  by (cases l) (auto simp: llvm_jit_init_def env_ok_def load_symbols_all jit_ready_def)

definition plugin_dirs :: "init_env \<Rightarrow> nat" where
  "plugin_dirs env = length (filter (is_plugin_dir \<circ> fst) (env_plugins env))"

lemma bus_init_threads_ok:
  "\<forall>ok\<in>set created. ok \<Longrightarrow> \<exists>mask. bus_init_threads created i b =
    (True, b\<lparr>thread_count := thread_count b + length created, thread_map_mask := mask\<rparr>)"
proof (induction created arbitrary: i b)
  case (Cons ok created)
  let ?b = "b\<lparr>thread_count := thread_count b + 1, thread_map_mask := thread_map_mask b OR push_bit i 1\<rparr>"
  have "\<forall>ok\<in>set created. ok" using Cons.prems by (meson list.set_intros(2))
  from Cons.IH [OF this, of "i + 1" ?b] Cons.prems show ?case by simp
next
  case Nil
  show ?case by (intro exI [of _ "thread_map_mask b"]) simp
qed

lemma bus_init_ok:
  assumes "\<forall>i. created i"
  shows "\<exists>mask. bus_init True created b =
    (0, b\<lparr>thread_count := thread_count b + MAX_INIT_EVENT_BUS_THREADS, thread_map_mask := mask,
           g_task_event_bus_queue_t := ring_reset (g_task_event_bus_queue_t b)\<rparr>)"
  using bus_init_threads_ok [of "map created [0..<MAX_INIT_EVENT_BUS_THREADS]" 0 b] assms
  by (auto simp: bus_init_def)

text \<open>
  \<open>core_init\<close> starts the plugins first and \<open>bus_init\<close> empties the queue: what they published is not
  delivered, and its memory stays allocated.
\<close>

lemma bus_init_loses_queue:
  assumes "\<forall>i. created i"
  shows "\<exists>b'. bus_init True created b = (0, b') \<and> bus_tasks b' = [] \<and> bus_calls b' = bus_calls b
    \<and> live_payloads b' = live_payloads b"
proof -
  obtain mask where "bus_init True created b =
      (0, b\<lparr>thread_count := thread_count b + MAX_INIT_EVENT_BUS_THREADS, thread_map_mask := mask,
           g_task_event_bus_queue_t := ring_reset (g_task_event_bus_queue_t b)\<rparr>)"
    using bus_init_ok [OF assms] by blast
  then show ?thesis by (simp add: bus_tasks_def ring_list_def ring_reset_def)
qed

text \<open>A working directory of more than 1014 characters fits \<open>cwd\<close>, but not with what is appended.\<close>

lemma long_cwd_overflows:
  assumes "\<not> g_inited rt" "env_cwd env = Some cwd" "1014 < length cwd"
  shows "core_init env rt = Fault OutOfBounds"
  using assms by (simp add: core_init_def enter_core_dir_def)

text \<open>After the first signal the control thread serves in every round, whether a signal came again or not.\<close>

lemma ctl_run_stays:
  assumes "g_run t"
  shows "core_loop_round ((signal_cli_handle ^^ Suc n) t) = Ret Loop_serves"
proof -
  have "g_run ((signal_cli_handle ^^ Suc n) t) \<and> g_ctl_run ((signal_cli_handle ^^ Suc n) t)"
    using assms by (induction n) (auto simp: signal_cli_handle_def)
  then show ?thesis by (simp add: core_loop_round_def)
qed

text \<open>A runtime in which the plugins have the identifiers of their places.\<close>

definition plugins_in_order :: "runtime \<Rightarrow> bool" where
  "plugins_in_order rt \<longleftrightarrow> pm_inv (rt_pm rt)
     \<and> current_id (rt_loader rt) = of_nat (plugins_count (rt_pm rt) + 1)
     \<and> (\<forall>i < plugins_count (rt_pm rt). info_id (pm_handles (rt_pm rt) ! i) = of_nat (i + 1)
          \<and> fn_initialize (pm_handles (rt_pm rt) ! i))"

lemma core_init_ok:
  assumes "env_ok env" "\<not> g_inited rt" "plugins_in_order rt" "all_load (env_plugins env) (jit_ready (rt_loader rt))"
  shows "\<exists>rt'. core_init env rt = Ret (0, rt') \<and> g_inited rt' \<and> plugins_in_order rt'
    \<and> plugins_count (rt_pm rt') = plugins_count (rt_pm rt) + plugin_dirs env
    \<and> (\<forall>i < plugins_count (rt_pm rt'). hot_state (pm_handles (rt_pm rt') ! i) = PLUGIN_STATE_ALIVE
         \<and> calls_of i (rt_pm rt') = calls_of i (rt_pm rt) @ bring_up_calls (pm_handles (rt_pm rt') ! i))
    \<and> (\<forall>i < plugins_count (rt_pm rt). fn_start (pm_handles (rt_pm rt') ! i) = fn_start (pm_handles (rt_pm rt) ! i))
    \<and> rt_sched rt' = (rt_sched rt)\<lparr>g_running := True\<rparr>
    \<and> rt_pid_file rt' = Some (fmt_d (env_pid env) @ [NL])
    \<and> rt_handled rt' = [SIGSEGV, SIGBUS, SIGILL, SIGFPE] @ rt_handled rt
    \<and> (\<exists>mask. rt_bus rt' = (rt_bus rt)\<lparr>thread_count := thread_count (rt_bus rt) + MAX_INIT_EVENT_BUS_THREADS,
          thread_map_mask := mask, g_task_event_bus_queue_t := ring_reset (g_task_event_bus_queue_t (rt_bus rt))\<rparr>)
    \<and> rt_crash rt' = rt_crash rt \<and> rt_gw rt' = rt_gw rt"
proof -
  from assms(1) obtain cwd where cwd: "env_cwd env = Some cwd" "length cwd < 1015" by (auto simp: env_ok_def)
  have e: "ensure_pid_dir_exists (env_pid_dir env) = 0" "env_pid_open env" "env_opendir env \<or> env_reopen env"
    "\<forall>i. env_inits env i = 0 \<and> env_starts env i = 0" "env_bus_malloc env" "\<forall>i. env_bus_threads env i" "env_sched_thread env"
    using assms(1) by (auto simp: env_ok_def)
  have order: "pm_inv (rt_pm rt)" "current_id (jit_ready (rt_loader rt)) = of_nat (plugins_count (rt_pm rt) + 1)"
    "\<forall>i < plugins_count (rt_pm rt). info_id (pm_handles (rt_pm rt) ! i) = of_nat (i + 1) \<and> fn_initialize (pm_handles (rt_pm rt) ! i)"
    using assms(3) by (simp_all add: plugins_in_order_def jit_ready_def)
  from plugin_init_more [OF e(3) assms(4) order e(4)] obtain p l where p:
    "plugin_init (env_opendir env) (env_reopen env) (env_plugins env) (env_inits env) (env_starts env)
      (rt_pm rt, jit_ready (rt_loader rt)) = Ret (0, p, l)"
    "pm_inv p" "plugins_count p = plugins_count (rt_pm rt) + plugin_dirs env"
    "current_id l = of_nat (plugins_count p + 1)"
    "\<forall>i < plugins_count p. info_id (pm_handles p ! i) = of_nat (i + 1) \<and> fn_initialize (pm_handles p ! i)
       \<and> hot_state (pm_handles p ! i) = PLUGIN_STATE_ALIVE
       \<and> calls_of i p = calls_of i (rt_pm rt) @ bring_up_calls (pm_handles p ! i)"
    "\<forall>i < plugins_count (rt_pm rt). fn_start (pm_handles p ! i) = fn_start (pm_handles (rt_pm rt) ! i)"
    by (auto simp: plugin_dirs_def)
  from bus_init_ok [OF e(6), of "rt_bus rt"] obtain mask where bus: "bus_init True (env_bus_threads env) (rt_bus rt) =
    (0, (rt_bus rt)\<lparr>thread_count := thread_count (rt_bus rt) + MAX_INIT_EVENT_BUS_THREADS, thread_map_mask := mask,
           g_task_event_bus_queue_t := ring_reset (g_task_event_bus_queue_t (rt_bus rt))\<rparr>)" by blast
  have "enter_core_dir cwd = Ret (cwd @ ''/CoreCDTL'')" using cwd(2) by (simp add: enter_core_dir_def)
  with cwd(1) e(1,2,5,7) assms(2) p(1) bus jit_init_ok [OF assms(1), of "rt_loader rt"] show ?thesis
    using p(2-6)
    by (simp add: core_init_def write_pid_file_def load_plugins_def Let_def scheduler_init_def
        crash_recovery_init_def plugins_in_order_def llvm_jit_cleanup_def del: of_nat_Suc) blast
qed

lemma runtime_initial_ok: "plugins_in_order (runtime_initial b)" "\<not> g_inited (runtime_initial b)"
  by (simp_all add: runtime_initial_def plugins_in_order_def pm_initial_def pm_inv_def pm_handles_def)

lemma bus_inv_reset:
  "bus_inv b \<Longrightarrow> bus_inv (b\<lparr>thread_count := n, thread_map_mask := msk,
    g_task_event_bus_queue_t := ring_reset (g_task_event_bus_queue_t b)\<rparr>)"
  by (auto simp: bus_inv_def bus_tasks_def ring_reset_def ring_inv_def ring_list_def MAX_TASKS_def)

lemma bring_up_calls_cong:
  "fn_start h = fn_start h' \<Longrightarrow> bring_up_calls h = bring_up_calls h'"
  by (simp add: bring_up_calls_def)

lemma core_shutdown_idle:
  assumes "timers_are (rt_sched rt) ts" "bus_inv (rt_bus rt)" "\<forall>t. crash t = None"
  shows "\<exists>s b. core_shutdown crash rt = Ret (rt\<lparr>rt_sched := s, rt_bus := bus_shutdown_end b,
      rt_pid_file := None, g_inited := False\<rparr>) \<and> g_bus_shut_down b \<and> g_timers s = NULL \<and> \<not> g_running s"
proof -
  have "free_timers (g_timers (rt_sched rt)) (timer_heap (rt_sched rt))
      = Some (Ret (\<lambda>a. if a \<in> set ts then None else timer_heap (rt_sched rt) a))"
    using assms(1) by (intro free_timers_ok) (simp_all add: timers_are_def)
  then obtain s where s: "scheduler_shutdown_end (scheduler_shutdown_begin (rt_sched rt)) = Ret s"
    "g_timers s = NULL" "\<not> g_running s"
    by (auto simp: scheduler_shutdown_end_def scheduler_shutdown_begin_def)
  have "bus_inv (bus_shutdown_begin (rt_bus rt))" "g_bus_shut_down (bus_shutdown_begin (rt_bus rt))"
    using assms(2) by (simp_all add: bus_shutdown_begin_def bus_inv_def bus_tasks_def)
  from bus_worker_thread_drains [OF this assms(3), of "(rt_crash rt, rt_gw rt)"] obtain b where
    "bus_worker_thread crash (bus_shutdown_begin (rt_bus rt), rt_crash rt, rt_gw rt) = Ret (b, rt_crash rt, rt_gw rt)"
    "g_bus_shut_down b" by auto
  with s show ?thesis by (auto simp: core_shutdown_def)
qed

section \<open>Properties\<close>

text \<open>
  C18. Starting the core: when nothing fails, \<open>core_init\<close> returns 0 with every plugin of the plugin
  directory initialized and started once, in order, five workers of the bus and the scheduler
  running, the handlers of the four signals installed and the process identifier in its file. A
  second call changes nothing. The API that \<open>core_get_api\<close> then hands out has no function set.
\<close>

theorem core_init_starts_all:
  assumes "env_ok env" "all_load (env_plugins env) (jit_ready (rt_loader (runtime_initial b)))"
  shows "\<exists>rt. core_init env (runtime_initial b) = Ret (0, rt)
    \<and> plugins_count (rt_pm rt) = plugin_dirs env
    \<and> (\<forall>i < plugin_dirs env. info_id (pm_handles (rt_pm rt) ! i) = of_nat (i + 1)
         \<and> hot_state (pm_handles (rt_pm rt) ! i) = PLUGIN_STATE_ALIVE
         \<and> calls_of i (rt_pm rt) = bring_up_calls (pm_handles (rt_pm rt) ! i))
    \<and> thread_count (rt_bus rt) = thread_count b + MAX_INIT_EVENT_BUS_THREADS \<and> g_running (rt_sched rt)
    \<and> rt_handled rt = [SIGSEGV, SIGBUS, SIGILL, SIGFPE] \<and> rt_pid_file rt = Some (fmt_d (env_pid env) @ [NL])
    \<and> core_init env2 rt = Ret (0, rt)
    \<and> core_get_api rt = Some zero_api \<and> subscribe zero_api = None \<and> \<not> publish zero_api"
proof -
  have init: "plugins_count (rt_pm (runtime_initial b)) = 0" "calls_of i (rt_pm (runtime_initial b)) = []"
    "rt_handled (runtime_initial b) = []" "rt_bus (runtime_initial b) = b" for i
    by (simp_all add: runtime_initial_def pm_initial_def calls_of_def)
  from core_init_ok [OF assms(1) runtime_initial_ok(2,1) assms(2)] obtain rt where rt:
    "core_init env (runtime_initial b) = Ret (0, rt)" "g_inited rt" "plugins_in_order rt"
    "plugins_count (rt_pm rt) = plugin_dirs env"
    "\<forall>i < plugin_dirs env. hot_state (pm_handles (rt_pm rt) ! i) = PLUGIN_STATE_ALIVE
       \<and> calls_of i (rt_pm rt) = bring_up_calls (pm_handles (rt_pm rt) ! i)"
    "g_running (rt_sched rt)" "rt_pid_file rt = Some (fmt_d (env_pid env) @ [NL])"
    "rt_handled rt = [SIGSEGV, SIGBUS, SIGILL, SIGFPE]"
    "thread_count (rt_bus rt) = thread_count b + MAX_INIT_EVENT_BUS_THREADS"
    unfolding init by auto
  moreover have "core_init env2 rt = Ret (0, rt)" using rt(2) by (simp add: core_init_def)
  moreover have "core_get_api rt = Some zero_api" using rt(2) by (simp add: core_get_api_def)
  ultimately show ?thesis by (intro exI [of _ rt]) (simp add: plugins_in_order_def zero_api_def)
qed

text \<open>
  Taking the core down and starting it again does not give a fresh core: the plugins of the
  first start were not stopped and are initialized and started a second time, every plugin is in
  the table twice, and the flag that the bus was shut down is still set, so that its new workers
  leave at once.
\<close>

theorem core_restart_not_fresh:
  assumes "env_ok env" "\<not> g_inited rt" "plugins_in_order rt"
    and "all_load (env_plugins env) (jit_ready (rt_loader rt))"
    and "bus_inv (rt_bus rt)" "g_head (rt_bus rt) = []" "timers_are (rt_sched rt) ts" "\<forall>t. crash t = None"
  shows "\<exists>rt1 rt2. core_init env rt = Ret (0, rt1) \<and> core_shutdown crash rt1 = Ret rt2
    \<and> rt_pm rt2 = rt_pm rt1
    \<and> (all_load (env_plugins env) (jit_ready (rt_loader rt2)) \<longrightarrow>
        (\<exists>rt3. core_init env rt2 = Ret (0, rt3)
          \<and> plugins_count (rt_pm rt3) = plugins_count (rt_pm rt1) + plugin_dirs env
          \<and> (\<forall>i < plugins_count (rt_pm rt1). calls_of i (rt_pm rt3) =
               calls_of i (rt_pm rt1) @ bring_up_calls (pm_handles (rt_pm rt1) ! i))
          \<and> bus_worker_round crash (rt_bus rt3, lg) = Ret (False, rt_bus rt3, lg)))"
proof -
  from core_init_ok [OF assms(1-4)] obtain rt1 mask where rt1:
    "core_init env rt = Ret (0, rt1)" "plugins_in_order rt1" "rt_sched rt1 = (rt_sched rt)\<lparr>g_running := True\<rparr>"
    "rt_bus rt1 = (rt_bus rt)\<lparr>thread_count := thread_count (rt_bus rt) + MAX_INIT_EVENT_BUS_THREADS,
        thread_map_mask := mask, g_task_event_bus_queue_t := ring_reset (g_task_event_bus_queue_t (rt_bus rt))\<rparr>"
    by blast
  have "timers_are (rt_sched rt1) ts" using assms(7) by (simp add: rt1(3) timers_are_def)
  moreover have "bus_inv (rt_bus rt1)" using assms(5,6) bus_inv_reset by (simp add: rt1(4))
  ultimately obtain s b where rt2: "core_shutdown crash rt1 = Ret (rt1\<lparr>rt_sched := s, rt_bus := bus_shutdown_end b,
      rt_pid_file := None, g_inited := False\<rparr>)" "g_bus_shut_down b"
    using core_shutdown_idle [OF _ _ assms(8)] by blast
  let ?rt2 = "rt1\<lparr>rt_sched := s, rt_bus := bus_shutdown_end b, rt_pid_file := None, g_inited := False\<rparr>"
  have "\<exists>rt3. core_init env ?rt2 = Ret (0, rt3)
      \<and> plugins_count (rt_pm rt3) = plugins_count (rt_pm rt1) + plugin_dirs env
      \<and> (\<forall>i < plugins_count (rt_pm rt1). calls_of i (rt_pm rt3) =
           calls_of i (rt_pm rt1) @ bring_up_calls (pm_handles (rt_pm rt1) ! i))
      \<and> bus_worker_round crash (rt_bus rt3, lg) = Ret (False, rt_bus rt3, lg)"
    if load: "all_load (env_plugins env) (jit_ready (rt_loader ?rt2))"
  proof -
    have "plugins_in_order ?rt2" "\<not> g_inited ?rt2" using rt1(2) by (simp_all add: plugins_in_order_def)
    from core_init_ok [OF assms(1) this(2,1) load] obtain rt3 mask where rt3:
      "core_init env ?rt2 = Ret (0, rt3)" "plugins_count (rt_pm rt3) = plugins_count (rt_pm rt1) + plugin_dirs env"
      "\<forall>i < plugins_count (rt_pm rt3). calls_of i (rt_pm rt3) = calls_of i (rt_pm rt1) @ bring_up_calls (pm_handles (rt_pm rt3) ! i)"
      "\<forall>i < plugins_count (rt_pm rt1). fn_start (pm_handles (rt_pm rt3) ! i) = fn_start (pm_handles (rt_pm rt1) ! i)"
      "rt_bus rt3 = (bus_shutdown_end b)\<lparr>thread_count := thread_count (bus_shutdown_end b) + MAX_INIT_EVENT_BUS_THREADS,
          thread_map_mask := mask, g_task_event_bus_queue_t := ring_reset (g_task_event_bus_queue_t (bus_shutdown_end b))\<rparr>"
      by auto
    have "bus_worker_round crash (rt_bus rt3, lg) = Ret (False, rt_bus rt3, lg)"
      using rt2(2) by (simp add: rt3(5) bus_worker_round_def bus_take_def ring_reset_def bus_shutdown_end_def Let_def)
    moreover have "\<forall>i < plugins_count (rt_pm rt1). calls_of i (rt_pm rt3) =
        calls_of i (rt_pm rt1) @ bring_up_calls (pm_handles (rt_pm rt1) ! i)"
      using rt3(2-4) bring_up_calls_cong by (metis trans_less_add1)
    ultimately show ?thesis using rt3(1,2) by blast
  qed
  with rt1(1) rt2(1) show ?thesis by (intro exI [of _ rt1] exI [of _ ?rt2]) simp
qed

definition sample_init :: init_env where
  "sample_init =
     \<lparr> env_cwd = Some ''/opt'', env_pid_dir = Pid_dir, env_pid_open = True, env_pid = 42, env_log_thread = True, env_jit_dlopen = True,
       env_jit_calloc = True, env_jit_syms = [True, True], env_opendir = True, env_reopen = True,
       env_plugins = replicate 2 (sample_entry (Some [])), env_inits = (\<lambda>_. 0), env_starts = (\<lambda>_. 0),
       env_bus_malloc = True, env_bus_threads = (\<lambda>_. True), env_sched_thread = True \<rparr>"

lemma sample_init_ok: "env_ok sample_init" "plugin_dirs sample_init = 2"
  "all_load (env_plugins sample_init) (jit_ready l)"
  using sample_all_load [of "jit_ready l" 2] sample_entry_dir [of "Some []"]
  by (simp_all add: env_ok_def sample_init_def ensure_pid_dir_exists_def plugin_dirs_def jit_ready_def
      filter_replicate)

theorem core_init_starts_all_witness:
  "\<exists>rt. core_init sample_init (runtime_initial (bus_initial (\<lambda>_. undefined))) = Ret (0, rt)
    \<and> plugins_count (rt_pm rt) = 2 \<and> rt_pid_file rt = Some (fmt_d 42 @ [NL])"
proof -
  have "env_pid sample_init = 42" by (simp add: sample_init_def)
  with core_init_starts_all [OF sample_init_ok(1,3), of "bus_initial (\<lambda>_. undefined)" sample_init] sample_init_ok(2)
  show ?thesis by auto
qed

theorem core_restart_not_fresh_witness:
  "\<exists>rt1 rt2 rt3. core_init sample_init (runtime_initial (bus_initial (\<lambda>_. undefined))) = Ret (0, rt1)
    \<and> core_shutdown (\<lambda>_. None) rt1 = Ret rt2 \<and> core_init sample_init rt2 = Ret (0, rt3)
    \<and> plugins_count (rt_pm rt3) = plugins_count (rt_pm rt1) + 2"
proof -
  let ?rt = "runtime_initial (bus_initial (\<lambda>_. undefined))"
  have "bus_inv (rt_bus ?rt)" "g_head (rt_bus ?rt) = []" "timers_are (rt_sched ?rt) []"
    using bus_inv_initial [of "\<lambda>_. undefined"]
    by (simp_all add: runtime_initial_def bus_initial_def timers_are_def scheduler_initial_def)
  from core_restart_not_fresh [OF sample_init_ok(1) runtime_initial_ok(2,1) sample_init_ok(3) this, of "\<lambda>_. None"]
    sample_init_ok(2,3)
  show ?thesis by fastforce
qed

end
