(* ===== verification/CtlClient.thy ===== *)
theory CtlClient
  imports Runtime
begin

text \<open>
  ctl/corecdtl-ctl.c: the command line client of the control socket, and what reaches the daemon of
  what the user types.

  The terminal, the file system and the socket are arguments: the lines of standard input, the files
  by their paths, and for every command what the system calls answer. \<open>client_out\<close> is what the
  client prints and what it writes to the socket. The newlines of the printed lines, the prompts, the
  banner and the short waits are left out, and of \<open>perror\<close> only its prefix is kept. Characters outside
  ASCII are the bytes of their UTF-8 form.
\<close>

section \<open>State\<close>

record client =
  g_connected :: bool
  g_sock_fd :: int

definition client_initial :: client where
  "client_initial = \<lparr> g_connected = False, g_sock_fd = - 1 \<rparr>"

text \<open>
  Lines on the standard output and the standard error, commands written to the socket, the prompt, a
  socket that is closed, and a command for the shell.
\<close>

datatype client_out = Out string | Err string | Sent string | Prompt string | Closed int | Ran string

text \<open>The answers of the system calls of one command.\<close>

record cmd_env =
  ce_kill_ok :: bool
  ce_socket :: int
  ce_connects :: "nat \<Rightarrow> bool"
  ce_write_ok :: bool
  ce_reply :: "string option"
  ce_dir :: "(string \<times> bool) list option"

text \<open>The paths on Linux, in the client and in src/core/runtime.h.\<close>

definition CLIENT_PID_FILE_PATH :: string where "CLIENT_PID_FILE_PATH = ''/run/corecdtl/corecdtl.pid''"
definition PID_FILE_PATH :: string where "PID_FILE_PATH = ''/run/corecdtl/corecd.pid''"

section \<open>Commands\<close>

text \<open>The two symbols that the client prints.\<close>

definition BIOHAZARD :: string where "BIOHAZARD = [CHR 0xE2, CHR 0x98, CHR 0xA3]"
definition CLOUD :: string where "CLOUD = [CHR 0xE2, CHR 0x98, CHR 0x81]"

definition print_help :: "client_out list" where
  "print_help = map Out
     [[],
      ''Available commands:'',
      ''  connect               Connect to the daemon ('' @ BIOHAZARD @ '' Enter the matrix)'',
      ''  show gateways             List all available libraries in the '' @ quoted ''libs/'' @ '' folder'',
      ''  status gateway           Show running status of all loaded libraries'',
      ''  gateway <name> start      Load and start the specified gateway'',
      ''  gateway <name> stop       Stop and unload the specified gateway'',
      ''  gateway <name> restart    Restart the specified gateway'',
      ''  gateway <name> status     Show status of the specified gateway'',
      ''  help                  Show this help message'',
      ''  exit                  Exit the CTL'',
      []]"

definition must_connect :: string where
  "must_connect = ''You must '' @ quoted ''connect'' @ '' before sending commands.''"

definition read_pid_from_file :: "(string \<rightharpoonup> string) \<Rightarrow> c_int" where
  "read_pid_from_file fs =
     (case fs CLIENT_PID_FILE_PATH of
        None \<Rightarrow> - 1
      | Some content \<Rightarrow> (case strtol (cstr content) of None \<Rightarrow> - 1 | Some pid \<Rightarrow> word_of_int pid))"

text \<open>At most ten attempts to connect; the result is whether one succeeds.\<close>

fun try_connect :: "(nat \<Rightarrow> bool) \<Rightarrow> nat list \<Rightarrow> bool" where
  "try_connect connects [] = False"
| "try_connect connects (i # js) = (if connects i then True else try_connect connects js)"

definition connect_to_daemon :: "(string \<rightharpoonup> string) \<Rightarrow> cmd_env \<Rightarrow> client \<Rightarrow> c_int \<times> client \<times> client_out list" where
  "connect_to_daemon fs env c =
     (if g_connected c then (0, c, [Out ''Already connected.''])
      else
        let daemon_pid = read_pid_from_file fs;
            o1 = [Out (''PID = '' @ fmt_d daemon_pid)]
        in if sint daemon_pid \<le> 0 \<or> \<not> ce_kill_ok env then (- 1, c, o1 @ [Err ''kill(SIGUSR1)''])
           else
             let o2 = o1 @ [Out (CLOUD @ '' Connecting to daemon...'')];
                 c1 = c\<lparr>g_sock_fd := ce_socket env\<rparr>
             in if g_sock_fd c1 = - 1 then (- 1, c1, o2 @ [Err ''socket''])
                else if try_connect (ce_connects env) [0..<10]
                then (0, c1\<lparr>g_connected := True\<rparr>,
                      o2 @ [Out (BIOHAZARD @ '' Entering the matrix... Connected to daemon.'')])
                else (- 1, c1\<lparr>g_sock_fd := - 1\<rparr>, o2 @ [Err ''connect'']))"

text \<open>The reply is read into 256 bytes.\<close>

definition send_command :: "cmd_env \<Rightarrow> string \<Rightarrow> client \<Rightarrow> c_int \<times> client_out list" where
  "send_command env command c =
     (if \<not> g_connected c then (- 1, [Err (''Not connected. Use '' @ quoted ''connect'' @ '' first.'')])
      else if \<not> ce_write_ok env then (- 1, [Err ''write''])
      else (0, Sent command # (case ce_reply env of
             None \<Rightarrow> []
           | Some r \<Rightarrow> if r = [] then [] else [Out (''>> '' @ cstr (take 255 r))])))"

text \<open>\<open>strstr(s, p) != NULL\<close>.\<close>

fun strstr :: "string \<Rightarrow> string \<Rightarrow> bool" where
  "strstr p [] = (p = [])"
| "strstr p (c # s) = (starts_with p (c # s) \<or> strstr p s)"

definition show_gateways :: "cmd_env \<Rightarrow> client_out list" where
  "show_gateways env =
     (case ce_dir env of
        None \<Rightarrow> [Err ''opendir'', Out ''Cannot open ./gateways directory'']
      | Some entries \<Rightarrow>
          let found = filter (\<lambda>(name, regular). regular \<and> (strstr ''.so'' name \<or> strstr ''.dylib'' name)) entries
          in Out ''Available gateways:'' # map (\<lambda>(name, _). Out (''  - '' @ name)) found
             @ (if found = [] then [Out ''  No shared libraries found in ./libs/''] else []))"

text \<open>One line of the loop; the flag is whether the loop goes on.\<close>

definition repl_line ::
    "(string \<rightharpoonup> string) \<Rightarrow> cmd_env \<Rightarrow> string \<Rightarrow> client \<Rightarrow> bool \<times> client \<times> client_out list" where
  "repl_line fs env line c =
     (let input = takeWhile (\<lambda>ch. ch \<noteq> NL) (cstr line)
      in if strcmp input ''exit'' = 0 then (False, c, [Out ''Disconnected. Bye!''])
         else if strcmp input ''help'' = 0 then (True, c, print_help)
         else if strcmp input ''connect'' = 0 then
           (case connect_to_daemon fs env c of (_, c1, out) \<Rightarrow> (True, c1, out))
         else if strcmp input ''show gateways'' = 0 then (True, c, show_gateways env)
         else if starts_with ''gateway '' input then
           if \<not> g_connected c then (True, c, [Err must_connect])
           else (True, c, snd (send_command env (drop 8 input) c))
         else if \<not> g_connected c then (True, c, [Err must_connect])
         else (True, c, snd (send_command env input c)))"

definition printf_start_line :: "client \<Rightarrow> client_out list" where
  "printf_start_line c = (if g_connected c then [Prompt ''(connected)> ''] else [Prompt ''> ''])"

text \<open>
  The loop over the lines of standard input, with the environment of each of them. It prints the prompt
  once more before it finds that there is no line left.
\<close>

fun repl_lines ::
    "(string \<rightharpoonup> string) \<Rightarrow> (nat \<Rightarrow> cmd_env) \<Rightarrow> nat \<Rightarrow> string list \<Rightarrow> client \<Rightarrow> client \<times> client_out list" where
  "repl_lines fs env k [] c = (c, printf_start_line c)"
| "repl_lines fs env k (l # ls) c =
     (case repl_line fs (env k) l c of
        (False, c1, out) \<Rightarrow> (c1, printf_start_line c @ out)
      | (True, c1, out) \<Rightarrow>
          (case repl_lines fs env (k + 1) ls c1 of (c2, out2) \<Rightarrow> (c2, printf_start_line c @ out @ out2)))"

definition run_repl :: "(string \<rightharpoonup> string) \<Rightarrow> (nat \<Rightarrow> cmd_env) \<Rightarrow> string \<Rightarrow> client \<Rightarrow> client \<times> client_out list" where
  "run_repl fs env stdin c =
     (case repl_lines fs env 0 (fgets_lines 256 stdin) c of
        (c1, out) \<Rightarrow> (c1, out @ (if g_connected c1 then [Closed (g_sock_fd c1)] else [])))"

text \<open>\<open>main\<close>; the picture of ctl/art.c is a parameter.\<close>

definition ctl_main ::
    "client_out list \<Rightarrow> (string \<rightharpoonup> string) \<Rightarrow> (nat \<Rightarrow> cmd_env) \<Rightarrow> string \<Rightarrow> c_int \<times> client_out list" where
  "ctl_main picture fs env stdin =
     (case run_repl fs env stdin client_initial of
        (c, out) \<Rightarrow>
          (0, Ran ''clear'' # picture @ Out (''Type '' @ quoted ''help'' @ '' for available commands.'') # out))"

section \<open>Lemmas\<close>

text \<open>The files after the daemon's start, on top of those that were there.\<close>

definition with_daemon :: "runtime \<Rightarrow> (string \<rightharpoonup> string) \<Rightarrow> (string \<rightharpoonup> string)" where
  "with_daemon rt fs = fs(PID_FILE_PATH := rt_pid_file rt)"

definition plain_word :: "nat \<Rightarrow> string \<Rightarrow> bool" where
  "plain_word n w \<longleftrightarrow> w \<noteq> [] \<and> length w \<le> n \<and> (\<forall>ch\<in>set w. \<not> isspace ch) \<and> NUL \<notin> set w"

lemma dropWhile_word: "plain_word n w \<Longrightarrow> dropWhile isspace (w @ s) = w @ s"
  by (cases w) (auto simp: plain_word_def)

lemma scan_word_space:
  assumes "plain_word n w"
  shows "scan_word n (w @ CHR '' '' # s) = (w, CHR '' '' # s)"
proof -
  have "takeWhile (\<lambda>c. \<not> isspace c) (w @ CHR '' '' # s) = w"
    using assms by (simp add: plain_word_def takeWhile_append)
  with assms show ?thesis
    by (simp add: scan_word_def Let_def dropWhile_word [OF assms] plain_word_def)
qed

lemma scan_word_end:
  assumes "plain_word n w"
  shows "scan_word n (CHR '' '' # w) = (w, [])"
proof -
  have "takeWhile (\<lambda>c. \<not> isspace c) w = w" using assms by (simp add: plain_word_def takeWhile_eq_all_conv)
  with assms show ?thesis
    using dropWhile_word [OF assms, of "[]"]
    by (simp add: scan_word_def Let_def plain_word_def del: takeWhile_eq_all_conv)
qed

lemma scan_command_words:
  assumes "plain_word 127 lib" "plain_word 63 act"
  shows "scan_command (lib @ '' '' @ act @ [NUL]) = Some (lib, act)"
proof -
  have "NUL \<notin> set (lib @ '' '' @ act)" using assms by (simp add: plain_word_def)
  then have "cstr (lib @ '' '' @ act @ [NUL]) = lib @ '' '' @ act"
    using cstr_append_nul [of "lib @ '' '' @ act" "[]"] by simp
  then show ?thesis
    using scan_word_space [OF assms(1), of act] scan_word_end [OF assms(2)] assms
    by (simp add: scan_command_def plain_word_def)
qed

definition replies :: "cmd_env \<Rightarrow> client_out list" where
  "replies env = (case ce_reply env of
     None \<Rightarrow> [] | Some r \<Rightarrow> if r = [] then [] else [Out (''>> '' @ cstr (take 255 r))])"

lemma send_connected:
  "g_connected c \<Longrightarrow> ce_write_ok env \<Longrightarrow> snd (send_command env t c) = Sent t # replies env"
  by (simp add: send_command_def replies_def)

text \<open>A session of one line on a connected client.\<close>

definition session_of :: "client \<Rightarrow> client_out list \<Rightarrow> client_out list" where
  "session_of c out =
     Prompt ''(connected)> '' # out @ [Prompt ''(connected)> '', Closed (g_sock_fd c)]"

lemma run_repl_line:
  assumes "NL \<notin> set b" "length b < 255" "g_connected c" "repl_line fs (env 0) (b @ [NL]) c = (True, c, out)"
  shows "run_repl fs env (b @ [NL]) c = (c, session_of c out)"
proof -
  have "fgets_lines 256 (b @ [NL]) = [b @ [NL]]" using fgets_lines_concat [of "[b @ [NL]]" 256] assms by simp
  then show ?thesis using assms(3,4) by (simp add: run_repl_def session_of_def printf_start_line_def)
qed

lemma input_line: "NL \<notin> set b \<Longrightarrow> NUL \<notin> set b \<Longrightarrow> takeWhile (\<lambda>ch. ch \<noteq> NL) (cstr (b @ [NL])) = b"
  by (simp add: takeWhile_append takeWhile_eq_all_conv)

lemma plain_word_chars: "plain_word n w \<Longrightarrow> NL \<notin> set w \<and> NUL \<notin> set w"
  by (auto simp: plain_word_def)

text \<open>
  What the user types reaches the daemon: on a connected client the line \<open>gateway lib action\<close>
  writes the two words to the socket, and the daemon splits what it reads into that library and
  that action, up to the lengths of its buffers.
\<close>

lemma client_command_reaches_daemon:
  assumes "plain_word 127 lib" "plain_word 63 act" "g_connected c" "ce_write_ok (env 0)"
  shows "run_repl fs env (''gateway '' @ lib @ '' '' @ act @ [NL]) c
      = (c, session_of c (Sent (lib @ '' '' @ act) # replies (env 0)))
    \<and> scan_command (take 255 (lib @ '' '' @ act) @ [NUL]) = Some (lib, act)"
proof -
  let ?b = "''gateway '' @ lib @ '' '' @ act"
  have ch: "NL \<notin> set ?b" "NUL \<notin> set ?b" using plain_word_chars assms(1,2) by auto
  have len: "length lib \<le> 127" "length act \<le> 63" using assms(1,2) by (simp_all add: plain_word_def)
  have line: "repl_line fs (env 0) (?b @ [NL]) c = (True, c, Sent (lib @ '' '' @ act) # replies (env 0))"
    unfolding repl_line_def Let_def input_line [OF ch]
    using assms(3) send_connected [OF assms(3,4)] by (simp add: starts_with_def)
  have "run_repl fs env (?b @ [NL]) c = (c, session_of c (Sent (lib @ '' '' @ act) # replies (env 0)))"
    using line ch(1) len assms(3) by (intro run_repl_line) simp_all
  moreover have "scan_command (take 255 (lib @ '' '' @ act) @ [NUL]) = Some (lib, act)"
    using scan_command_words [OF assms(1,2)] len by simp
  ultimately show ?thesis by simp
qed

section \<open>Properties\<close>

text \<open>
  The command \<open>status gateway\<close> of the help is not one the daemon knows: it takes the first word
  for a library and the second for an action, and answers that the action is unknown.
\<close>

theorem client_status_gateway_unknown:
  assumes "ctl_reach disk st" "g_connected c" "ce_write_ok (env 0)"
  shows "run_repl fs env (''status gateway'' @ [NL]) c = (c, session_of c (Sent ''status gateway'' # replies (env 0)))
    \<and> handle_ctl_command disk asleep 256 (''status gateway'' @ [NUL]) st =
        Ret (- 1, ''Unknown action: '' @ quoted ''gateway'', st)"
proof
  have "repl_line fs (env 0) (''status gateway'' @ [NL]) c = (True, c, Sent ''status gateway'' # replies (env 0))"
    using assms(2) send_connected [OF assms(2,3), of "''status gateway''"]
    by (simp add: repl_line_def Let_def starts_with_def)
  then show "run_repl fs env (''status gateway'' @ [NL]) c = (c, session_of c (Sent ''status gateway'' # replies (env 0)))"
    using run_repl_line [of "''status gateway''" c fs env, OF _ _ assms(2)] by simp
  have "scan_command (''status'' @ '' '' @ ''gateway'' @ [NUL]) = Some (''status'', ''gateway'')"
    by (rule scan_command_words) (simp_all add: plain_word_def isspace_def)
  then have scan: "scan_command (''status gateway'' @ [NUL]) = Some (''status'', ''gateway'')" by simp
  have low: "map tolower ''gateway'' = ''gateway''" by code_simp
  show "handle_ctl_command disk asleep 256 (''status gateway'' @ [NUL]) st =
      Ret (- 1, ''Unknown action: '' @ quoted ''gateway'', st)"
    unfolding handle_ctl_command_def scan option.case prod.case Let_def low by (simp add: quoted_def)
qed

text \<open>
  The daemon and the client do not agree on the name of the file with the process identifier:
  with the daemon's file and no other, the client finds no identifier, prints -1 and stays
  unconnected, however often it tries. Under the client's name the same text would be read back as
  the daemon's identifier.
\<close>

theorem client_misses_pid_file:
  assumes "rt_pid_file rt = Some (fmt_d pid @ [NL])" "fs CLIENT_PID_FILE_PATH = None"
  shows "read_pid_from_file (with_daemon rt fs) = - 1
    \<and> (\<not> g_connected c \<longrightarrow> connect_to_daemon (with_daemon rt fs) env c =
        (- 1, c, [Out ''PID = -1'', Err ''kill(SIGUSR1)'']))
    \<and> read_pid_from_file (fs(CLIENT_PID_FILE_PATH := rt_pid_file rt)) = pid"
proof -
  have ne: "CLIENT_PID_FILE_PATH \<noteq> PID_FILE_PATH" by (simp add: CLIENT_PID_FILE_PATH_def PID_FILE_PATH_def)
  have r: "read_pid_from_file (with_daemon rt fs) = - 1"
    using assms(2) ne by (simp add: read_pid_from_file_def with_daemon_def)
  moreover have "fmt_d (- 1) = ''-1''" by code_simp
  moreover have "sint (- 1 :: c_int) \<le> 0" by simp
  moreover have "NUL \<notin> set (fmt_d pid @ [NL])" using fmt_d_plain [of pid] by (auto simp: plain_def)
  then have "read_pid_from_file (fs(CLIENT_PID_FILE_PATH := rt_pid_file rt)) = pid"
    using show_int_strtol [of "[NL]" "sint pid"]
    by (simp add: read_pid_from_file_def assms(1) fmt_d_def is_digit_def)
  ultimately show ?thesis by (simp add: connect_to_daemon_def Let_def)
qed

definition sample_cmd :: cmd_env where
  "sample_cmd = \<lparr> ce_kill_ok = True, ce_socket = 3, ce_connects = (\<lambda>_. True), ce_write_ok = True,
     ce_reply = Some ''ok'', ce_dir = None \<rparr>"

theorem client_status_gateway_unknown_witness:
  "handle_ctl_command (\<lambda>_. full_lib) True 256 (''status gateway'' @ [NUL]) ctl_initial =
     Ret (- 1, ''Unknown action: '' @ quoted ''gateway'', ctl_initial)"
proof -
  have "g_connected \<lparr> g_connected = True, g_sock_fd = 3 \<rparr>" "ce_write_ok sample_cmd" by (simp_all add: sample_cmd_def)
  from client_status_gateway_unknown [OF ctl_start this(1), of "\<lambda>_. sample_cmd" Map.empty "\<lambda>_. full_lib" True] this(2)
  show ?thesis by blast
qed

theorem client_misses_pid_file_witness:
  "read_pid_from_file (with_daemon ((runtime_initial (bus_initial (\<lambda>_. undefined)))\<lparr>rt_pid_file := Some (fmt_d 42 @ [NL])\<rparr>)
     Map.empty) = - 1"
  using client_misses_pid_file [of "(runtime_initial (bus_initial (\<lambda>_. undefined)))\<lparr>rt_pid_file := Some (fmt_d 42 @ [NL])\<rparr>"
      42 Map.empty client_initial sample_cmd] by simp

end
