(* ===== verification/Spec2Isabelle.thy ===== *)
theory Spec2Isabelle
  imports BusSystem SchedSystem GatewaySystem PluginView Headers UtilsId CtlClient
begin

text \<open>
  A verification library for CoreCDTL, a runtime in C that loads plugins as shared objects, gives each
  of them an event bus, timers and typed memory, and can hand what happens in it to a gateway library
  under the control of a command line client. The paths below are those of the repository.

  \<^bold>\<open>The parts and their theories, in the order of their dependencies\<close>

  \<^item> CorePrelude: the machine types of include/core_utils.h as words of their width; \<open>outcome\<close>, the ways
    a call can end (\<open>Ret\<close>, \<open>Blocked\<close> on a condition, \<open>Diverges\<close>, \<open>Fault\<close> for what C leaves undefined);
    C strings and the functions of the C library on them (\<open>snprintf\<close>, \<open>strcmp\<close>, \<open>strtol\<close>, \<open>fgets\<close>),
    with the lemmas all components share; the locale \<open>draining_system\<close>.
  \<^item> StrUtils: src/utils/utils_string.c. \<open>optimized_strcmp\<close> for every target of the preprocessor, its
    equivalence with string equality on the portable one, and how the vector routines differ.
  \<^item> Dispatcher: src/gateway/gateway_dispatcher.c and \<open>gateway_msg_send\<close>. The arena of messages and
    the thread that empties it; no accepted message is lost, repeated or reordered (locale
    \<open>message_channel\<close>, interpreted on the arena).
  \<^item> GatewaySystem: the dispatcher thread, the thread that closes it and any number of threads that
    report, as a step relation over their places in the code and \<open>gateway_d_flush_mutex\<close>. The threads
    implement a first-in first-out channel; closing ends (an interpretation of \<open>draining_system\<close>)
    when the library does not make the core report while it is called, and may not when it does.
  \<^item> CrashLog: src/core/log.c. The log functions, the queue of critical errors with its 32 bit map of
    63 slots, and its consumer.
  \<^item> BusQueue, EventBus, BusSystem: src/core/event_bus.c. The ring of 100 tasks refines a bounded
    first-in first-out list (locale \<open>bounded_fifo\<close>); subscribing, publishing, the workers and the
    shutdown as functions on the record \<open>bus\<close>; and the five workers and any number of publishers as
    a step relation over their program points and the owner of \<open>sub_mutex\<close>, with an invariant that
    accounts for every payload, the proof that the system comes to rest when callbacks do not
    publish (an interpretation of \<open>draining_system\<close>), and the deadlock when they do.
  \<^item> Scheduler: src/core/scheduler.c. The timers are nodes of a heap linked by addresses, so a use
    after free is a value of the model; inserting, cancelling, firing, waiting, shutdown.
  \<^item> SchedSystem: the timer thread, any number of threads that call the functions of the scheduler, and
    one that walks the list without the mutex, as a step relation in which a call is cut at every
    place where another thread can get in between. Every timer has one owner at every moment; the
    timer thread never touches freed memory, the callers can; a shutdown ends.
  \<^item> Heapkit, HeapkitText: src/core/heapkit.c. Types, instances as bytes in the order of the machine,
    access to fields, instances as text and back.
  \<^item> PluginLoader: src/plugin/plugin_loader.c, src/plugin/plugin_stub.c, src/jit/llvm_jit.c. Manifest
    and data files line by line, the handle of a plugin and its functions.
  \<^item> JitStub: libs/jit/jit_stub_generator.cpp. The functions that are generated for a plugin, as
    LLVM's intermediate representation with its typing and meaning.
  \<^item> PluginView: the event bus, the scheduler and the heapkit as a plugin reaches them through its
    stubs, with what a plugin can observe of each: no sequence of calls of one plugin changes what
    another one has, and an event goes from the plugin that publishes to the one that subscribed.
  \<^item> Headers: include/core_api.h, include/plugin_api.h, include/core_utils.h, include/platform.h and the
    header for plugins, with the prototypes in event_bus.h, scheduler.h, heapkit.h, plugin_manager.h,
    llvm_jit.h and include/jit_stub_generator.h. The structures as the compiler lays them out, the
    agreement of all declarations of \<open>core_api_t\<close>, of the generated functions and of the functions they
    call; freeing the parameters of a handle, which depends on the layout; the logger on the plugin's
    side; the platform macros.
  \<^item> UtilsId: src/utils/utils_id.h. Identifiers from \<open>rand\<close>: which can come out, and how they print.
  \<^item> PluginManager: src/plugin/plugin_manager.c. The table of plugins, start-up and the life cycle,
    with abstract specifications of the operations that the definitions refine (locales
    \<open>plugin_operation\<close> and \<open>lifecycle_operation\<close>, interpreted for each operation).
  \<^item> Gateway: src/gateway/gateway.c. The life of a gateway library, and what it can ask of the core.
  \<^item> CoreCtl: src/core/core_ctl.c. The commands of the control socket and the server loop.
  \<^item> CrashHandler: src/core/crash_recovery.c. The search for a context on the interrupted stack, byte
    by byte, and the return into a worker.
  \<^item> Runtime: src/core/runtime.c, src/core/cored.c and src/core/core_test.c. Start and end of everything
    above.
  \<^item> CtlClient: ctl/corecdtl-ctl.c. The client of the control socket.

  This theory holds what spans components: a plugin's own view of the scheduler through its stub,
  and a command on its way from the prompt of the client to the gateway library and back.

  \<^bold>\<open>State and effects.\<close> The static variables of a file are a record (\<open>gw\<close>, \<open>crash_log\<close>, \<open>bus\<close>,
  \<open>scheduler\<close>, \<open>hk\<close>, \<open>loader\<close>, \<open>pm\<close>, \<open>ctl\<close>, \<open>runtime\<close>, \<open>client\<close>); a function takes and returns
  the records it touches, in the order of its calls. Calls into code that is not part of the program
  (callbacks, entry points of plugins, a gateway library) are recorded in a trace of the record, and
  what they answer is an argument. So are the answers of the operating system: whether an allocation,
  a thread or a file can be had, the clock, the contents of files, the events on a socket. Integers
  keep their width where they can wrap.

  \<^bold>\<open>Properties.\<close> Each component has the functional behaviour of its operations with their error
  branches, an invariant that its operations keep, and the limits that the code has: where an
  operation can fail, wait for ever or leave defined behaviour, the property says for which inputs.
  Properties with hypotheses have a witness that applies them to concrete values.

  \<^bold>\<open>Bounds.\<close> No definition uses fuel. Loops over lists are structural recursion; the worker's loop
  terminates by the length of the queue; the walks over the linked list of timers are partial
  functions whose results on well-formed lists are proved to exist, and the RISC-V comparison is one
  whose results are given where it has any. Threads that run for ever are
  described round by round, or by steps.

  \<^bold>\<open>Not modelled.\<close> Interleaving inside a critical section or finer than a statement, apart from the
  halves of \<open>g_next_id++\<close>: so neither the non-atomic increment of \<open>event_count\<close> nor weak memory; the
  threads of the plugin manager, whose functions take no lock and are described as whole calls; the
  time stamps of the log and the errors of its files; timeouts as durations; LLVM, the dynamic linker
  and floating point conversion, which are parameters; the picture of ctl/art.c and the tests.
\<close>

section \<open>The scheduler seen by a plugin\<close>

text \<open>
  The function at \<open>cancel_addr\<close> is \<open>scheduler_cancel\<close>; a call of any other address is a fault.
\<close>

definition scheduler_callee :: "u64 \<Rightarrow> (scheduler \<times> gw) callee" where
  "scheduler_callee cancel_addr a xs st =
     (if a \<noteq> cancel_addr then Fault NullDeref
      else (case xs of
        [V32 pid, V32 i] \<Rightarrow> outcome_bind (scheduler_cancel pid i st) (\<lambda>(r, st1). Ret (V32 r, st1))
      | _ \<Rightarrow> Fault UninitRead))"

lemma scheduler_callee_typed:
  "callee_typed (scheduler_callee a) (fn_entry (stub_fn Stub_cancel pid b name))"
  by (auto simp: callee_typed_def stub_fn_def scheduler_callee_def split: list.splits ir_val.splits if_splits)

text \<open>
  A plugin can cancel its own timers and no others: calling the member \<open>timer_cancel\<close> of its
  \<open>core_api_t\<close> is calling \<open>scheduler_cancel\<close> with its identifier, always returns, and leaves every
  timer of every other plugin in the list, with the same contents.
\<close>

theorem plugin_cancels_own_timers:
  assumes "create_stub Stub_cancel env pid cancel_addr = Some stub" "f \<in> set (stub_module stub)"
    and "timers_are s as"
  shows "\<exists>r s' g' as'. run_fn (scheduler_callee cancel_addr) f [V32 i] (s, g) = Some (Ret (V32 r, s', g'))
    \<and> scheduler_cancel pid i (s, g) = Ret (r, s', g') \<and> timers_are s' as'
    \<and> (\<forall>a t. a \<in> set as \<and> timer_heap s a = Some t \<and> timer_plugin_id t \<noteq> pid \<longrightarrow>
          a \<in> set as' \<and> contents (timer_heap s') a = contents (timer_heap s) a)"
proof -
  obtain name where f: "f = stub_fn Stub_cancel pid cancel_addr name"
    using assms(1,2) create_stub_fn [of Stub_cancel env pid cancel_addr] by (auto split: if_splits)
  have run: "run_fn (scheduler_callee cancel_addr) f [V32 i] (s, g) =
      Some (scheduler_callee cancel_addr cancel_addr [V32 pid, V32 i] (s, g))"
    unfolding f by (rule stub_fn_calls) (simp_all add: scheduler_callee_typed)
  have "\<exists>r s' g' as'. scheduler_cancel pid i (s, g) = Ret (r, s', g') \<and> timers_are s' as'
    \<and> (\<forall>a t. a \<in> set as \<and> timer_heap s a = Some t \<and> timer_plugin_id t \<noteq> pid \<longrightarrow>
          a \<in> set as' \<and> contents (timer_heap s') a = contents (timer_heap s) a)"
  proof (cases "0 < sint i")
    case False
    then show ?thesis using assms(3) by (auto simp: scheduler_cancel_def)
  next
    case True
    note exact = scheduler_cancel_exact [OF assms(3) True, of pid g]
    show ?thesis
    proof (cases "find (is_timer pid i (timer_heap s)) as")
      case None
      with exact assms(3) show ?thesis by auto
    next
      case (Some x)
      then have x: "is_timer pid i (timer_heap s) x" by (auto simp: find_Some_iff)
      from Some exact obtain s' where s': "scheduler_cancel pid i (s, g) = Ret (0, s', g)"
        "timers_are s' (remove1 x as)" "contents (timer_heap s') = (contents (timer_heap s))(x := None)" by auto
      have "a \<noteq> x" if "timer_heap s a = Some t" "timer_plugin_id t \<noteq> pid" for a t
        using x that by (auto simp: is_timer_def)
      with s' show ?thesis by (intro exI [of _ 0] exI [of _ s'] exI [of _ g] exI [of _ "remove1 x as"]) auto
    qed
  qed
  with run show ?thesis by (auto simp: scheduler_callee_def)
qed

text \<open>The second of the two sample timers belongs to plugin 7.\<close>

theorem plugin_cancels_own_timers_witness:
  "\<exists>stub f r s' g'. create_stub Stub_cancel sample_jit 8 64 = Some stub \<and> f \<in> set (stub_module stub)
    \<and> run_fn (scheduler_callee 64) f [V32 2] (sample_scheduler, gw_initial) = Some (Ret (V32 r, s', g'))
    \<and> contents (timer_heap s') 2 = contents (timer_heap sample_scheduler) 2"
proof -
  obtain name stub where st: "create_stub Stub_cancel sample_jit 8 64 = Some stub"
    "stub_module stub = [stub_fn Stub_cancel 8 64 name]" using sample_stub by blast
  let ?f = "stub_fn Stub_cancel 8 64 name"
  have f: "?f \<in> set (stub_module stub)" using st(2) by simp
  have t: "timer_heap sample_scheduler 2 = Some (sample_timer 2 20 True NULL)" "timer_plugin_id (sample_timer 2 20 True NULL) \<noteq> 8"
    by (simp_all add: sample_scheduler_def sample_timer_def)
  from plugin_cancels_own_timers [OF st(1) f sample_timers, of 2 gw_initial] obtain r s' g' as' where
    "run_fn (scheduler_callee 64) ?f [V32 2] (sample_scheduler, gw_initial) = Some (Ret (V32 r, s', g'))"
    "\<forall>a t. a \<in> set [1, 2] \<and> timer_heap sample_scheduler a = Some t \<and> timer_plugin_id t \<noteq> 8 \<longrightarrow>
      a \<in> set as' \<and> contents (timer_heap s') a = contents (timer_heap sample_scheduler) a" by blast
  moreover from this(2) t have "contents (timer_heap s') 2 = contents (timer_heap sample_scheduler) 2" by simp
  ultimately show ?thesis using st(1) f by blast
qed

section \<open>From the prompt to the gateway\<close>

text \<open>
  C23. A user who starts a gateway gets it started: on a connected client, with no gateway running in
  the daemon and a complete library on disk, the line \<open>gateway lib start\<close>, in any mixture of upper
  and lower case letters of the action, makes the daemon initialize and start the library, and the
  client prints the daemon's reply with the path of the library.
\<close>

theorem user_starts_gateway:
  assumes "plain_word 127 lib" "plain_word 63 act" "map tolower act = ''start''"
    and "ctl_reach disk st" "\<not> gateway_is_alive (ctl_gw st)" "lib_complete (disk (''./gateways/'' @ lib @ ''.so''))"
    and "g_connected c" "ce_write_ok env"
    and "reply = ''Started '' @ quoted (''./gateways/'' @ lib @ ''.so'')"
  shows "\<exists>g. serve_client disk [Client_data (lib @ '' '' @ act), Client_end] st = Ret ([reply], st\<lparr>ctl_gw := g\<rparr>)
    \<and> gateway_is_alive g \<and> g_gateway_connected_flag g \<and> lib_calls g = [Gw_init, Gw_start]
    \<and> run_repl fs (\<lambda>_. env\<lparr>ce_reply := Some reply\<rparr>) (''gateway '' @ lib @ '' '' @ act @ [NL]) c
        = (c, [Prompt ''(connected)> '', Sent (lib @ '' '' @ act), Out (''>> '' @ reply),
               Prompt ''(connected)> '', Closed (g_sock_fd c)])"
proof -
  have len: "length lib \<le> 127" "NUL \<notin> set lib" using assms(1) by (simp_all add: plain_word_def)
  have p: "lib_path lib = ''./gateways/'' @ lib @ ''.so''"
    using len by (simp add: lib_path_def GATEWAY_LIB_PATH_def LIB_EXT_def snprintf_fits)
  have "ce_write_ok (env\<lparr>ce_reply := Some reply\<rparr>)" using assms(8) by simp
  note client = client_command_reaches_daemon [OF assms(1,2,7), of "\<lambda>_. env\<lparr>ce_reply := Some reply\<rparr>" fs, OF this]
  have r: "snprintf 256 reply = reply" "cstr (take 255 reply) = reply"
    using len by (simp_all add: assms(9) quoted_def snprintf_fits)
  have "lib_complete (disk (lib_path lib))" using assms(6) p by simp
  moreover have "''start'' = ''start'' \<and> ''Started '' = ''Started '' \<or> ''start'' = ''restart'' \<and> ''Started '' = ''Restarted ''"
    by simp
  ultimately
  obtain g where g: "handle_ctl_command disk True 256 (take 255 (lib @ '' '' @ act) @ [NUL]) st =
      Ret (GATEWAY_OK, snprintf 256 (''Started '' @ quoted (lib_path lib)), st\<lparr>ctl_gw := g\<rparr>)"
    "gateway_is_alive g" "g_gateway_connected_flag g" "lib_calls g = [Gw_init, Gw_start]"
    using start_command_ok [OF ctl_reach_inv [OF assms(4)] client [THEN conjunct2] assms(3) _ assms(5)] by blast
  have "serve_client disk [Client_data (lib @ '' '' @ act), Client_end] st = Ret ([reply], st\<lparr>ctl_gw := g\<rparr>)"
    unfolding serve_client.simps Let_def g(1) p assms(9) [symmetric] r(1) by simp
  moreover have "replies (env\<lparr>ce_reply := Some reply\<rparr>) = [Out (''>> '' @ reply)]"
    using r(2) by (simp add: replies_def) (simp add: assms(9))
  ultimately show ?thesis using g(2-4) client by (intro exI [of _ g]) (simp add: session_of_def)
qed

theorem user_starts_gateway_witness:
  "run_repl Map.empty (\<lambda>_. sample_cmd\<lparr>ce_reply := Some (''Started '' @ quoted (''./gateways/'' @ ''mqtt'' @ ''.so''))\<rparr>)
     (''gateway '' @ ''mqtt'' @ '' '' @ ''Start'' @ [NL]) \<lparr> g_connected = True, g_sock_fd = 3 \<rparr> =
   (\<lparr> g_connected = True, g_sock_fd = 3 \<rparr>,
    [Prompt ''(connected)> '', Sent (''mqtt'' @ '' '' @ ''Start''),
     Out (''>> '' @ ''Started '' @ quoted (''./gateways/'' @ ''mqtt'' @ ''.so'')), Prompt ''(connected)> '', Closed 3])"
proof -
  have w: "plain_word 127 ''mqtt''" "plain_word 63 ''Start''" by (simp_all add: plain_word_def isspace_def)
  have l: "map tolower ''Start'' = ''start''" by code_simp
  have d: "\<not> gateway_is_alive (ctl_gw ctl_initial)" "lib_complete full_lib"
    by (simp_all add: ctl_initial_def gw_initial_def lib_complete_def full_lib_def)
  have c: "g_connected \<lparr> g_connected = True, g_sock_fd = 3 \<rparr>" "ce_write_ok sample_cmd" by (simp_all add: sample_cmd_def)
  from user_starts_gateway [of _ _ "\<lambda>_. full_lib", OF w l ctl_start d c refl, of Map.empty] show ?thesis by simp blast
qed

end
